(* ===== verification/Prelude.thy ===== *)
theory Prelude
  imports Complex_Main "HOL-Library.Word"
begin

text \<open>
  The shared layer of the development: the machine types of the Rust source, the
  three-valued result of a Rust call (\<open>Ok\<close>, \<open>Err\<close>, or a panic), byte strings and their
  big- and little-endian values, the slice operations the source uses
  (\<open>to_le_bytes\<close>, \<open>copy_from_slice\<close>, \<open>chunks_mut(4)\<close>, array comparison), the standard
  library's saturating arithmetic, and the standard library's number formatting and
  \<open>from_str_radix\<close>. Every component theory imports it. The collection
  \<open>byte_simps\<close> holds the length and value equations the component proofs rewrite with.
\<close>

unbundle bit_operations_syntax

declare of_nat_unat [simp del]

lemma of_nat_unat_same [simp]: "of_nat (unat w) = (w :: 'a::len word)"
  by (simp add: of_nat_unat)

named_theorems byte_simps

type_synonym byte = "8 word"
type_synonym bytes = "8 word list"
type_synonym u16 = "16 word"
type_synonym u32 = "32 word"
type_synonym u64 = "64 word"
type_synonym u128 = "128 word"

text \<open>A Rust \<open>Result\<close> whose computation may also panic.\<close>

datatype ('e, 'a) outcome = Ok 'a | Err 'e | Panic

fun obind :: "('e, 'a) outcome \<Rightarrow> ('a \<Rightarrow> ('e, 'b) outcome) \<Rightarrow> ('e, 'b) outcome" where
  "obind (Ok x) f = f x"
| "obind (Err e) f = Err e"
| "obind Panic f = Panic"

definition of_opt :: "'e \<Rightarrow> 'a option \<Rightarrow> ('e, 'a) outcome" where
  "of_opt e x = (case x of None \<Rightarrow> Err e | Some y \<Rightarrow> Ok y)"

fun omapM :: "('a \<Rightarrow> ('e, 'b) outcome) \<Rightarrow> 'a list \<Rightarrow> ('e, 'b list) outcome" where
  "omapM f [] = Ok []"
| "omapM f (x # xs) = obind (f x) (\<lambda>y. obind (omapM f xs) (\<lambda>ys. Ok (y # ys)))"

subsection \<open>Byte strings\<close>

primrec le_val :: "bytes \<Rightarrow> nat" where
  "le_val [] = 0"
| "le_val (b # bs) = unat b + 256 * le_val bs"

definition be_val :: "bytes \<Rightarrow> nat" where
  "be_val bs = le_val (rev bs)"

primrec le_bytes :: "nat \<Rightarrow> 'a::len word \<Rightarrow> bytes" where
  "le_bytes 0 w = []"
| "le_bytes (Suc n) w = ucast w # le_bytes n (drop_bit 8 w)"

definition u16_to_le_bytes :: "u16 \<Rightarrow> bytes" where
  "u16_to_le_bytes w = le_bytes 2 w"

definition u32_to_le_bytes :: "u32 \<Rightarrow> bytes" where
  "u32_to_le_bytes w = le_bytes 4 w"

definition u64_to_le_bytes :: "u64 \<Rightarrow> bytes" where
  "u64_to_le_bytes w = le_bytes 8 w"

definition u32_to_be_bytes :: "u32 \<Rightarrow> bytes" where
  "u32_to_be_bytes w = rev (le_bytes 4 w)"

definition u64_to_be_bytes :: "u64 \<Rightarrow> bytes" where
  "u64_to_be_bytes w = rev (le_bytes 8 w)"

text \<open>\<open>[u8; N] <= [u8; N]\<close>: lexicographic comparison.\<close>

fun lex_le :: "bytes \<Rightarrow> bytes \<Rightarrow> bool" where
  "lex_le [] ys = True"
| "lex_le (x # xs) [] = False"
| "lex_le (x # xs) (y # ys) = (x < y \<or> (x = y \<and> lex_le xs ys))"

text \<open>\<open>dst[off .. off + src.len()].copy_from_slice(src)\<close>, which panics out of range.\<close>

definition copy_slice :: "nat \<Rightarrow> bytes \<Rightarrow> bytes \<Rightarrow> ('e, bytes) outcome" where
  "copy_slice off src dst =
     (if off + length src \<le> length dst
      then Ok (take off dst @ src @ drop (off + length src) dst) else Panic)"

text \<open>\<open>dst[lo..hi].copy_from_slice(src)\<close>: the two lengths must agree.\<close>

definition copy_range :: "nat \<Rightarrow> nat \<Rightarrow> bytes \<Rightarrow> bytes \<Rightarrow> ('e, bytes) outcome" where
  "copy_range lo hi src dst =
     (if lo \<le> hi \<and> hi \<le> length dst \<and> length src = hi - lo
      then Ok (take lo dst @ src @ drop hi dst) else Panic)"

text \<open>\<open>for chunk in bytes.chunks_mut(4) { chunk.reverse(); }\<close>\<close>

fun rev_words :: "bytes \<Rightarrow> bytes" where
  "rev_words bs = (if bs = [] then [] else rev (take 4 bs) @ rev_words (drop 4 bs))"

declare rev_words.simps [simp del]

lemma length_le_bytes [simp, byte_simps]: "length (le_bytes n w) = n"
  by (induction n arbitrary: w) simp_all

lemma length_to_bytes [simp, byte_simps]:
  "length (u16_to_le_bytes a) = 2" "length (u32_to_le_bytes b) = 4"
  "length (u64_to_le_bytes c) = 8" "length (u32_to_be_bytes b) = 4"
  "length (u64_to_be_bytes c) = 8"
  by (simp_all add: u16_to_le_bytes_def u32_to_le_bytes_def u64_to_le_bytes_def
      u32_to_be_bytes_def u64_to_be_bytes_def)

lemma unat_byte_lt: "unat (b :: byte) < 256"
  using unsigned_less [of b] by simp

lemma unat_lt: "unat (w :: 'a::len word) < 2 ^ LENGTH('a)"
  by (rule unsigned_less)

lemma le_val_less: "le_val bs < 256 ^ length bs"
proof (induction bs)
  case (Cons b bs)
  have "unat b < 256" by (rule unat_byte_lt)
  then have "unat b + 256 * le_val bs < 256 * (le_val bs + 1)" by simp
  also have "\<dots> \<le> 256 * 256 ^ length bs" using Cons.IH by (intro mult_le_mono2) simp
  finally show ?case by simp
qed simp

lemma be_val_less: "be_val bs < 256 ^ length bs"
  using le_val_less [of "rev bs"] by (simp add: be_val_def)

lemma unat_ucast_byte: "unat (ucast (w :: 'a::len word) :: byte) = unat w mod 256"
  by (simp add: unsigned_ucast_eq take_bit_eq_mod)

lemma unat_drop_bit_div: "unat (drop_bit n (w :: 'a::len word)) = unat w div 2 ^ n"
  by (subst unat_drop_bit_eq) (rule drop_bit_eq_div)

lemma le_val_le_bytes: "le_val (le_bytes n w) = unat w mod 256 ^ n"
proof (induction n arbitrary: w)
  case (Suc n)
  have "le_val (le_bytes (Suc n) w) = unat w mod 256 + 256 * ((unat w div 256) mod 256 ^ n)"
    by (simp add: Suc.IH unat_ucast_byte unat_drop_bit_div)
  also have "\<dots> = unat w mod 256 ^ Suc n"
    by (simp add: mod_mult2_eq)
  finally show ?case .
qed simp

lemma le_val_u32 [byte_simps]: "le_val (u32_to_le_bytes w) = unat w"
  using unat_lt [of w] by (simp add: u32_to_le_bytes_def le_val_le_bytes)

lemma le_val_u64 [byte_simps]: "le_val (u64_to_le_bytes w) = unat w"
  using unat_lt [of w] by (simp add: u64_to_le_bytes_def le_val_le_bytes)

lemma be_val_u32 [byte_simps]: "be_val (u32_to_be_bytes w) = unat w"
  using unat_lt [of w] by (simp add: u32_to_be_bytes_def be_val_def le_val_le_bytes)

lemma be_val_u64 [byte_simps]: "be_val (u64_to_be_bytes w) = unat w"
  using unat_lt [of w] by (simp add: u64_to_be_bytes_def be_val_def le_val_le_bytes)

lemma le_val_append: "le_val (xs @ ys) = le_val xs + 256 ^ length xs * le_val ys"
  by (induction xs) (simp_all add: algebra_simps)

lemma be_val_append: "be_val (xs @ ys) = be_val xs * 256 ^ length ys + be_val ys"
  by (simp add: be_val_def le_val_append)

lemma be_val_simps [simp]:
  "be_val [] = 0" "be_val (b # bs) = unat b * 256 ^ length bs + be_val bs"
  by (simp_all add: be_val_def le_val_append)

lemma le_val_zeros [simp]: "le_val (replicate n 0) = 0"
  by (induction n) simp_all

lemma be_val_zeros [simp]: "be_val (replicate n 0) = 0"
  by (simp add: be_val_def)

lemma le_val_inj: "le_val xs = le_val ys \<Longrightarrow> length xs = length ys \<Longrightarrow> xs = ys"
proof (induction xs arbitrary: ys)
  case (Cons x xs)
  then obtain y ys' where ys: "ys = y # ys'" by (cases ys) auto
  have eq: "unat x + 256 * le_val xs = unat y + 256 * le_val ys'" using Cons.prems ys by simp
  then have "(unat x + 256 * le_val xs) mod 256 = (unat y + 256 * le_val ys') mod 256" by simp
  then have "unat x = unat y" using unat_byte_lt [of x] unat_byte_lt [of y] by simp
  with eq have "le_val xs = le_val ys'" by simp
  with Cons.IH Cons.prems ys \<open>unat x = unat y\<close> show ?case by (simp add: word_unat_eq_iff)
qed simp

lemma be_val_inj: "be_val xs = be_val ys \<Longrightarrow> length xs = length ys \<Longrightarrow> xs = ys"
  using le_val_inj [of "rev xs" "rev ys"] by (simp add: be_val_def)

lemma be_val_less_iff:
  assumes "length xs = length ys"
  shows "(be_val (x # xs) < be_val (y # ys)) = (x < y \<or> (x = y \<and> be_val xs < be_val ys))"
proof -
  let ?m = "256 ^ length ys :: nat"
  have b: "be_val xs < ?m" "be_val ys < ?m"
    using be_val_less [of xs] be_val_less [of ys] assms by simp_all
  have *: "a * ?m + c < d * ?m + e" if "a < d" "c < ?m" for a c d e :: nat
  proof -
    have "a * ?m + c < (a + 1) * ?m" using that by simp
    also have "\<dots> \<le> d * ?m" using that by (intro mult_le_mono1) simp
    finally show ?thesis by simp
  qed
  show ?thesis
    using * [of "unat x" "unat y" "be_val xs" "be_val ys"]
      * [of "unat y" "unat x" "be_val ys" "be_val xs"] b assms
    by (cases "unat x" "unat y" rule: linorder_cases) (auto simp: word_less_nat_alt word_unat_eq_iff)
qed

lemma lex_le_be_val:
  "length xs = length ys \<Longrightarrow> lex_le xs ys \<longleftrightarrow> be_val xs \<le> be_val ys"
proof (induction xs ys rule: list_induct2)
  case (Cons x xs y ys)
  have "be_val (x # xs) \<le> be_val (y # ys) \<longleftrightarrow> \<not> be_val (y # ys) < be_val (x # xs)"
    by auto
  also have "\<dots> \<longleftrightarrow> \<not> (y < x \<or> (y = x \<and> be_val ys < be_val xs))"
    using Cons.hyps by (subst be_val_less_iff) simp_all
  also have "\<dots> \<longleftrightarrow> (x < y \<or> (x = y \<and> be_val xs \<le> be_val ys))"
    by (auto simp: not_less not_le)
  finally show ?case using Cons.IH by simp
qed simp

lemma length_rev_words [simp, byte_simps]: "length (rev_words bs) = length bs"
  by (induction bs rule: rev_words.induct) (subst rev_words.simps, simp add: min_def)

lemma rev_words_short: "length bs \<le> 4 \<Longrightarrow> rev_words bs = rev bs"
  by (subst rev_words.simps, simp) (subst rev_words.simps, simp)

lemma rev_words_chunk: "length xs = 4 \<Longrightarrow> rev_words (xs @ ys) = rev xs @ rev_words ys"
  by (subst rev_words.simps) auto

lemma rev_words_involution [simp]: "rev_words (rev_words bs) = bs"
proof (induction bs rule: rev_words.induct)
  case (1 bs)
  show ?case
  proof (cases "length bs \<le> 4")
    case True
    then show ?thesis by (simp add: rev_words_short)
  next
    case False
    then have ne: "bs \<noteq> []" and l: "length (take 4 bs) = 4" by auto
    have "rev_words (rev_words bs) = rev_words (rev (take 4 bs) @ rev_words (drop 4 bs))"
      using ne by (subst (2) rev_words.simps) simp
    also have "\<dots> = take 4 bs @ rev_words (rev_words (drop 4 bs))"
      using l by (subst rev_words_chunk) simp_all
    also have "\<dots> = bs" using 1 ne by simp
    finally show ?thesis .
  qed
qed

lemma copy_slice_ok:
  "copy_slice off src dst = Ok r \<longleftrightarrow>
     off + length src \<le> length dst \<and> r = take off dst @ src @ drop (off + length src) dst"
  by (auto simp: copy_slice_def)

lemma copy_slice_length: "copy_slice off src dst = Ok r \<Longrightarrow> length r = length dst"
  by (auto simp: copy_slice_def split: if_splits)

lemma obind_Ok_iff [simp]: "obind m f = Ok y \<longleftrightarrow> (\<exists>x. m = Ok x \<and> f x = Ok y)"
  by (cases m) auto

lemma obind_Err_iff: "obind m f = Err e \<longleftrightarrow> m = Err e \<or> (\<exists>x. m = Ok x \<and> f x = Err e)"
  by (cases m) auto

lemma obind_Panic_iff: "obind m f = Panic \<longleftrightarrow> m = Panic \<or> (\<exists>x. m = Ok x \<and> f x = Panic)"
  by (cases m) auto

lemma of_opt_Ok_iff [simp]: "of_opt e x = Ok y \<longleftrightarrow> x = Some y"
  by (cases x) (auto simp: of_opt_def)

lemma of_opt_not_Panic [simp]: "of_opt e x \<noteq> Panic"
  by (cases x) (auto simp: of_opt_def)

lemma omapM_Ok_iff: "omapM f xs = Ok ys \<longleftrightarrow> list_all2 (\<lambda>x y. f x = Ok y) xs ys"
  by (induction xs arbitrary: ys) (auto simp: list_all2_Cons1)

lemma omapM_not_Panic: "(\<And>x. x \<in> set xs \<Longrightarrow> f x \<noteq> Panic) \<Longrightarrow> omapM f xs \<noteq> Panic"
  by (induction xs) (auto simp: obind_Panic_iff)

subsection \<open>Standard-library arithmetic\<close>

definition sat_add :: "'a::len word \<Rightarrow> 'a word \<Rightarrow> 'a word" where
  "sat_add a b = (if unat a + unat b < 2 ^ LENGTH('a) then a + b else - 1)"

definition sat_sub :: "'a::len word \<Rightarrow> 'a word \<Rightarrow> 'a word" where
  "sat_sub a b = (if b \<le> a then a - b else 0)"

definition sat_mul :: "'a::len word \<Rightarrow> 'a word \<Rightarrow> 'a word" where
  "sat_mul a b = (if unat a * unat b < 2 ^ LENGTH('a) then a * b else - 1)"

text \<open>\<open>u64::clamp(min, max)\<close> asserts \<open>min <= max\<close>.\<close>

definition clamp_u64 :: "u64 \<Rightarrow> u64 \<Rightarrow> u64 \<Rightarrow> ('e, u64) outcome" where
  "clamp_u64 lo hi x =
     (if lo \<le> hi then Ok (if x < lo then lo else if hi < x then hi else x) else Panic)"

lemma unat_max_word: "unat (- 1 :: 'a::len word) = 2 ^ LENGTH('a) - 1"
  by (simp add: unsigned_minus_1_eq_mask mask_eq_exp_minus_1)

lemma unat_sat_add:
  "unat (sat_add a b) = min (unat a + unat b) (2 ^ LENGTH('a) - 1)" for a b :: "'a::len word"
  by (auto simp: sat_add_def unat_max_word unat_word_ariths min_def)

lemma sat_add_ge: "a \<le> sat_add a b"
  by (simp add: word_le_nat_alt unat_sat_add) (use unat_lt [of a] in linarith)

lemma clamp_u64_bounds: "clamp_u64 lo hi x = Ok y \<Longrightarrow> lo \<le> y \<and> y \<le> hi"
  by (auto simp: clamp_u64_def split: if_splits)

lemma clamp_u64_total: "lo \<le> hi \<Longrightarrow> \<exists>y. clamp_u64 lo hi x = Ok y \<and> lo \<le> y \<and> y \<le> hi"
  by (auto simp: clamp_u64_def)

lemma clamp_u64_id: "lo \<le> x \<Longrightarrow> x \<le> hi \<Longrightarrow> clamp_u64 lo hi x = Ok x"
  by (auto simp: clamp_u64_def)

subsection \<open>Standard-library text\<close>

definition digit_char :: "nat \<Rightarrow> char" where
  "digit_char d = char_of (if d < 10 then 48 + d else 87 + d)"

definition digit_val :: "char \<Rightarrow> nat option" where
  "digit_val c = (let k = of_char c :: nat in
     if 48 \<le> k \<and> k \<le> 57 then Some (k - 48)
     else if 97 \<le> k \<and> k \<le> 102 then Some (k - 87)
     else if 65 \<le> k \<and> k \<le> 70 then Some (k - 55) else None)"

text \<open>\<open>format!("{n}")\<close> of an unsigned integer.\<close>

fun fmt_dec :: "nat \<Rightarrow> string" where
  "fmt_dec n = (if n < 10 then [digit_char n] else fmt_dec (n div 10) @ [digit_char (n mod 10)])"

declare fmt_dec.simps [simp del]

text \<open>\<open>format!("{:0kx}")\<close> of a word of at most \<open>k\<close> hexadecimal digits.\<close>

primrec fmt_hex :: "nat \<Rightarrow> nat \<Rightarrow> string" where
  "fmt_hex 0 n = []"
| "fmt_hex (Suc k) n = fmt_hex k (n div 16) @ [digit_char (n mod 16)]"

text \<open>
  \<open>u32::from_str_radix(s, 16)\<close>: an optional leading \<open>+\<close>, at least one digit, no
  overflow. A lone sign and a leading \<open>-\<close> are invalid digits.
\<close>

fun radix_val :: "nat \<Rightarrow> nat \<Rightarrow> string \<Rightarrow> nat option" where
  "radix_val r acc [] = Some acc"
| "radix_val r acc (c # cs) =
     (case digit_val c of None \<Rightarrow> None
      | Some d \<Rightarrow> if d < r then radix_val r (acc * r + d) cs else None)"

definition from_str_radix :: "nat \<Rightarrow> nat \<Rightarrow> string \<Rightarrow> nat option" where
  "from_str_radix bits r s =
     (let ds = (case s of [] \<Rightarrow> [] | c # cs \<Rightarrow> if c = CHR ''+'' then cs else s)
      in if ds = [] then None
         else case radix_val r 0 ds of None \<Rightarrow> None
              | Some n \<Rightarrow> if n < 2 ^ bits then Some n else None)"

definition u32_from_hex :: "string \<Rightarrow> u32 option" where
  "u32_from_hex s = map_option of_nat (from_str_radix 32 16 s)"

text \<open>
  Rust's validity check for \<open>str\<close>: the well-formed byte sequences of UTF-8.
\<close>

definition cont_byte :: "byte \<Rightarrow> bool" where
  "cont_byte b \<longleftrightarrow> 0x80 \<le> b \<and> b \<le> 0xBF"

definition utf8_width :: "byte \<Rightarrow> nat" where
  "utf8_width a =
     (if a < 0x80 then 1
      else if 0xC2 \<le> a \<and> a \<le> 0xDF then 2
      else if 0xE0 \<le> a \<and> a \<le> 0xEF then 3
      else if 0xF0 \<le> a \<and> a \<le> 0xF4 then 4
      else 0)"

definition utf8_second_ok :: "byte \<Rightarrow> byte \<Rightarrow> bool" where
  "utf8_second_ok a b \<longleftrightarrow>
     (a = 0xE0 \<longrightarrow> 0xA0 \<le> b) \<and> (a = 0xED \<longrightarrow> b \<le> 0x9F)
     \<and> (a = 0xF0 \<longrightarrow> 0x90 \<le> b) \<and> (a = 0xF4 \<longrightarrow> b \<le> 0x8F)"

fun utf8_valid :: "bytes \<Rightarrow> bool" where
  "utf8_valid [] = True"
| "utf8_valid (a # s) =
     (let n = utf8_width a - 1
      in utf8_width a \<noteq> 0 \<and> n \<le> length s \<and> list_all cont_byte (take n s)
         \<and> (0 < n \<longrightarrow> utf8_second_ok a (hd s)) \<and> utf8_valid (drop n s))"

text \<open>The scalar values of a valid UTF-8 string, as \<open>str::chars\<close> yields them.\<close>

fun utf8_scalars :: "bytes \<Rightarrow> nat list" where
  "utf8_scalars [] = []"
| "utf8_scalars (a # s) =
     (let n = utf8_width a - 1;
          lead = (if n = 0 then unat a else unat a mod 2 ^ (6 - n))
      in foldl (\<lambda>acc b. acc * 64 + unat b mod 64) lead (take n s) # utf8_scalars (drop n s))"

definition str_bytes :: "string \<Rightarrow> bytes" where
  "str_bytes s = map of_char s"

text \<open>\<open>char::is_control\<close> (category Cc) and \<open>char::is_whitespace\<close> (property White_Space).\<close>

definition char_is_control :: "nat \<Rightarrow> bool" where
  "char_is_control c \<longleftrightarrow> c < 0x20 \<or> (0x7F \<le> c \<and> c < 0xA0)"

definition char_is_whitespace :: "nat \<Rightarrow> bool" where
  "char_is_whitespace c \<longleftrightarrow> (9 \<le> c \<and> c \<le> 13) \<or> c = 0x20 \<or> c = 0x85 \<or> c = 0xA0 \<or> c = 0x1680
     \<or> (0x2000 \<le> c \<and> c \<le> 0x200A) \<or> c = 0x2028 \<or> c = 0x2029 \<or> c = 0x202F \<or> c = 0x205F \<or> c = 0x3000"

text \<open>\<open>str::trim\<close>: whitespace scalars dropped at both ends.\<close>

fun utf8_chunks :: "bytes \<Rightarrow> bytes list" where
  "utf8_chunks [] = []"
| "utf8_chunks (a # s) =
     (let n = utf8_width a - 1 in (a # take n s) # utf8_chunks (drop n s))"

definition chunk_is_ws :: "bytes \<Rightarrow> bool" where
  "chunk_is_ws c = list_all char_is_whitespace (utf8_scalars c)"

definition str_trim :: "string \<Rightarrow> string" where
  "str_trim s = map (\<lambda>b. char_of (unat b)) (concat (rev (dropWhile chunk_is_ws
     (rev (dropWhile chunk_is_ws (utf8_chunks (str_bytes s)))))))"

definition str_contains :: "string \<Rightarrow> string \<Rightarrow> bool" where
  "str_contains s pat \<longleftrightarrow> list_ex (\<lambda>i. take (length pat) (drop i s) = pat) [0..<Suc (length s)]"

definition strip_prefix :: "string \<Rightarrow> string \<Rightarrow> string option" where
  "strip_prefix p s = (if take (length p) s = p then Some (drop (length p) s) else None)"

definition strip_suffix :: "string \<Rightarrow> string \<Rightarrow> string option" where
  "strip_suffix p s = map_option rev (strip_prefix (rev p) (rev s))"

text \<open>\<open>split_once(c)\<close> at the first occurrence of a character.\<close>

fun split_once :: "char \<Rightarrow> string \<Rightarrow> (string \<times> string) option" where
  "split_once c [] = None"
| "split_once c (x # xs) =
     (if x = c then Some ([], xs) else map_option (\<lambda>(a, b). (x # a, b)) (split_once c xs))"

text \<open>\<open>parse::<u64>()\<close>.\<close>

definition parse_u64 :: "string \<Rightarrow> u64 option" where
  "parse_u64 s = map_option of_nat (from_str_radix 64 10 s)"

lemma digit_val_char: "d < 16 \<Longrightarrow> digit_val (digit_char d) = Some d"
  by (auto simp: digit_val_def digit_char_def Let_def)

lemma length_fmt_hex [simp]: "length (fmt_hex k n) = k"
  by (induction k arbitrary: n) simp_all

lemma radix_val_append:
  "radix_val r a (xs @ ys) = (case radix_val r a xs of None \<Rightarrow> None | Some b \<Rightarrow> radix_val r b ys)"
  by (induction xs arbitrary: a) (auto split: option.splits)

lemma radix_val_fmt_hex: "radix_val 16 a (fmt_hex k n) = Some (a * 16 ^ k + n mod 16 ^ k)"
proof (induction k arbitrary: n)
  case (Suc k)
  have "n mod 16 ^ Suc k = n mod 16 + 16 * (n div 16 mod 16 ^ k)"
    by (simp add: mod_mult2_eq)
  then show ?case
    by (simp add: Suc.IH radix_val_append digit_val_char algebra_simps)
qed simp

lemma digit_char_neq_plus: "d < 16 \<Longrightarrow> digit_char d \<noteq> CHR ''+''"
  using digit_val_char [of d] by (auto simp: digit_val_def)

lemma fmt_hex_no_plus: "CHR ''+'' \<notin> set (fmt_hex k n)"
proof (induction k arbitrary: n)
  case (Suc k)
  have "CHR ''+'' \<noteq> digit_char (n mod 16)"
    by (metis digit_char_neq_plus mod_less_divisor zero_less_numeral)
  with Suc.IH show ?case by simp
qed simp

lemma fmt_hex_inj: "fmt_hex k m = fmt_hex k n \<Longrightarrow> m < 16 ^ k \<Longrightarrow> n < 16 ^ k \<Longrightarrow> m = n"
  by (metis radix_val_fmt_hex [of 0] mult_zero_left add_0 mod_less option.inject)

lemma from_str_radix_fmt_hex:
  assumes "0 < k" and "n < 16 ^ k" and "n < 2 ^ bits"
  shows "from_str_radix bits 16 (fmt_hex k n) = Some n"
proof -
  have ne: "fmt_hex k n \<noteq> []" using assms(1) by (metis length_0_conv length_fmt_hex less_not_refl)
  then obtain c cs where cs: "fmt_hex k n = c # cs" by (cases "fmt_hex k n") auto
  moreover have "c \<noteq> CHR ''+''" using fmt_hex_no_plus [of k n] cs by auto
  ultimately have strip: "(case fmt_hex k n of [] \<Rightarrow> [] | c # cs \<Rightarrow> if c = CHR ''+'' then cs else fmt_hex k n) = fmt_hex k n"
    by simp
  show ?thesis using ne assms radix_val_fmt_hex [of 0 k n]
    by (simp add: from_str_radix_def strip)
qed

lemma u32_from_hex_fmt: "u32_from_hex (fmt_hex 8 (unat w)) = Some w"
proof -
  have "from_str_radix 32 16 (fmt_hex 8 (unat w)) = Some (unat w)"
    by (rule from_str_radix_fmt_hex) (use unat_lt [of w] in auto)
  then show ?thesis by (simp add: u32_from_hex_def)
qed

section \<open>Instants and durations\<close>

text \<open>Nanoseconds since boot; a duration subtracts only when the result is not before boot.\<close>

definition secs :: "nat \<Rightarrow> nat" where
  "secs n = n * 10 ^ 9"

definition checked_sub_instant :: "nat \<Rightarrow> nat \<Rightarrow> nat option" where
  "checked_sub_instant t d = (if d \<le> t then Some (t - d) else None)"

text \<open>Evaluating text: trimming and the bytes of a literal, by rewriting.\<close>

lemmas text_eval = str_trim_def str_bytes_def utf8_width_def chunk_is_ws_def char_is_whitespace_def char_of_def bit_0

section \<open>Invariants of operation sequences\<close>

text \<open>
  The contract of a component whose operations \<open>step a\<close> keep an invariant, and of one whose
  invariant bounds its size. Every sequence of operations then keeps the invariant and the bound.
\<close>

locale preserved =
  fixes inv :: "'s \<Rightarrow> bool" and step :: "'a \<Rightarrow> 's \<Rightarrow> 's"
  assumes step_inv: "inv s \<Longrightarrow> inv (step a s)"
begin

lemma run_inv: "inv s \<Longrightarrow> inv (fold step ops s)"
  by (induction ops arbitrary: s) (simp_all add: step_inv)

end

locale bounded_store = preserved +
  fixes size_of :: "'a \<Rightarrow> nat" and cap :: nat
  assumes inv_bound: "inv s \<Longrightarrow> size_of s \<le> cap"
begin

lemma run_bound: "inv s \<Longrightarrow> size_of (fold step ops s) \<le> cap"
  by (rule inv_bound [OF run_inv])

end

text \<open>
  The steps of tasks that run beside one another: a step that cannot be made gives \<open>None\<close>, and a
  run makes all its steps. What every step of an admitted kind keeps, every run of them keeps.
\<close>

fun run_steps :: "('a \<Rightarrow> 's \<Rightarrow> 's option) \<Rightarrow> 'a list \<Rightarrow> 's \<Rightarrow> 's option" where
  "run_steps step [] s = Some s"
| "run_steps step (a # as) s = (case step a s of None \<Rightarrow> None | Some s1 \<Rightarrow> run_steps step as s1)"

lemma run_steps_append:
  "run_steps step (xs @ ys) s = (case run_steps step xs s of None \<Rightarrow> None | Some s1 \<Rightarrow> run_steps step ys s1)"
  by (induction xs arbitrary: s) (auto split: option.split)

lemma run_steps_Cons_Some:
  assumes "run_steps step (a # as) s = Some s'"
  obtains s1 where "step a s = Some s1" "run_steps step as s1 = Some s'"
  using assms by (auto split: option.splits)

locale kept_by =
  fixes inv :: "'s \<Rightarrow> bool" and admitted :: "'a \<Rightarrow> bool" and step :: "'a \<Rightarrow> 's \<Rightarrow> 's option"
  assumes step_keeps: "inv s \<Longrightarrow> admitted a \<Longrightarrow> step a s = Some s' \<Longrightarrow> inv s'"
begin

lemma run_keeps: "inv s \<Longrightarrow> list_all admitted as \<Longrightarrow> run_steps step as s = Some s' \<Longrightarrow> inv s'"
proof (induction as arbitrary: s)
  case (Cons a as)
  then show ?case by (elim run_steps_Cons_Some) (auto intro: Cons.IH step_keeps)
qed simp

end

text \<open>
  A component that follows a reference machine step by step: related states stay related
  under the same operation, and hence under every sequence of operations.
\<close>

locale simulation =
  fixes related :: "'s \<Rightarrow> 't \<Rightarrow> bool" and step :: "'a \<Rightarrow> 's \<Rightarrow> 's" and abs_step :: "'a \<Rightarrow> 't \<Rightarrow> 't"
  assumes step_related: "related s t \<Longrightarrow> related (step a s) (abs_step a t)"
begin

lemma run_related: "related s t \<Longrightarrow> related (fold step ops s) (fold abs_step ops t)"
  by (induction ops arbitrary: s t) (simp_all add: step_related)

end

end
