(* ===== verification/Errors.thy ===== *)
theory Errors
  imports Prelude
begin

text \<open>
  \<^verbatim>\<open>src/src/error.rs\<close>: the pool's error type, the Stratum error codes and the two
  classifications the sessions use (the wire error tuple and the bounded metric label).
  The JSON values of the wire are the data type of \<^verbatim>\<open>serde_json::Value\<close>, with the
  accessors (\<open>as_str\<close>, \<open>as_array\<close>, \<open>get\<close>, ...) the source calls on it.
\<close>

section \<open>JSON values\<close>

datatype jnumber = PosInt u64 | NegInt int | Float real

datatype json =
    JNull
  | JBool bool
  | JNumber jnumber
  | JString string
  | JArray "json list"
  | JObject "(string \<times> json) list"

fun as_str :: "json \<Rightarrow> string option" where
  "as_str (JString s) = Some s"
| "as_str _ = None"

fun as_array :: "json \<Rightarrow> json list option" where
  "as_array (JArray xs) = Some xs"
| "as_array _ = None"

fun as_object :: "json \<Rightarrow> (string \<times> json) list option" where
  "as_object (JObject m) = Some m"
| "as_object _ = None"

fun as_u64 :: "json \<Rightarrow> u64 option" where
  "as_u64 (JNumber (PosInt n)) = Some n"
| "as_u64 _ = None"

definition nth_opt :: "'a list \<Rightarrow> nat \<Rightarrow> 'a option" where
  "nth_opt xs i = (if i < length xs then Some (xs ! i) else None)"

definition jnat :: "nat \<Rightarrow> json" where
  "jnat n = JNumber (PosInt (of_nat n))"

section \<open>Pool errors\<close>

text \<open>
  The errors of the RPC client crate, as far as the source distinguishes them: a JSON-RPC
  error object returned by the node, or any other failure.
\<close>

datatype rpc_error = JsonRpcError string | OtherRpcError string

datatype pool_error =
    Parse string
  | UnknownMethod string
  | NotSubscribed
  | NotAuthorized
  | InvalidParams string string
  | StaleJob string
  | DuplicateShare
  | LowDifficulty
  | InvalidHeader
  | BadExtranonceSize nat nat
  | Rpc rpc_error
  | TemplateUnavailable
  | SubmitBlockRejected string
  | Banned string
  | RateLimited
  | MessageTooLarge nat
  | Io string
  | ConnectionClosed
  | Other string

type_synonym 'a result = "(pool_error, 'a) outcome"

datatype stratum_err_code =
    UnknownCode
  | JobNotFoundCode
  | DuplicateShareCode
  | LowDifficultyShareCode
  | UnauthorizedCode
  | NotSubscribedCode

fun stratum_err_num :: "stratum_err_code \<Rightarrow> nat" where
  "stratum_err_num UnknownCode = 20"
| "stratum_err_num JobNotFoundCode = 21"
| "stratum_err_num DuplicateShareCode = 22"
| "stratum_err_num LowDifficultyShareCode = 23"
| "stratum_err_num UnauthorizedCode = 24"
| "stratum_err_num NotSubscribedCode = 25"

fun stratum_err_message :: "stratum_err_code \<Rightarrow> string" where
  "stratum_err_message UnknownCode = ''Unknown problem''"
| "stratum_err_message JobNotFoundCode = ''Job not found''"
| "stratum_err_message DuplicateShareCode = ''Duplicate share''"
| "stratum_err_message LowDifficultyShareCode = ''Low difficulty share''"
| "stratum_err_message UnauthorizedCode = ''Unauthorized worker''"
| "stratum_err_message NotSubscribedCode = ''Not subscribed''"

fun submit_failure_label :: "pool_error \<Rightarrow> string" where
  "submit_failure_label (Rpc _) = ''rpc_error''"
| "submit_failure_label (SubmitBlockRejected _) = ''rejected''"
| "submit_failure_label TemplateUnavailable = ''template_unavailable''"
| "submit_failure_label (Io _) = ''io''"
| "submit_failure_label _ = ''other''"

definition bad_extranonce_text :: "nat \<Rightarrow> nat \<Rightarrow> string" where
  "bad_extranonce_text got expected =
     ''Wrong extranonce2 size: got '' @ fmt_dec got @ '' bytes, expected '' @ fmt_dec expected"

fun err_code_of :: "pool_error \<Rightarrow> stratum_err_code" where
  "err_code_of (StaleJob _) = JobNotFoundCode"
| "err_code_of DuplicateShare = DuplicateShareCode"
| "err_code_of LowDifficulty = LowDifficultyShareCode"
| "err_code_of NotAuthorized = UnauthorizedCode"
| "err_code_of NotSubscribed = NotSubscribedCode"
| "err_code_of _ = UnknownCode"

fun to_stratum_error :: "pool_error \<Rightarrow> json" where
  "to_stratum_error (BadExtranonceSize got expected) =
     JArray [jnat (stratum_err_num UnknownCode), JString (bad_extranonce_text got expected), JNull]"
| "to_stratum_error e =
     (let code = err_code_of e
      in JArray [jnat (stratum_err_num code), JString (stratum_err_message code), JNull])"

lemma stratum_err_num_range: "20 \<le> stratum_err_num c \<and> stratum_err_num c \<le> 25"
  by (cases c) simp_all

lemma stratum_err_num_inj: "stratum_err_num c = stratum_err_num d \<Longrightarrow> c = d"
  by (cases c; cases d) simp_all

lemma to_stratum_error_shape:
  "\<exists>text. to_stratum_error e = JArray [jnat (stratum_err_num (err_code_of e)), JString text, JNull]"
  by (cases e) (simp_all add: Let_def)

lemma submit_failure_label_bounded:
  "submit_failure_label e \<in> {''rpc_error'', ''rejected'', ''template_unavailable'', ''io'', ''other''}"
  by (cases e) simp_all

end
