(* ===== verification/Crates.thy ===== *)
theory Crates
  imports Errors
begin

text \<open>
  The third-party code the pool calls, as parameters. A value of \<open>crates\<close> stands for
  the linked crates: \<^verbatim>\<open>sha2\<close> (SHA-256), \<^verbatim>\<open>hex\<close> (encode and decode) and \<^verbatim>\<open>bitcoin\<close>
  (consensus serialisation of a transaction, parsing of an address into its script, and
  whether a parsed address belongs to a network).
  What the pool relies on is stated as predicates over it (\<open>sha256_ok\<close>, \<open>hex_ok\<close>,
  \<open>serialize_ok\<close>): the documented output length of SHA-256, that decoding inverts
  encoding, and the Bitcoin wire format of a transaction without witness data.
  \<open>sample_crates\<close> is one concrete instance, used to show that the hypotheses can hold.
\<close>

section \<open>Transactions and the crate interface\<close>

record tx_in =
  ti_prev_hash :: bytes
  ti_prev_index :: u32
  ti_script_sig :: bytes
  ti_sequence :: u32
  ti_witness :: "bytes list"

record tx_out =
  to_value :: u64
  to_script_pubkey :: bytes

record transaction =
  tx_version :: u32
  tx_inputs :: "tx_in list"
  tx_outputs :: "tx_out list"
  tx_lock_time :: u32

datatype network = Bitcoin | Testnet | Testnet4 | Signet | Regtest

record crates =
  sha256 :: "bytes \<Rightarrow> bytes"
  hex_encode :: "bytes \<Rightarrow> string"
  hex_decode :: "string \<Rightarrow> bytes option"
  serialize_tx :: "transaction \<Rightarrow> bytes"
  address_script :: "string \<Rightarrow> bytes option"
  require_network :: "string \<Rightarrow> network \<Rightarrow> bool"

text \<open>The variable-length integer of the Bitcoin wire format.\<close>

definition compact_size :: "nat \<Rightarrow> bytes" where
  "compact_size n =
     (if n < 0xfd then [of_nat n]
      else if n \<le> 0xffff then 0xfd # le_bytes 2 (of_nat n :: u64)
      else if n \<le> 0xffffffff then 0xfe # le_bytes 4 (of_nat n :: u64)
      else 0xff # le_bytes 8 (of_nat n :: u64))"

definition var_bytes :: "bytes \<Rightarrow> bytes" where
  "var_bytes bs = compact_size (length bs) @ bs"

definition tx_in_bytes :: "tx_in \<Rightarrow> bytes" where
  "tx_in_bytes i = ti_prev_hash i @ u32_to_le_bytes (ti_prev_index i)
     @ var_bytes (ti_script_sig i) @ u32_to_le_bytes (ti_sequence i)"

definition tx_out_bytes :: "tx_out \<Rightarrow> bytes" where
  "tx_out_bytes out = u64_to_le_bytes (to_value out) @ var_bytes (to_script_pubkey out)"

definition legacy_tx_bytes :: "transaction \<Rightarrow> bytes" where
  "legacy_tx_bytes tx = u32_to_le_bytes (tx_version tx)
     @ compact_size (length (tx_inputs tx)) @ concat (map tx_in_bytes (tx_inputs tx))
     @ compact_size (length (tx_outputs tx)) @ concat (map tx_out_bytes (tx_outputs tx))
     @ u32_to_le_bytes (tx_lock_time tx)"

definition sha256_ok :: "crates \<Rightarrow> bool" where
  "sha256_ok C \<longleftrightarrow> (\<forall>x. length (sha256 C x) = 32)"

definition hex_ok :: "crates \<Rightarrow> bool" where
  "hex_ok C \<longleftrightarrow> (\<forall>b. hex_decode C (hex_encode C b) = Some b)"

definition serialize_ok :: "crates \<Rightarrow> bool" where
  "serialize_ok C \<longleftrightarrow>
     (\<forall>tx. tx_inputs tx \<noteq> [] \<longrightarrow> (\<forall>i \<in> set (tx_inputs tx). ti_witness i = [])
        \<longrightarrow> serialize_tx C tx = legacy_tx_bytes tx)"

section \<open>A concrete instance\<close>

definition sample_hex_encode :: "bytes \<Rightarrow> string" where
  "sample_hex_encode bs = concat (map (\<lambda>b. fmt_hex 2 (unat b)) bs)"

fun sample_hex_decode :: "string \<Rightarrow> bytes option" where
  "sample_hex_decode [] = Some []"
| "sample_hex_decode [c] = None"
| "sample_hex_decode (c # d # cs) =
     (case (digit_val c, digit_val d, sample_hex_decode cs) of
        (Some x, Some y, Some bs) \<Rightarrow> Some (of_nat (16 * x + y) # bs)
      | _ \<Rightarrow> None)"

text \<open>A 32-byte digest of a byte string: its length and its first thirty-one bytes.\<close>

definition sample_digest :: "bytes \<Rightarrow> bytes" where
  "sample_digest bs = of_nat (length bs) # take 31 (bs @ replicate 31 0)"

definition sample_crates :: crates where
  "sample_crates = \<lparr>sha256 = sample_digest, hex_encode = sample_hex_encode,
     hex_decode = sample_hex_decode, serialize_tx = legacy_tx_bytes,
     address_script = (\<lambda>s. if s = [] then None else Some ([0x00, 0x14] @ replicate 20 0x11)),
     require_network = (\<lambda>s n. n = Bitcoin)\<rparr>"

lemma sample_hex_decode_encode: "sample_hex_decode (sample_hex_encode bs) = Some bs"
proof (induction bs)
  case (Cons b bs)
  have "digit_val (digit_char (unat b div 16)) = Some (unat b div 16)"
    using unat_byte_lt [of b] by (intro digit_val_char) simp
  moreover have "digit_val (digit_char (unat b mod 16)) = Some (unat b mod 16)"
    by (intro digit_val_char) simp
  moreover have "fmt_hex 2 (unat b) = [digit_char (unat b div 16), digit_char (unat b mod 16)]"
    using unat_byte_lt [of b] by (simp add: numeral_2_eq_2)
  ultimately show ?case
    using Cons.IH by (simp add: sample_hex_encode_def del: of_nat_add of_nat_mult)
qed (simp add: sample_hex_encode_def)

lemma length_sample_digest [simp]: "length (sample_digest bs) = 32"
  by (simp add: sample_digest_def)

lemma sample_crates_ok [simp]:
  "sha256_ok sample_crates" "hex_ok sample_crates" "serialize_ok sample_crates"
  by (simp_all add: sha256_ok_def hex_ok_def serialize_ok_def sample_crates_def
      sample_hex_decode_encode)

lemma length_compact_size_small: "n < 0xfd \<Longrightarrow> compact_size n = [of_nat n]"
  by (simp add: compact_size_def)

end
