(* ===== verification/Targets.thy ===== *)
theory Targets
  imports Errors
begin

text \<open>
  Proof-of-work targets and difficulties: the numeric part of
  \<^verbatim>\<open>src/src/bitcoin/template.rs\<close> (\<open>bits_to_target\<close>, \<open>compact_to_target\<close>,
  \<open>difficulty_to_target\<close>, \<open>div_be_u256_by_u64\<close>, \<open>hash_to_difficulty\<close>) and the target
  comparison \<open>meets_target\<close> of \<^verbatim>\<open>src/src/mining/validator.rs\<close>. Words keep their Rust
  widths (\<open>u32\<close> bits, \<open>u64\<close> difficulties, a \<open>u128\<close> accumulator); the lemmas relate
  every result to the natural number its bytes denote.
\<close>

section \<open>Definitions\<close>

definition DIFF1_TARGET :: bytes where
  "DIFF1_TARGET = [0, 0, 0, 0, 0xff, 0xff] @ replicate 26 0"

text \<open>
  The loop of \<open>div_be_u256_by_u64\<close>: one output byte per input byte, the remainder
  carried in a \<open>u128\<close>. The only caller passes a divisor of at least two, so Rust's
  division-by-zero panic is out of reach.
\<close>

primrec div_be_loop :: "u128 \<Rightarrow> u128 \<Rightarrow> bytes \<Rightarrow> bytes" where
  "div_be_loop divisor rem [] = []"
| "div_be_loop divisor rem (byte # rest) =
     (let accum = push_bit 8 rem OR ucast byte
      in ucast (accum div divisor) # div_be_loop divisor (accum mod divisor) rest)"

definition div_be_u256_by_u64 :: "bytes \<Rightarrow> u64 \<Rightarrow> bytes" where
  "div_be_u256_by_u64 value divisor = div_be_loop (ucast divisor) 0 value"

definition difficulty_to_target :: "u64 \<Rightarrow> bytes" where
  "difficulty_to_target difficulty =
     (if difficulty \<le> 1 then DIFF1_TARGET else div_be_u256_by_u64 DIFF1_TARGET difficulty)"

definition compact_to_target :: "u32 \<Rightarrow> bytes result" where
  "compact_to_target bits =
     (let exponent = unat (drop_bit 24 bits AND 0xff);
          mantissa = bits AND 0x007fffff
      in if mantissa = 0 then Ok (replicate 32 0)
         else if exponent \<le> 3 then
           Ok (replicate 28 0 @ u32_to_be_bytes (drop_bit (8 * (3 - exponent)) mantissa))
         else
           let shift = exponent - 3
           in if shift > 29 then Err (Other (''bits overflow target width: '' @ fmt_hex 8 (unat bits)))
              else
                let mantissa_bytes =
                      [ucast (drop_bit 16 mantissa AND 0xff), ucast (drop_bit 8 mantissa AND 0xff),
                       ucast (mantissa AND 0xff)];
                    offset = 32 - 3 - shift
                in copy_slice offset mantissa_bytes (replicate 32 0))"

definition bits_to_target :: "string \<Rightarrow> bytes result" where
  "bits_to_target bits_hex =
     obind (of_opt (Other (''Invalid bits: '' @ bits_hex)) (u32_from_hex bits_hex)) compact_to_target"

text \<open>The index of the first non-zero byte, 31 when there is none.\<close>

fun first_nonzero :: "bytes \<Rightarrow> nat option" where
  "first_nonzero [] = None"
| "first_nonzero (b # bs) = (if b \<noteq> 0 then Some 0 else map_option Suc (first_nonzero bs))"

primrec sig_loop :: "u64 \<Rightarrow> bytes \<Rightarrow> u64" where
  "sig_loop acc [] = acc"
| "sig_loop acc (b # bs) = sig_loop (push_bit 8 acc OR ucast b) bs"

definition hash_sig :: "bytes \<Rightarrow> nat \<Rightarrow> u64" where
  "hash_sig hash_be nz =
     (let n = min 8 (32 - nz)
      in push_bit ((8 - n) * 8) (sig_loop 0 (take n (drop nz hash_be))))"

definition DIFF1_SIG :: u64 where
  "DIFF1_SIG = 0xFFFF000000000000"

definition hash_to_difficulty :: "bytes \<Rightarrow> u64" where
  "hash_to_difficulty hash_le =
     (let hash_be = rev hash_le;
          nz = (case first_nonzero hash_be of None \<Rightarrow> 31 | Some i \<Rightarrow> i);
          sig = hash_sig hash_be nz
      in if sig = 0 then - 1
         else
           let ratio = DIFF1_SIG div sig;
               exp = (int nz - 4) * 8
           in if exp \<ge> 64 then - 1
              else if exp \<ge> 0 then
                (if ratio > drop_bit (nat exp) (- 1) then - 1 else push_bit (nat exp) ratio)
              else if - exp \<ge> 64 then 0
              else drop_bit (nat (- exp)) ratio)"

definition meets_target :: "bytes \<Rightarrow> bytes \<Rightarrow> bool" where
  "meets_target hash target = lex_le (rev hash) target"

section \<open>Targets as numbers\<close>

definition diff1_value :: nat where
  "diff1_value = 0xFFFF * 2 ^ 208"

lemma length_DIFF1_TARGET [simp]: "length DIFF1_TARGET = 32"
  by (simp add: DIFF1_TARGET_def)

lemma be_val_DIFF1_TARGET: "be_val DIFF1_TARGET = diff1_value"
  by (simp add: DIFF1_TARGET_def diff1_value_def be_val_append)

lemma length_div_be_loop [simp]: "length (div_be_loop d r bs) = length bs"
  by (induction bs arbitrary: r) (simp_all add: Let_def)

lemma byte_fits: "8 < n \<Longrightarrow> unat (b :: byte) < 2 ^ n"
proof -
  assume "8 < n"
  then have "(2::nat) ^ 8 \<le> 2 ^ n" by (intro power_increasing) auto
  then show ?thesis by (rule less_le_trans [rotated]) (simp add: unat_byte_lt)
qed

lemma unat_shift_or_byte:
  fixes r :: "'a::len word" and b :: byte
  assumes "256 * (unat r + 1) \<le> 2 ^ LENGTH('a)" and "8 < LENGTH('a)"
  shows "unat (push_bit 8 r OR ucast b) = 256 * unat r + unat b"
proof -
  have u: "unat (ucast b :: 'a word) = unat b"
    using byte_fits [OF assms(2), of b]
    by (simp add: unsigned_ucast_eq unsigned_take_bit_eq take_bit_nat_eq_self)
  have p: "unat (push_bit 8 r) = 256 * unat r"
  proof -
    have "256 * unat r < 2 ^ LENGTH('a)" using assms(1) by simp
    then show ?thesis
      unfolding unsigned_push_bit_eq by (simp add: push_bit_eq_mult take_bit_nat_eq_self mult.commute)
  qed
  have "push_bit 8 r AND ucast b = 0"
    by (rule bit_eqI) (auto simp: bit_simps dest: bit_imp_le_length)
  then have "push_bit 8 r OR ucast b = push_bit 8 r + ucast b"
    by (simp add: disjunctive_add_eq_or)
  moreover have "256 * unat r + unat b < 2 ^ LENGTH('a)"
  proof -
    have "256 * x + y < z" if "256 * (x + 1) \<le> z" "y < 256" for x y z :: nat
      using that by simp
    from this [OF assms(1) unat_byte_lt] show ?thesis .
  qed
  ultimately show ?thesis using p u
    by (simp add: unat_word_ariths)
qed

lemma be_val_div_be_loop:
  fixes d r :: u128
  assumes "unat r < unat d" and "unat d < 2 ^ 64"
  shows "be_val (div_be_loop d r bs) = (unat r * 256 ^ length bs + be_val bs) div unat d"
  using assms(1)
proof (induction bs arbitrary: r)
  case Nil
  then show ?case by simp
next
  case (Cons b bs)
  define a :: u128 where "a = push_bit 8 r OR ucast b"
  have ua: "unat a = 256 * unat r + unat b"
    unfolding a_def using Cons.prems assms(2) by (intro unat_shift_or_byte) simp_all
  have "256 * unat r + unat b < 256 * unat d"
    using Cons.prems unat_byte_lt [of b] by linarith
  then have q: "unat a div unat d < 256"
    using ua by (simp add: less_mult_imp_div_less mult.commute)
  have byte: "unat (ucast (a div d) :: byte) = unat a div unat d"
    using q by (simp add: unat_ucast_byte unat_div)
  have rem: "unat (a mod d) = unat a mod unat d" by (simp add: unat_mod)
  have "unat a mod unat d < unat d" using Cons.prems by simp
  then have IH: "be_val (div_be_loop d (a mod d) bs)
      = (unat a mod unat d * 256 ^ length bs + be_val bs) div unat d"
    using Cons.IH [of "a mod d"] rem by simp
  let ?m = "256 ^ length bs :: nat"
  have "be_val (div_be_loop d r (b # bs))
      = (unat a div unat d) * ?m + (unat a mod unat d * ?m + be_val bs) div unat d"
    by (simp add: Let_def byte IH flip: a_def)
  also have "\<dots> = (unat a div unat d * ?m * unat d + (unat a mod unat d * ?m + be_val bs)) div unat d"
    using Cons.prems by simp
  also have "unat a div unat d * ?m * unat d + (unat a mod unat d * ?m + be_val bs)
      = (unat a div unat d * unat d + unat a mod unat d) * ?m + be_val bs"
    by (simp only: algebra_simps)
  also have "\<dots> = unat a * ?m + be_val bs" by (simp only: div_mult_mod_eq)
  finally show ?case by (simp add: ua algebra_simps)
qed

lemma difficulty_to_target_value:
  "be_val (difficulty_to_target d) = diff1_value div max 1 (unat d)"
proof (cases "d \<le> 1")
  case True
  then have "unat d \<le> 1" by (simp add: word_le_nat_alt)
  with True show ?thesis by (simp add: difficulty_to_target_def be_val_DIFF1_TARGET max_def)
next
  case False
  then have d1: "1 < unat d" by (simp add: word_le_nat_alt)
  have u: "unat (ucast d :: u128) = unat d"
    using unat_lt [of d] by (simp add: unsigned_ucast_eq unsigned_take_bit_eq take_bit_nat_eq_self)
  have "be_val (div_be_loop (ucast d) 0 DIFF1_TARGET) = be_val DIFF1_TARGET div unat d"
    using d1 unat_lt [of d] be_val_div_be_loop [of 0 "ucast d" DIFF1_TARGET] by (simp add: u)
  with False d1 show ?thesis
    by (simp add: difficulty_to_target_def div_be_u256_by_u64_def be_val_DIFF1_TARGET)
qed

lemma length_difficulty_to_target [simp]: "length (difficulty_to_target d) = 32"
  by (simp add: difficulty_to_target_def div_be_u256_by_u64_def)

lemma meets_target_value:
  "length h = 32 \<Longrightarrow> length t = 32 \<Longrightarrow> meets_target h t \<longleftrightarrow> le_val h \<le> be_val t"
  by (simp add: meets_target_def lex_le_be_val) (simp add: be_val_def)

lemma meets_difficulty_iff:
  assumes "length h = 32" and "1 \<le> unat d"
  shows "meets_target h (difficulty_to_target d) \<longleftrightarrow> le_val h * unat d \<le> diff1_value"
  using assms
  by (simp add: meets_target_value difficulty_to_target_value max_def less_eq_div_iff_mult_less_eq)

lemma unat_and_ff: "unat ((w :: 'a::len word) AND 0xff) = unat w mod 256"
proof -
  have "w AND 0xff = take_bit 8 w" by (simp add: take_bit_eq_mask mask_eq_exp_minus_1)
  then show ?thesis by (simp only:) (subst unsigned_take_bit_eq, simp add: take_bit_eq_mod)
qed

lemma unat_and_mant: "unat ((bits :: u32) AND 0x007fffff) = unat bits mod 2 ^ 23"
proof -
  have "bits AND 0x007fffff = take_bit 23 bits" by (simp add: take_bit_eq_mask mask_eq_exp_minus_1)
  then show ?thesis by (simp only:) (subst unsigned_take_bit_eq, simp add: take_bit_eq_mod)
qed

definition compact_exponent :: "u32 \<Rightarrow> nat" where
  "compact_exponent bits = unat bits div 2 ^ 24"

definition compact_mantissa :: "u32 \<Rightarrow> nat" where
  "compact_mantissa bits = unat bits mod 2 ^ 23"

definition compact_value :: "u32 \<Rightarrow> nat" where
  "compact_value bits =
     (let e = compact_exponent bits; m = compact_mantissa bits
      in if e \<le> 3 then m div 256 ^ (3 - e) else m * 256 ^ (e - 3))"

lemma compact_exponent_eq: "unat (drop_bit 24 bits AND 0xff) = compact_exponent bits"
  using unat_lt [of bits] by (simp add: unat_and_ff unat_drop_bit_div compact_exponent_def div_less_iff_less_mult)

lemma mantissa_bytes_value:
  fixes m :: u32
  assumes "unat m < 2 ^ 23"
  shows "be_val [ucast (drop_bit 16 m AND 0xff), ucast (drop_bit 8 m AND 0xff), ucast (m AND 0xff)]
     = unat m"
proof -
  have "unat m div 65536 < 256" using assms by (simp add: div_less_iff_less_mult)
  moreover have "n div 65536 * 65536 + ((n div 256 mod 256) * 256 + n mod 256) = n" for n :: nat
  proof -
    have "n div 65536 = n div 256 div 256" by (simp add: div_mult2_eq flip: )
    moreover have "n div 256 = n div 256 div 256 * 256 + n div 256 mod 256"
      by (rule div_mult_mod_eq [symmetric])
    moreover have "n = n div 256 * 256 + n mod 256" by (rule div_mult_mod_eq [symmetric])
    ultimately show ?thesis by linarith
  qed
  ultimately show ?thesis
    by (simp add: unat_ucast_byte unat_and_ff unat_drop_bit_div)
qed

lemma compact_to_target_value:
  assumes "compact_mantissa bits = 0 \<or> compact_exponent bits \<le> 32"
  shows "\<exists>t. compact_to_target bits = Ok t \<and> length t = 32 \<and> be_val t = compact_value bits"
proof -
  define m where "m = bits AND 0x007fffff"
  have m: "unat m = compact_mantissa bits" by (simp add: m_def compact_mantissa_def unat_and_mant)
  have m23: "unat m < 2 ^ 23" by (simp add: m compact_mantissa_def)
  let ?e = "compact_exponent bits"
  consider (zero) "m = 0" | (small) "m \<noteq> 0" "?e \<le> 3" | (big) "m \<noteq> 0" "3 < ?e" "?e \<le> 32"
    using assms m by (cases "m = 0"; cases "?e \<le> 3") (auto simp: unsigned_eq_0_iff)
  then show ?thesis
  proof cases
    case zero
    then have "compact_mantissa bits = 0" using m by simp
    with zero show ?thesis
      by (simp add: compact_to_target_def Let_def compact_value_def flip: m_def)
  next
    case small
    then show ?thesis using m
      by (simp add: compact_to_target_def Let_def compact_value_def compact_exponent_eq be_val_append
          be_val_u32 unat_drop_bit_div power_mult flip: m_def)
  next
    case big
    define mb :: bytes where
      "mb = [ucast (drop_bit 16 m AND 0xff), ucast (drop_bit 8 m AND 0xff), ucast (m AND 0xff)]"
    have mb: "length mb = 3" "be_val mb = unat m"
      using mantissa_bytes_value [OF m23] unfolding mb_def by simp_all
    have sh: "\<not> 29 < ?e - 3" using big by linarith
    have "compact_to_target bits = copy_slice (32 - 3 - (?e - 3)) mb (replicate 32 0)"
      using big sh by (simp add: compact_to_target_def Let_def compact_exponent_eq mb_def flip: m_def)
    also have "\<dots> = Ok (replicate (32 - ?e) 0 @ mb @ replicate (?e - 3) 0)"
      using big mb by (simp add: copy_slice_def)
    finally show ?thesis
      using big mb m by (simp add: be_val_append compact_value_def Let_def)
  qed
qed

lemma compact_to_target_error:
  assumes "compact_mantissa bits \<noteq> 0" and "32 < compact_exponent bits"
  shows "\<exists>msg. compact_to_target bits = Err (Other msg)"
  using assms
  by (auto simp: compact_to_target_def Let_def compact_exponent_eq compact_mantissa_def unat_and_mant
      word_unat_eq_iff)

lemma first_nonzero_None: "first_nonzero bs = None \<longleftrightarrow> set bs \<subseteq> {0}"
  by (induction bs) auto

lemma first_nonzero_Some:
  "first_nonzero bs = Some i \<Longrightarrow>
     i < length bs \<and> be_val bs = be_val (drop i bs) \<and> (\<exists>b r. drop i bs = b # r \<and> b \<noteq> 0)"
  by (induction bs arbitrary: i) (auto split: if_splits)

lemma sig_loop_value:
  "(unat acc + 1) * 256 ^ length bs \<le> 2 ^ 64 \<Longrightarrow>
     unat (sig_loop acc bs) = unat acc * 256 ^ length bs + be_val bs"
proof (induction bs arbitrary: acc)
  case (Cons b bs)
  let ?m = "256 ^ length bs :: nat"
  have pre: "(unat acc + 1) * 256 * ?m \<le> 2 ^ 64" using Cons.prems by (simp add: algebra_simps)
  moreover have "(unat acc + 1) * 256 * 1 \<le> (unat acc + 1) * 256 * ?m"
    by (intro mult_le_mono2) simp
  ultimately have "(unat acc + 1) * 256 * 1 \<le> 2 ^ 64" by (rule order_trans [rotated])
  then have "256 * (unat acc + 1) \<le> 2 ^ LENGTH(64)" by simp
  then have u: "unat (push_bit 8 acc OR ucast b) = 256 * unat acc + unat b"
    by (rule unat_shift_or_byte) simp
  have "(256 * unat acc + unat b + 1) * ?m \<le> (unat acc + 1) * 256 * ?m"
    using unat_byte_lt [of b] by (intro mult_le_mono1) simp
  then have "(unat (push_bit 8 acc OR ucast b) + 1) * ?m \<le> 2 ^ 64" using pre u by simp
  from Cons.IH [OF this] show ?case using u by (simp add: algebra_simps)
qed simp

lemma hash_sig_value:
  assumes "length hb = 32" and "nz < 32"
  shows "unat (hash_sig hb nz) = be_val (take 8 (drop nz hb)) * 256 ^ (8 - min 8 (32 - nz))"
proof -
  let ?n = "min 8 (32 - nz)"
  have t: "take ?n (drop nz hb) = take 8 (drop nz hb)" using assms by (simp add: min_def)
  have l: "length (take 8 (drop nz hb)) = ?n" using assms by simp
  have v: "unat (sig_loop 0 (take 8 (drop nz hb))) = be_val (take 8 (drop nz hb))"
  proof (subst sig_loop_value)
    have "(256::nat) ^ ?n \<le> 256 ^ 8" by (intro power_increasing) simp_all
    then show "(unat (0::u64) + 1) * 256 ^ length (take 8 (drop nz hb)) \<le> 2 ^ 64" using l by simp
  qed simp
  have "be_val (take 8 (drop nz hb)) < 256 ^ ?n" using be_val_less [of "take 8 (drop nz hb)"] l by simp
  then have "be_val (take 8 (drop nz hb)) * 256 ^ (8 - ?n) < 256 ^ ?n * 256 ^ (8 - ?n)"
    by (rule mult_strict_right_mono) simp
  also have "\<dots> = 2 ^ 64" by (simp flip: power_add)
  finally have b: "be_val (take 8 (drop nz hb)) * 256 ^ (8 - ?n) < 2 ^ 64" .
  have e: "(256::nat) ^ k = 2 ^ (8 * k)" for k
    by (simp add: power_mult)
  show ?thesis
    unfolding hash_sig_def Let_def t unsigned_push_bit_eq
    using b v by (simp add: push_bit_eq_mult take_bit_nat_eq_self e mult.commute)
qed

lemma push_bit_exact:
  fixes r :: u64
  assumes "\<not> r > drop_bit e (- 1)" and "e < 64"
  shows "unat (push_bit e r) = unat r * 2 ^ e"
proof -
  have "unat r \<le> (2 ^ 64 - 1) div 2 ^ e"
    using assms(1) unfolding word_less_nat_alt unat_drop_bit_div unat_max_word not_less by simp
  then have "unat r * 2 ^ e \<le> (2 ^ 64 - 1) div 2 ^ e * 2 ^ e" by (rule mult_le_mono1)
  also have "\<dots> \<le> 2 ^ 64 - 1" by (rule div_times_less_eq_dividend)
  finally have "unat r * 2 ^ e < 2 ^ 64" by simp
  then show ?thesis
    unfolding unsigned_push_bit_eq by (simp add: push_bit_eq_mult take_bit_nat_eq_self)
qed

lemma hash_sig_ge:
  assumes "length hb = 32" and "first_nonzero hb = Some nz" and "nz \<le> 24"
  shows "2 ^ 56 \<le> unat (hash_sig hb nz)"
proof -
  from first_nonzero_Some [OF assms(2)] obtain b r where
    nz: "nz < 32" and d: "drop nz hb = b # r" and b: "b \<noteq> 0" using assms(1) by auto
  have lr: "length r = 31 - nz"
    using arg_cong [OF d, of length] assms(1) by simp
  have "1 \<le> unat b" using b by (simp add: Suc_leI unat_gt_0)
  moreover have "take 8 (drop nz hb) = b # take 7 r" by (simp add: d)
  moreover have "length (take 7 r) = 7" using lr assms(3) by simp
  ultimately have "256 ^ 7 \<le> be_val (take 8 (drop nz hb))" by simp
  with assms nz show ?thesis by (simp add: hash_sig_value)
qed

lemma hash_to_difficulty_cases:
  assumes "length h = 32" and "hash_to_difficulty h \<noteq> - 1" and "hash_to_difficulty h \<noteq> 0"
  shows "\<exists>nz. first_nonzero (rev h) = Some nz \<and> 4 \<le> nz \<and> nz < 12
     \<and> unat (hash_to_difficulty h)
         = unat DIFF1_SIG div unat (hash_sig (rev h) nz) * 2 ^ (8 * (nz - 4))"
proof (cases "first_nonzero (rev h)")
  case None
  then have z: "set (rev h) \<subseteq> {0}" by (simp add: first_nonzero_None)
  then have "take 8 (drop 31 (rev h)) = replicate (length (take 8 (drop 31 (rev h)))) 0"
    by (intro replicate_eqI) (fastforce dest: in_set_takeD in_set_dropD)+
  then have "be_val (take 8 (drop 31 (rev h))) = 0" by (metis be_val_zeros)
  then have "hash_sig (rev h) 31 = 0"
    using hash_sig_value [of "rev h" 31] assms(1) by (simp add: unsigned_eq_0_iff)
  with None assms(2) show ?thesis by (simp add: hash_to_difficulty_def)
next
  case (Some nz)
  let ?s = "hash_sig (rev h) nz" and ?r = "DIFF1_SIG div hash_sig (rev h) nz"
  let ?e = "(int nz - 4) * 8"
  have "?s \<noteq> 0" using assms(2) Some by (auto simp: hash_to_difficulty_def Let_def)
  then have eq: "hash_to_difficulty h = (if ?e \<ge> 64 then - 1
      else if ?e \<ge> 0 then (if ?r > drop_bit (nat ?e) (- 1) then - 1 else push_bit (nat ?e) ?r)
      else if - ?e \<ge> 64 then 0 else drop_bit (nat (- ?e)) ?r)"
    using Some by (simp add: hash_to_difficulty_def Let_def)
  have hi: "nz < 12" using eq assms(2) by (auto split: if_splits)
  have lo: "4 \<le> nz"
  proof (rule ccontr)
    assume c: "\<not> 4 \<le> nz"
    have "unat ?r = unat DIFF1_SIG div unat ?s" by (simp add: unat_div)
    moreover have "2 ^ 56 \<le> unat ?s" using assms(1) Some hi by (intro hash_sig_ge) simp_all
    ultimately have "unat ?r < 256"
      by (simp add: DIFF1_SIG_def less_mult_imp_div_less)
    moreover have "(256::nat) \<le> 2 ^ nat (- ?e)"
      using power_increasing [of 8 "nat (- ?e)" "2::nat"] c by simp
    ultimately have "unat (drop_bit (nat (- ?e)) ?r) = 0"
      by (simp add: unat_drop_bit_div)
    with eq c assms(3) show False by (auto simp: unsigned_eq_0_iff split: if_splits)
  qed
  have ne: "nat ?e = 8 * (nz - 4)" using lo by (simp add: nat_eq_iff of_nat_diff)
  have "\<not> ?r > drop_bit (nat ?e) (- 1)" "hash_to_difficulty h = push_bit (nat ?e) ?r"
    using eq assms(2) lo hi by (auto split: if_splits)
  then have "unat (hash_to_difficulty h) = unat ?r * 2 ^ nat ?e"
    using hi lo by (simp add: push_bit_exact)
  with Some lo hi ne show ?thesis by (simp add: unat_div)
qed

lemma diff1_split:
  assumes "4 \<le> nz" and "nz < 12"
  shows "diff1_value = unat DIFF1_SIG * (2 ^ (8 * (nz - 4)) * 256 ^ (24 - nz))"
proof -
  have "(256::nat) ^ (24 - nz) = 2 ^ (8 * (24 - nz))" by (simp add: power_mult)
  then have "2 ^ (8 * (nz - 4)) * (256::nat) ^ (24 - nz) = 2 ^ (8 * (nz - 4) + 8 * (24 - nz))"
    by (simp add: power_add)
  also have "8 * (nz - 4) + 8 * (24 - nz) = 160" using assms by simp
  finally show ?thesis by (simp add: diff1_value_def DIFF1_SIG_def)
qed

lemma hash_split:
  assumes "length hb = 32" and "first_nonzero hb = Some nz" and "nz \<le> 24"
  shows "\<exists>low < 256 ^ (24 - nz). be_val hb = unat (hash_sig hb nz) * 256 ^ (24 - nz) + low"
proof -
  have nz: "nz < 32" and v: "be_val hb = be_val (drop nz hb)"
    using first_nonzero_Some [OF assms(2)] assms(1) by auto
  let ?low = "be_val (drop 8 (drop nz hb))"
  have "?low < 256 ^ (24 - nz)" using be_val_less [of "drop 8 (drop nz hb)"] assms by simp
  moreover have "length (drop 8 (drop nz hb)) = 24 - nz" using assms by simp
  then have "be_val (drop nz hb) = be_val (take 8 (drop nz hb)) * 256 ^ (24 - nz) + ?low"
    using be_val_append [of "take 8 (drop nz hb)" "drop 8 (drop nz hb)"]
    by (simp only: append_take_drop_id)
  ultimately show ?thesis using v nz assms by (auto simp: hash_sig_value)
qed


lemma hash_to_difficulty_bounds:
  assumes "length h = 32" and "hash_to_difficulty h \<noteq> - 1" and "hash_to_difficulty h \<noteq> 0"
  shows "unat (hash_to_difficulty h) * le_val h * 2 ^ 56 \<le> diff1_value * (2 ^ 56 + 1)"
    and "diff1_value < 2 * (unat (hash_to_difficulty h) * le_val h)"
proof -
  obtain nz where nz: "first_nonzero (rev h) = Some nz" "4 \<le> nz" "nz < 12"
    and d: "unat (hash_to_difficulty h)
         = unat DIFF1_SIG div unat (hash_sig (rev h) nz) * 2 ^ (8 * (nz - 4))"
    using hash_to_difficulty_cases [OF assms] by blast
  define S D R E P where "S = unat (hash_sig (rev h) nz)" and "D = unat DIFF1_SIG" and "R = D div S"
    and "E = (2::nat) ^ (8 * (nz - 4))" and "P = (256::nat) ^ (24 - nz)"
  obtain low where low: "low < P" "le_val h = S * P + low"
    using hash_split [of "rev h" nz] assms(1) nz by (auto simp: S_def P_def be_val_def)
  have S: "2 ^ 56 \<le> S" unfolding S_def using assms(1) nz by (intro hash_sig_ge) simp_all
  have dR: "unat (hash_to_difficulty h) = R * E" by (simp add: d R_def D_def S_def E_def)
  have v: "diff1_value = D * (E * P)" using diff1_split nz by (simp add: D_def E_def P_def)
  have RS: "R * S \<le> D" by (simp add: R_def)
  have "low * 2 ^ 56 \<le> P * S" using low S by (intro mult_le_mono) simp_all
  then have "le_val h * 2 ^ 56 \<le> S * P * (2 ^ 56 + 1)" by (simp add: low algebra_simps)
  then have "R * E * (le_val h * 2 ^ 56) \<le> R * E * (S * P * (2 ^ 56 + 1))" by (rule mult_le_mono2)
  also have "\<dots> = (R * S) * (E * P * (2 ^ 56 + 1))" by (simp only: ac_simps)
  also have "\<dots> \<le> D * (E * P * (2 ^ 56 + 1))" using RS by (rule mult_le_mono1)
  finally show "unat (hash_to_difficulty h) * le_val h * 2 ^ 56 \<le> diff1_value * (2 ^ 56 + 1)"
    unfolding dR v by (simp only: ac_simps)
  have "R \<noteq> 0" using assms(3) dR by (cases "R = 0") (simp_all add: unsigned_eq_0_iff)
  have "D < (R + 1) * S" using S by (simp add: R_def dividend_less_times_div mult.commute)
  also have "\<dots> \<le> 2 * R * S" using \<open>R \<noteq> 0\<close> by (intro mult_le_mono1) simp
  finally have "D * (E * P) < 2 * R * S * (E * P)" by (simp add: E_def P_def)
  also have "\<dots> = 2 * (R * E * (S * P))" by (simp only: ac_simps)
  also have "\<dots> \<le> 2 * (R * E * le_val h)" using low by simp
  finally show "diff1_value < 2 * (unat (hash_to_difficulty h) * le_val h)" unfolding dR v .
qed

section \<open>Properties\<close>

text \<open>
  The share target of a difficulty is the 256-bit big-endian encoding of the difficulty-1
  target divided by it, rounded down, and a difficulty of zero counts as one.
\<close>

theorem share_target_is_quotient:
  "be_val (difficulty_to_target d) = diff1_value div max 1 (unat d)
   \<and> length (difficulty_to_target d) = 32"
  by (simp add: difficulty_to_target_value)

text \<open>
  A compact target decodes to the number it denotes (mantissa times a power of 256, rounded
  down for small exponents) as 32 big-endian bytes, and to an error exactly when it has a
  non-zero mantissa and an exponent above 32.
\<close>

theorem compact_target_decoding:
  "if compact_mantissa bits = 0 \<or> compact_exponent bits \<le> 32
   then \<exists>t. compact_to_target bits = Ok t \<and> length t = 32 \<and> be_val t = compact_value bits
   else \<exists>msg. compact_to_target bits = Err (Other msg)"
  using compact_to_target_value [of bits] compact_to_target_error [of bits] by auto

text \<open>
  The difficulty reported for a hash is the difficulty-1 target over the hash up to rounding:
  apart from the two saturated values it exceeds the exact quotient by at most one part in
  \<open>2 ^ 56\<close> and is more than half of it.
\<close>

theorem reported_difficulty_within_factor_two:
  assumes "length h = 32" and "hash_to_difficulty h \<noteq> - 1" and "hash_to_difficulty h \<noteq> 0"
  shows "unat (hash_to_difficulty h) * le_val h * 2 ^ 56 \<le> diff1_value * (2 ^ 56 + 1)
     \<and> diff1_value < 2 * (unat (hash_to_difficulty h) * le_val h)"
  using hash_to_difficulty_bounds [OF assms] by blast

theorem reported_difficulty_witness:
  "diff1_value < 2 * (unat (hash_to_difficulty (replicate 25 0 @ [0x01, 0x80] @ replicate 5 0))
     * le_val (replicate 25 0 @ [0x01, 0x80] @ replicate 5 0))"
proof -
  have "hash_to_difficulty (replicate 25 0 @ [0x01, 0x80] @ replicate 5 0) = 256"
    by code_simp
  then show ?thesis
    using reported_difficulty_within_factor_two [of "replicate 25 0 @ [0x01, 0x80] @ replicate 5 0"] by simp
qed

text \<open>
  The rounding loses up to half of the quotient, and all of it when the quotient of the
  leading bytes is below one: there are hashes that meet the target of difficulty 255 and are
  reported as difficulty 0, so the reported difficulty of an accepted share can be below the
  difficulty it was assigned.
\<close>

theorem reported_difficulty_below_assigned:
  "\<exists>h d. length h = 32 \<and> meets_target h (difficulty_to_target d) \<and> hash_to_difficulty h < d
     \<and> hash_to_difficulty h = 0 \<and> d = 255"
proof -
  define h :: bytes where "h = rev ([0, 0, 0, 0, 0, 0xff, 0xff, 1] @ replicate 24 0)"
  have "hash_to_difficulty h = 0" unfolding h_def by code_simp
  moreover have "meets_target h (difficulty_to_target 255)" unfolding h_def by code_simp
  moreover have "length h = 32" by (simp add: h_def)
  moreover have "(0 :: u64) < 255" by simp
  ultimately show ?thesis by metis
qed

end
