(* ===== verification/Merkle.thy ===== *)
theory Merkle
  imports Errors
begin

text \<open>
  The merkle branch of \<^verbatim>\<open>src/src/bitcoin/template.rs\<close>: \<open>double_sha256\<close>,
  \<open>compute_merkle_branch_raw\<close> and the fold of \<open>StratumJob::merkle_root\<close>. The SHA-256
  function of the \<^verbatim>\<open>sha2\<close> crate is the parameter \<open>sha\<close>. The reference is the merkle
  tree of a block (pair up, hash, duplicate the last hash of an odd level); the branch
  computed once per template gives the root of that tree for every coinbase.
\<close>

section \<open>Definitions\<close>

definition double_sha256 :: "(bytes \<Rightarrow> bytes) \<Rightarrow> bytes \<Rightarrow> bytes" where
  "double_sha256 sha data = sha (sha data)"

text \<open>A level of odd length is padded with a copy of its last entry.\<close>

definition pad_level :: "'a list \<Rightarrow> 'a list" where
  "pad_level level = (if odd (length level) then level @ [last level] else level)"

text \<open>
  \<open>level.chunks(2)\<close>, hashing every pair of known hashes. A chunk of one entry would make
  \<open>pair[1]\<close> panic, which is the result \<open>None\<close>.
\<close>

fun hash_pairs :: "(bytes \<Rightarrow> bytes) \<Rightarrow> bytes option list \<Rightarrow> bytes option list option" where
  "hash_pairs sha [] = Some []"
| "hash_pairs sha [a] = None"
| "hash_pairs sha (a # b # rest) =
     (case hash_pairs sha rest of None \<Rightarrow> None
      | Some nxt \<Rightarrow> Some ((case (a, b) of
            (Some left, Some right) \<Rightarrow> Some (double_sha256 sha (left @ right))
          | _ \<Rightarrow> None) # nxt))"

lemma length_hash_pairs: "hash_pairs sha level = Some nxt \<Longrightarrow> 2 * length nxt = length level"
  by (induction sha level arbitrary: nxt rule: hash_pairs.induct) (auto split: option.splits)

lemma length_pad_level: "length (pad_level level) \<le> Suc (length level)"
  by (simp add: pad_level_def)

function merkle_loop ::
  "(bytes \<Rightarrow> bytes) \<Rightarrow> bytes list \<Rightarrow> nat \<Rightarrow> bytes option list \<Rightarrow> bytes list result" where
  "merkle_loop sha branch path_index level =
     (if length level \<le> 1 then Ok branch
      else
        let padded = pad_level level;
            sibling_index = (if even path_index then path_index + 1 else path_index - 1)
        in case nth_opt padded sibling_index of
             None \<Rightarrow> Panic
           | Some sibling \<Rightarrow>
               (case hash_pairs sha padded of
                  None \<Rightarrow> Panic
                | Some next_level \<Rightarrow>
                    merkle_loop sha
                      (case sibling of None \<Rightarrow> branch | Some s \<Rightarrow> branch @ [s])
                      (path_index div 2) next_level))"
  by pat_completeness auto

termination
proof (relation "measure (\<lambda>(sha, branch, path_index, level). length level)", goal_cases)
  case (2 sha branch pi level padded sib sibling next_level)
  then have "2 * length next_level = length padded" by (simp add: length_hash_pairs)
  moreover have "length padded \<le> Suc (length level)" using 2 by (simp add: length_pad_level)
  ultimately show ?case using 2 by simp
qed simp

declare merkle_loop.simps [simp del]

definition compute_merkle_branch_raw :: "(bytes \<Rightarrow> bytes) \<Rightarrow> bytes list \<Rightarrow> bytes list result" where
  "compute_merkle_branch_raw sha txids =
     (if txids = [] then Ok [] else merkle_loop sha [] 0 (None # map Some txids))"

primrec merkle_fold :: "(bytes \<Rightarrow> bytes) \<Rightarrow> bytes \<Rightarrow> bytes list \<Rightarrow> bytes" where
  "merkle_fold sha hash [] = hash"
| "merkle_fold sha hash (branch # rest) = merkle_fold sha (double_sha256 sha (hash @ branch)) rest"

section \<open>The merkle tree of a block\<close>

fun pair_up :: "(bytes \<Rightarrow> bytes) \<Rightarrow> bytes list \<Rightarrow> bytes list" where
  "pair_up sha (a # b # rest) = double_sha256 sha (a @ b) # pair_up sha rest"
| "pair_up sha _ = []"

lemma length_pair_up: "length (pair_up sha xs) = length xs div 2"
  by (induction sha xs rule: pair_up.induct) simp_all

function tree_root :: "(bytes \<Rightarrow> bytes) \<Rightarrow> bytes list \<Rightarrow> bytes" where
  "tree_root sha xs =
     (if length xs \<le> 1 then (case xs of [] \<Rightarrow> replicate 32 0 | x # _ \<Rightarrow> x)
      else tree_root sha (pair_up sha (pad_level xs)))"
  by pat_completeness auto

termination
proof (relation "measure (\<lambda>(sha, xs). length xs)", goal_cases)
  case (2 sha xs)
  then have "length (pad_level xs) div 2 < length xs"
    by (cases "odd (length xs)") (auto simp: pad_level_def elim: oddE)
  then show ?case by (simp add: length_pair_up)
qed simp

declare tree_root.simps [simp del]

lemma hash_pairs_known: "even (length xs) \<Longrightarrow> hash_pairs sha (map Some xs) = Some (map Some (pair_up sha xs))"
  by (induction sha xs rule: pair_up.induct) auto

lemma pad_level_map_Cons:
  "xs \<noteq> [] \<Longrightarrow> pad_level (None # map Some xs) = None # map Some (if even (length xs) then xs @ [last xs] else xs)"
  by (simp add: pad_level_def last_map)

lemma merkle_loop_tree:
  "\<exists>bs. merkle_loop sha br 0 (None # map Some xs) = Ok (br @ bs)
      \<and> merkle_fold sha h bs = tree_root sha (h # xs)"
proof (induction "length xs" arbitrary: xs br h rule: less_induct)
  case less
  show ?case
  proof (cases "xs = []")
    case True
    then show ?thesis by (simp add: merkle_loop.simps tree_root.simps)
  next
    case False
    define ps where "ps = (if even (length xs) then xs @ [last xs] else xs)"
    have "ps \<noteq> []" using False by (simp add: ps_def)
    then obtain x ys where ps: "ps = x # ys" by (cases ps) auto
    have odd: "odd (length ps)" using False by (simp add: ps_def)
    then have ev: "even (length ys)" by (simp add: ps)
    have pad: "pad_level (None # map Some xs) = None # map Some ps"
      using False by (simp add: pad_level_map_Cons ps_def)
    have "length ps \<le> Suc (length xs)" by (simp add: ps_def)
    then have "length (pair_up sha ys) < length xs"
      using ps False by (simp add: length_pair_up) (cases xs; simp)
    from less [OF this, of "br @ [x]" "double_sha256 sha (h @ x)"] obtain bs where
      bs: "merkle_loop sha (br @ [x]) 0 (None # map Some (pair_up sha ys)) = Ok ((br @ [x]) @ bs)"
        "merkle_fold sha (double_sha256 sha (h @ x)) bs
           = tree_root sha (double_sha256 sha (h @ x) # pair_up sha ys)"
      by blast
    have "hash_pairs sha (None # map Some ps) = Some (None # map Some (pair_up sha ys))"
      using ev by (simp add: ps hash_pairs_known)
    then have "merkle_loop sha br 0 (None # map Some xs) = Ok (br @ x # bs)"
      using bs(1) False by (subst merkle_loop.simps) (simp add: pad ps nth_opt_def)
    moreover have "pad_level (h # xs) = h # ps"
      using False by (simp add: pad_level_def ps_def)
    then have "tree_root sha (h # xs) = tree_root sha (double_sha256 sha (h @ x) # pair_up sha ys)"
      using False by (subst tree_root.simps) (simp add: ps)
    ultimately show ?thesis using bs(2) by (intro exI [of _ "x # bs"]) simp
  qed
qed

lemma merkle_branch_root:
  "\<exists>branch. compute_merkle_branch_raw sha txids = Ok branch
      \<and> merkle_fold sha h branch = tree_root sha (h # txids)"
proof (cases "txids = []")
  case True
  then show ?thesis by (simp add: compute_merkle_branch_raw_def tree_root.simps)
next
  case False
  then show ?thesis
    using merkle_loop_tree [of sha "[]" txids h] by (simp add: compute_merkle_branch_raw_def)
qed

end
