(* ===== verification/Template.thy ===== *)
theory Template
  imports Crates Targets Merkle
begin

text \<open>
  \<^verbatim>\<open>src/src/bitcoin/template.rs\<close>: from a \<open>getblocktemplate\<close> result to a Stratum job.
  Job ids, the coinbase transaction with its extranonce placeholder, the BIP34 height
  push, the Stratum form of the previous block hash and the splice of the two extranonce
  halves at share time. The lemmas say that the placeholder is found where the scriptSig
  puts it, that the split coinbase and the spliced coinbase are the same bytes, that the
  height push reads back as the height and that the previous-hash transform is undone by
  the word swap of the header builder.
\<close>

section \<open>Data\<close>

record gbt_transaction =
  gt_data :: bytes
  gt_txid :: string
  gt_hash :: string
  gt_fee :: u64
  gt_weight :: u64

record gbt_result =
  g_version :: u32
  g_prev_hash :: string
  g_bits :: string
  g_cur_time :: u32
  g_min_time :: u32
  g_height :: u64
  g_coinbase_value :: u64
  g_transactions :: "gbt_transaction list"
  g_longpoll_id :: "string option"
  g_default_witness_commitment :: "string option"
  g_rules :: "string list"

record stratum_job =
  j_job_id :: string
  j_prev_hash :: string
  j_coinbase1 :: bytes
  j_coinbase2 :: bytes
  j_merkle_branch :: "string list"
  j_merkle_branch_raw :: "bytes list"
  j_version :: u32
  j_bits :: string
  j_cur_time :: u32
  j_min_time :: u32
  j_height :: u64
  j_network_target :: bytes
  j_coinbase_template :: bytes
  j_extranonce_offset :: nat
  j_extranonce1_len :: nat
  j_extranonce2_len :: nat
  j_transactions :: "bytes list"
  j_coinbase_value :: u64

section \<open>Job ids\<close>

text \<open>
  The process epoch is the low half of the wall clock in milliseconds, fixed at first use;
  the sequence counter is the static \<open>JOB_COUNTER\<close>, whose \<open>fetch_add\<close> wraps.
\<close>

definition job_epoch :: "u64 \<Rightarrow> u64" where
  "job_epoch millis = push_bit 32 (millis AND 0xFFFFFFFF)"

definition next_job_id :: "u64 \<Rightarrow> u64 \<Rightarrow> string \<times> u64" where
  "next_job_id millis counter =
     (let seq = counter AND 0xFFFFFFFF
      in (fmt_hex 16 (unat (job_epoch millis OR seq)), counter + 1))"

section \<open>Coinbase\<close>

definition SENTINEL :: bytes where
  "SENTINEL = [0xDE, 0xAD, 0xBE, 0xEF]"

fun find_bytes :: "bytes \<Rightarrow> bytes \<Rightarrow> nat option" where
  "find_bytes haystack needle =
     (if length haystack < length needle then None
      else if take (length needle) haystack = needle then Some 0
      else case haystack of [] \<Rightarrow> None | _ # rest \<Rightarrow> map_option Suc (find_bytes rest needle))"

declare find_bytes.simps [simp del]

text \<open>The loop \<open>while n > 0\<close> of \<open>encode_bip34_height\<close>.\<close>

function height_bytes :: "u64 \<Rightarrow> bytes" where
  "height_bytes n = (if n > 0 then ucast (n AND 0xff) # height_bytes (drop_bit 8 n) else [])"
  by pat_completeness auto

termination
proof (relation "measure unat", goal_cases)
  case (2 n)
  then have "unat n div 2 ^ 8 < unat n" by (simp add: word_less_nat_alt)
  then show ?case by (simp only: in_measure unat_drop_bit_div)
qed simp

declare height_bytes.simps [simp del]

definition encode_bip34_height :: "u64 \<Rightarrow> bytes" where
  "encode_bip34_height height =
     (if height = 0 then [0x00]
      else if height \<le> 16 then [0x50 + ucast height]
      else
        let raw = height_bytes height;
            padded = (if raw \<noteq> [] \<and> last raw AND 0x80 \<noteq> 0 then raw @ [0x00] else raw)
        in of_nat (length padded) # padded)"

definition address_to_script :: "crates \<Rightarrow> string \<Rightarrow> bytes result" where
  "address_to_script C address = of_opt (Other ''Invalid coinbase address'') (address_script C address)"

definition coinbase_tx :: "bytes \<Rightarrow> tx_out list \<Rightarrow> transaction" where
  "coinbase_tx script_sig outputs =
     \<lparr>tx_version = 1,
      tx_inputs = [\<lparr>ti_prev_hash = replicate 32 0, ti_prev_index = 0xFFFFFFFF,
        ti_script_sig = script_sig, ti_sequence = 0xFFFFFFFF, ti_witness = []\<rparr>],
      tx_outputs = outputs,
      tx_lock_time = 0\<rparr>"

definition witness_outputs :: "crates \<Rightarrow> string option \<Rightarrow> tx_out list result" where
  "witness_outputs C witness_commitment =
     (case witness_commitment of
        None \<Rightarrow> Ok []
      | Some wc_hex \<Rightarrow>
          obind (of_opt (Other ''witness commitment hex'') (hex_decode C wc_hex))
            (\<lambda>wc_script_bytes. Ok [\<lparr>to_value = 0, to_script_pubkey = wc_script_bytes\<rparr>]))"

text \<open>The bytes \<open>offset .. offset + min en_total (len - offset)\<close> are set to zero.\<close>

definition zero_range :: "nat \<Rightarrow> nat \<Rightarrow> bytes \<Rightarrow> bytes" where
  "zero_range offset n bs =
     take offset bs @ replicate (min n (length bs - offset)) 0 @ drop (offset + min n (length bs - offset)) bs"

definition build_coinbase ::
  "crates \<Rightarrow> u64 \<Rightarrow> u64 \<Rightarrow> string \<Rightarrow> bytes \<Rightarrow> nat \<Rightarrow> nat \<Rightarrow> string option \<Rightarrow> (bytes \<times> nat) result" where
  "build_coinbase C height reward address tag extranonce1_len extranonce2_len witness_commitment =
     (let en_total = extranonce1_len + extranonce2_len;
          script_sig_content = encode_bip34_height height @ tag @ SENTINEL @ replicate (en_total - 4) 0
      in obind (address_to_script C address) (\<lambda>reward_script.
         obind (witness_outputs C witness_commitment) (\<lambda>wc_outputs.
           let outputs = \<lparr>to_value = reward, to_script_pubkey = reward_script\<rparr> # wc_outputs;
               serialized = serialize_tx C (coinbase_tx script_sig_content outputs)
           in obind (of_opt (Other ''Extranonce sentinel not found in coinbase'')
                       (find_bytes serialized SENTINEL))
                (\<lambda>offset. Ok (zero_range offset en_total serialized, offset)))))"

section \<open>Jobs\<close>

definition stratum_prev_hash :: "crates \<Rightarrow> string \<Rightarrow> string result" where
  "stratum_prev_hash C core_hex =
     obind (of_opt (Other ''Invalid prev_hash hex'') (hex_decode C core_hex)) (\<lambda>bs.
       if length bs \<noteq> 32 then Err (Other ''prev_hash must be 32 bytes'')
       else Ok (hex_encode C (rev_words (rev bs))))"

definition decode_txid :: "crates \<Rightarrow> gbt_transaction \<Rightarrow> bytes result" where
  "decode_txid C tx =
     (case hex_decode C (gt_txid tx) of
        None \<Rightarrow> Err (Other (''getblocktemplate returned a malformed txid: '' @ gt_txid tx))
      | Some b \<Rightarrow>
          if length b = 32 then Ok (rev b)
          else Err (Other (''getblocktemplate returned a malformed txid: '' @ gt_txid tx)))"

definition build_job ::
  "crates \<Rightarrow> u64 \<Rightarrow> u64 \<Rightarrow> gbt_result \<Rightarrow> string \<Rightarrow> bytes \<Rightarrow> nat \<Rightarrow> nat \<Rightarrow> stratum_job result \<times> u64" where
  "build_job C millis counter gbt coinbase_address coinbase_tag extranonce1_len extranonce2_len =
     (let (job_id, counter') = next_job_id millis counter
      in (obind (build_coinbase C (g_height gbt) (g_coinbase_value gbt) coinbase_address coinbase_tag
                   extranonce1_len extranonce2_len (g_default_witness_commitment gbt))
           (\<lambda>(coinbase_bytes, extranonce_offset).
             let en_total = extranonce1_len + extranonce2_len
             in if length coinbase_bytes < extranonce_offset + en_total then Panic
             else
               obind (omapM (decode_txid C) (g_transactions gbt)) (\<lambda>tx_txids.
               obind (compute_merkle_branch_raw (sha256 C) tx_txids) (\<lambda>merkle_branch_raw.
               obind (stratum_prev_hash C (g_prev_hash gbt)) (\<lambda>prev_hash_stratum.
               obind (bits_to_target (g_bits gbt)) (\<lambda>network_target.
                 Ok \<lparr>j_job_id = job_id,
                     j_prev_hash = prev_hash_stratum,
                     j_coinbase1 = take extranonce_offset coinbase_bytes,
                     j_coinbase2 = drop (extranonce_offset + en_total) coinbase_bytes,
                     j_merkle_branch = map (hex_encode C) merkle_branch_raw,
                     j_merkle_branch_raw = merkle_branch_raw,
                     j_version = g_version gbt,
                     j_bits = g_bits gbt,
                     j_cur_time = g_cur_time gbt,
                     j_min_time = g_min_time gbt,
                     j_height = g_height gbt,
                     j_network_target = network_target,
                     j_coinbase_template = coinbase_bytes,
                     j_extranonce_offset = extranonce_offset,
                     j_extranonce1_len = extranonce1_len,
                     j_extranonce2_len = extranonce2_len,
                     j_transactions = map gt_data (g_transactions gbt),
                     j_coinbase_value = g_coinbase_value gbt\<rparr>))))),
          counter'))"

definition assemble_coinbase :: "stratum_job \<Rightarrow> bytes \<Rightarrow> bytes \<Rightarrow> bytes result" where
  "assemble_coinbase job extranonce1 extranonce2 =
     (let cb = j_coinbase_template job;
          off = j_extranonce_offset job;
          total = j_extranonce1_len job + j_extranonce2_len job;
          p = length extranonce1; m = length extranonce2
      in if p + m \<noteq> total then Ok cb
         else obind (copy_slice off extranonce1 cb) (\<lambda>cb1. copy_slice (off + p) extranonce2 cb1))"

definition merkle_root :: "crates \<Rightarrow> stratum_job \<Rightarrow> bytes \<Rightarrow> bytes" where
  "merkle_root C job coinbase =
     merkle_fold (sha256 C) (double_sha256 (sha256 C) coinbase) (j_merkle_branch_raw job)"

section \<open>Job ids: lemmas\<close>

lemma unat_and_low32: "unat ((w :: u64) AND 0xFFFFFFFF) = unat w mod 2 ^ 32"
proof -
  have "w AND 0xFFFFFFFF = take_bit 32 w" by (simp add: take_bit_eq_mask mask_eq_exp_minus_1)
  then show ?thesis by (simp only:) (subst unsigned_take_bit_eq, simp add: take_bit_eq_mod)
qed

lemma job_number_value:
  "unat (job_epoch millis OR (counter AND 0xFFFFFFFF))
     = (unat millis mod 2 ^ 32) * 2 ^ 32 + unat counter mod 2 ^ 32"
proof -
  define e s where "e = millis AND 0xFFFFFFFF" and "s = counter AND 0xFFFFFFFF"
  have e: "unat e = unat millis mod 2 ^ 32" and s: "unat s = unat counter mod 2 ^ 32"
    by (simp_all add: e_def s_def unat_and_low32)
  have p: "unat (push_bit 32 e) = unat e * 2 ^ 32"
  proof -
    have "unat e * 2 ^ 32 < 2 ^ 64" by (simp add: e)
    then show ?thesis
      unfolding unsigned_push_bit_eq by (simp add: push_bit_eq_mult take_bit_nat_eq_self)
  qed
  have "s = take_bit 32 counter" by (simp add: s_def take_bit_eq_mask mask_eq_exp_minus_1)
  then have "push_bit 32 e AND s = 0"
    by (simp only:) (rule bit_eqI, auto simp: bit_simps)
  then have "push_bit 32 e OR s = push_bit 32 e + s" by (simp add: disjunctive_add_eq_or)
  moreover have "unat e * 2 ^ 32 + unat s < 2 ^ 64"
    by (simp add: e s)
  ultimately show ?thesis using p e s
    by (simp add: job_epoch_def unat_word_ariths flip: e_def s_def)
qed

lemma next_job_id_eq_iff:
  "fst (next_job_id m c) = fst (next_job_id m' c') \<longleftrightarrow>
     unat m mod 2 ^ 32 = unat m' mod 2 ^ 32 \<and> unat c mod 2 ^ 32 = unat c' mod 2 ^ 32"
  (is "?L \<longleftrightarrow> ?R")
proof
  assume ?L
  then have "fmt_hex 16 (unat (job_epoch m OR (c AND 0xFFFFFFFF))) = fmt_hex 16 (unat (job_epoch m' OR (c' AND 0xFFFFFFFF)))"
    by (simp add: next_job_id_def Let_def)
  moreover have "unat w < 16 ^ 16" for w :: u64 using unat_lt [of w] by simp
  ultimately have "unat (job_epoch m OR (c AND 0xFFFFFFFF)) = unat (job_epoch m' OR (c' AND 0xFFFFFFFF))"
    by (auto intro: fmt_hex_inj)
  then have eq: "(unat m mod 2 ^ 32) * 2 ^ 32 + unat c mod 2 ^ 32 = (unat m' mod 2 ^ 32) * 2 ^ 32 + unat c' mod 2 ^ 32"
    by (simp only: job_number_value)
  have inj: "x = x' \<and> y = y'" if "x * k + y = x' * k + y'" "y < k" "y' < k" for x x' y y' k :: nat
    using that by (metis div_mult_self3 div_less add_0_right mod_mult_self3 mod_less not_less_zero)
  show ?R using inj [OF eq] by simp
next
  assume ?R
  then have "job_epoch m OR (c AND 0xFFFFFFFF) = job_epoch m' OR (c' AND 0xFFFFFFFF)"
    unfolding word_unat_eq_iff job_number_value by simp
  then show ?L by (simp add: next_job_id_def Let_def)
qed

section \<open>The placeholder: lemmas\<close>

definition occurs_at :: "bytes \<Rightarrow> nat \<Rightarrow> bytes \<Rightarrow> bool" where
  "occurs_at needle i haystack \<longleftrightarrow> i + length needle \<le> length haystack
     \<and> take (length needle) (drop i haystack) = needle"

lemma find_bytes_Some:
  "occurs_at needle i haystack \<Longrightarrow> (\<And>k. k < i \<Longrightarrow> \<not> occurs_at needle k haystack)
     \<Longrightarrow> find_bytes haystack needle = Some i"
proof (induction i arbitrary: haystack)
  case 0
  then show ?case by (subst find_bytes.simps) (simp add: occurs_at_def)
next
  case (Suc i)
  have "\<not> occurs_at needle 0 haystack" using Suc.prems(2) by simp
  moreover obtain x rest where h: "haystack = x # rest"
    using Suc.prems(1) by (cases haystack) (auto simp: occurs_at_def)
  moreover have "find_bytes rest needle = Some i"
  proof (rule Suc.IH)
    show "occurs_at needle i rest" using Suc.prems(1) h by (simp add: occurs_at_def)
    show "\<not> occurs_at needle k rest" if "k < i" for k
      using Suc.prems(2) [of "Suc k"] that h by (simp add: occurs_at_def)
  qed
  moreover have "length needle \<le> length haystack" using Suc.prems(1) by (simp add: occurs_at_def)
  ultimately show ?case by (subst find_bytes.simps) (simp add: occurs_at_def)
qed

lemma occurs_at_nth: "occurs_at needle i haystack \<Longrightarrow> j < length needle \<Longrightarrow> haystack ! (i + j) = needle ! j"
  unfolding occurs_at_def by (metis add_leD1 nth_drop nth_take)

lemma utf8_no_pattern:
  "utf8_valid s \<Longrightarrow> i + 2 < length s \<Longrightarrow> s ! i = 0xDE \<Longrightarrow> s ! (i + 1) = 0xAD \<Longrightarrow> s ! (i + 2) = 0xBE \<Longrightarrow> False"
proof (induction s arbitrary: i rule: utf8_valid.induct)
  case (2 a s)
  define n where "n = utf8_width a - 1"
  have v: "utf8_width a \<noteq> 0" "n \<le> length s" "list_all cont_byte (take n s)" "utf8_valid (drop n s)"
    using "2.prems"(1) by (simp_all add: n_def Let_def)
  consider "i = 0" | j where "i = Suc j" "j < n" | j where "i = Suc j" "n \<le> j"
    by (cases i) (auto simp: not_less [symmetric])
  then show ?case
  proof cases
    case 1
    then have "n = 1" using "2.prems" by (simp add: n_def utf8_width_def)
    moreover have "s \<noteq> []" "drop 1 s \<noteq> []" "hd (drop 1 s) = 0xBE"
      using "2.prems" 1 by (auto simp: hd_drop_conv_nth)
    ultimately have "utf8_valid (0xBE # tl (drop 1 s))" using v(4) by (metis list.collapse)
    then show False by (simp add: utf8_width_def)
  next
    case 2
    then have "cont_byte (s ! j)" using v(2,3) by (simp add: list_all_length)
    then show False using "2.prems"(3) 2 by (simp add: cont_byte_def)
  next
    case 3
    have "utf8_valid (drop n s) \<Longrightarrow> k + 2 < length (drop n s) \<Longrightarrow> drop n s ! k = 0xDE
      \<Longrightarrow> drop n s ! (k + 1) = 0xAD \<Longrightarrow> drop n s ! (k + 2) = 0xBE \<Longrightarrow> False" for k
      using "2.IH" [OF refl] unfolding n_def .
    from this [of "j - n"] show False using "2.prems"(2-5) 3 v(2,4) by (simp, linarith)
  qed
qed simp

lemma SENTINEL_nth: "SENTINEL ! 0 = 0xDE" "SENTINEL ! Suc 0 = 0xAD" "SENTINEL ! 2 = 0xBE" "SENTINEL ! 3 = 0xEF"
  "length SENTINEL = 4" "set SENTINEL = {0xDE, 0xAD, 0xBE, 0xEF}"
  by (simp_all add: SENTINEL_def)

lemma occurs_blocked:
  assumes "occurs_at SENTINEL i xs" and "xs ! k \<notin> set SENTINEL"
  shows "k < i \<or> i + 4 \<le> k"
proof (rule ccontr)
  assume c: "\<not> ?thesis"
  then have "xs ! (i + (k - i)) = SENTINEL ! (k - i)"
    by (intro occurs_at_nth [OF assms(1)]) (auto simp: SENTINEL_nth)
  moreover have "SENTINEL ! (k - i) \<in> set SENTINEL"
    using c by (intro nth_mem) (auto simp: SENTINEL_nth(5))
  ultimately show False using assms(2) c by auto
qed

text \<open>A tag cannot contain the sentinel, nor end with a piece of it that the sentinel completes.\<close>

lemma tag_no_sentinel:
  assumes "utf8_valid tag" and "i < length tag"
  shows "\<not> occurs_at SENTINEL i (tag @ SENTINEL @ rest)"
proof
  assume o: "occurs_at SENTINEL i (tag @ SENTINEL @ rest)"
  have n: "(tag @ SENTINEL @ rest) ! (i + j) = SENTINEL ! j" if "j < 4" for j
    using occurs_at_nth [OF o] that by (simp add: SENTINEL_nth)
  show False
  proof (cases "i + 2 < length tag")
    case True
    then show False
      using utf8_no_pattern [OF assms(1) True] n [of 0] n [of 1] n [of 2]
      by (simp add: SENTINEL_nth nth_append)
  next
    case False
    define j where "j = length tag - i"
    have "0 < j" "j \<le> 2" "i + j = length tag" using assms False by (auto simp: j_def)
    then have "SENTINEL ! j = 0xDE" using n [of j] by (simp add: nth_append SENTINEL_def)
    then show False using \<open>0 < j\<close> \<open>j \<le> 2\<close> by (cases "j = 1"; cases "j = 2") (auto simp: SENTINEL_nth)
  qed
qed

subsection \<open>The BIP34 height push\<close>

lemma height_bytes_rec:
  "height_bytes n = (if n = 0 then [] else ucast n # height_bytes (drop_bit 8 n))"
proof -
  have "n AND 0xff = take_bit 8 n" by (simp add: take_bit_eq_mask mask_eq_exp_minus_1)
  then have "(ucast (n AND 0xff) :: byte) = ucast n"
    by (simp only:) (rule bit_eqI, auto simp: bit_simps)
  then show ?thesis by (subst height_bytes.simps) (simp add: word_gt_0)
qed

lemma le_val_height_bytes: "le_val (height_bytes n) = unat n"
proof (induction n rule: height_bytes.induct)
  case (1 n)
  show ?case
  proof (cases "n = 0")
    case False
    then have "le_val (height_bytes (drop_bit 8 n)) = unat (drop_bit 8 n)" using 1 by (simp add: word_gt_0)
    then show ?thesis using False
      by (subst height_bytes_rec) (simp add: unat_ucast_byte unat_drop_bit_div)
  qed (simp add: height_bytes_rec)
qed

lemma length_height_bytes: "unat n < 256 ^ k \<Longrightarrow> length (height_bytes n) \<le> k"
proof (induction k arbitrary: n)
  case 0
  then show ?case by (simp add: height_bytes_rec unsigned_eq_0_iff)
next
  case (Suc k)
  have "unat (drop_bit 8 n) < 256 ^ k"
    unfolding unat_drop_bit_div using Suc.prems by (simp add: less_mult_imp_div_less mult.commute)
  then show ?case using Suc.IH by (subst height_bytes_rec) simp
qed

definition height_data :: "u64 \<Rightarrow> bytes" where
  "height_data height = (let raw = height_bytes height
     in if raw \<noteq> [] \<and> last raw AND 0x80 \<noteq> 0 then raw @ [0x00] else raw)"

lemma encode_bip34_height_push:
  "16 < height \<Longrightarrow> encode_bip34_height height = of_nat (length (height_data height)) # height_data height"
  by (auto simp: encode_bip34_height_def height_data_def Let_def)

lemma le_val_height_data: "le_val (height_data n) = unat n"
  by (simp add: height_data_def Let_def le_val_append le_val_height_bytes)

lemma top_bit_byte: "(b :: byte) AND 0x80 = 0 \<longleftrightarrow> b < 0x80"
proof -
  have "b AND 0x80 = 0 \<longleftrightarrow> \<not> bit b 7"
    using and_exp_eq_0_iff_not_bit [of b 7] by simp
  also have "bit b 7 \<longleftrightarrow> odd (unat b div 128)"
    using bit_iff_odd [of "unat b" 7] by (simp add: bit_unsigned_iff)
  also have "\<dots> \<longleftrightarrow> 128 \<le> unat b"
  proof (cases "128 \<le> unat b")
    case True
    then have "unat b div 128 = 1" using unat_byte_lt [of b] by simp
    then show ?thesis using True by simp
  qed simp
  finally show ?thesis by (simp add: word_less_nat_alt not_le)
qed

lemma height_data_last: "0 < n \<Longrightarrow> height_data n \<noteq> [] \<and> last (height_data n) < 0x80"
  using height_bytes_rec [of n] by (auto simp: height_data_def Let_def top_bit_byte split: if_splits)

lemma length_height_data:
  assumes "unat n < 2 ^ 31"
  shows "length (height_data n) \<le> 4"
proof (cases "length (height_bytes n) \<le> 3")
  case False
  then have l: "length (height_bytes n) = 4"
    using length_height_bytes [of n 4] assms by simp
  then obtain xs x where hb: "height_bytes n = xs @ [x]" "length xs = 3"
    by (cases "height_bytes n" rule: rev_cases) auto
  have "256 ^ 3 * unat x \<le> unat n"
    using le_val_height_bytes [of n] hb by (simp add: le_val_append)
  then have "x < 0x80" using assms by (simp add: word_less_nat_alt)
  then show ?thesis using l hb by (simp add: height_data_def Let_def top_bit_byte)
qed (simp add: height_data_def Let_def)

lemma encode_height_barriers:
  assumes "unat height < 2 ^ 31"
  defines "H \<equiv> encode_bip34_height height"
  shows "H \<noteq> [] \<and> length H \<le> 5 \<and> hd H \<notin> set SENTINEL \<and> last H \<notin> set SENTINEL"
proof -
  have small: "b \<notin> set SENTINEL" if "b < 0x80" for b :: byte
    using that by (auto simp: SENTINEL_nth)
  consider "height = 0" | "height \<noteq> 0" "height \<le> 16" | "16 < height" by force
  then show ?thesis
  proof cases
    case 2
    then have "unat (ucast height :: byte) \<le> 16"
      by (simp add: unat_ucast_byte word_le_nat_alt)
    then have "unat (0x50 + ucast height :: byte) < 0x80" by (simp add: unat_word_ariths)
    then have "0x50 + ucast height < (0x80 :: byte)" by (simp add: word_less_nat_alt)
    then show ?thesis using 2 small by (simp add: H_def encode_bip34_height_def)
  next
    case 3
    define d where "d = height_data height"
    have "length d \<le> 4" using length_height_data [OF assms(1)] by (simp add: d_def)
    then have "(of_nat (length d) :: byte) < 0x80" by (simp add: word_less_nat_alt unat_of_nat)
    moreover have "d \<noteq> []" "last d < 0x80"
      using height_data_last [of height] less_trans [OF _ 3, of 0] by (auto simp: d_def)
    ultimately show ?thesis
      using small \<open>length d \<le> 4\<close> 3 by (simp add: H_def encode_bip34_height_push flip: d_def)
  qed (simp add: H_def encode_bip34_height_def small)
qed

text \<open>The bytes of the coinbase before its scriptSig and after it.\<close>

definition coinbase_head :: "nat \<Rightarrow> bytes" where
  "coinbase_head script_len =
     [1, 0, 0, 0, 1] @ replicate 32 0 @ [0xFF, 0xFF, 0xFF, 0xFF] @ compact_size script_len"

definition coinbase_tail :: "tx_out list \<Rightarrow> bytes" where
  "coinbase_tail outputs = [0xFF, 0xFF, 0xFF, 0xFF] @ compact_size (length outputs)
     @ concat (map tx_out_bytes outputs) @ [0, 0, 0, 0]"

lemma u32_le_constants:
  "u32_to_le_bytes 0 = [0, 0, 0, 0]" "u32_to_le_bytes 1 = [1, 0, 0, 0]"
  "u32_to_le_bytes 0xFFFFFFFF = [0xFF, 0xFF, 0xFF, 0xFF]"
  by code_simp+

lemma coinbase_bytes_split:
  "legacy_tx_bytes (coinbase_tx sc outputs) = coinbase_head (length sc) @ sc @ coinbase_tail outputs"
  by (simp add: legacy_tx_bytes_def coinbase_tx_def tx_in_bytes_def var_bytes_def coinbase_head_def
      coinbase_tail_def length_compact_size_small u32_le_constants)

lemma length_compact_size: "n \<le> 0xffff \<Longrightarrow> length (compact_size n) \<le> 3"
  by (simp add: compact_size_def)

lemma head_no_sentinel:
  assumes "n \<le> 0xffff" and "i + 4 \<le> length (coinbase_head n)"
  shows "coinbase_head n ! i \<noteq> 0xDE"
proof -
  have "length (compact_size n) \<le> 3" using assms(1) by (rule length_compact_size)
  then have "i < 41" using assms(2) by (simp add: coinbase_head_def)
  define F where "F = [1, 0, 0, 0, 1 :: byte] @ replicate 32 0 @ [0xFF, 0xFF, 0xFF, 0xFF]"
  have "coinbase_head n ! i = F ! i"
    using \<open>i < 41\<close> by (simp add: coinbase_head_def F_def nth_append_left flip: append_assoc append_Cons)
  also have "\<dots> \<in> set F" using \<open>i < 41\<close> by (intro nth_mem) (simp add: F_def)
  finally show ?thesis by (auto simp: F_def)
qed

lemma find_placeholder:
  assumes "utf8_valid tag" and "unat height < 2 ^ 31"
  defines "H \<equiv> encode_bip34_height height"
  assumes "n \<le> 0xffff"
  shows "find_bytes (coinbase_head n @ (H @ tag @ SENTINEL @ zs) @ rest) SENTINEL
           = Some (length (coinbase_head n) + length H + length tag)"
proof (rule find_bytes_Some)
  define A where "A = coinbase_head n"
  define S where "S = A @ (H @ tag @ SENTINEL @ zs) @ rest"
  have b: "H \<noteq> []" "length H \<le> 5" "hd H \<notin> set SENTINEL" "last H \<notin> set SENTINEL"
    using encode_height_barriers [OF assms(2)] by (simp_all add: H_def)
  show "occurs_at SENTINEL (length (coinbase_head n) + length H + length tag)
      (coinbase_head n @ (H @ tag @ SENTINEL @ zs) @ rest)"
    by (simp add: occurs_at_def)
  show "\<not> occurs_at SENTINEL k (coinbase_head n @ (H @ tag @ SENTINEL @ zs) @ rest)"
    if "k < length (coinbase_head n) + length H + length tag" for k
  proof
    assume o: "occurs_at SENTINEL k (coinbase_head n @ (H @ tag @ SENTINEL @ zs) @ rest)"
    then have o: "occurs_at SENTINEL k S" by (simp add: S_def A_def)
    have "S ! length A \<notin> set SENTINEL"
      using b(1,3) by (simp add: S_def nth_append hd_conv_nth [symmetric])
    from occurs_blocked [OF o this] have b1: "length A < k \<or> k + 4 \<le> length A" .
    have "S ! (length A + (length H - 1)) = H ! (length H - 1)"
      using b by (simp add: S_def nth_append)
    then have "S ! (length A + (length H - 1)) \<notin> set SENTINEL"
      using b(1,4) by (simp add: last_conv_nth)
    moreover have "0 < length H" using b(1) by simp
    ultimately have b2: "length A + length H \<le> k \<or> k + 4 < length A + length H"
      using occurs_blocked [OF o, of "length A + (length H - 1)"] by linarith
    show False
    proof (cases "k + 4 \<le> length A")
      case True
      then have "A ! k \<noteq> 0xDE" using head_no_sentinel assms(4) by (simp add: A_def)
      moreover have "S ! k = 0xDE" using occurs_at_nth [OF o, of 0] by (simp add: SENTINEL_nth)
      ultimately show False using True by (simp add: S_def nth_append)
    next
      case False
      then have ge: "length A + length H \<le> k" using b1 b2 b by linarith
      then have "drop k S = drop (k - length A - length H) (tag @ SENTINEL @ (zs @ rest))"
        by (simp add: S_def)
      then have "occurs_at SENTINEL (k - length A - length H) (tag @ SENTINEL @ (zs @ rest))"
        using o ge by (auto simp: occurs_at_def S_def)
      then show False using tag_no_sentinel [OF assms(1)] that ge by (simp add: A_def)
    qed
  qed
qed

text \<open>
  The scriptSig of the finished coinbase. With fewer than four extranonce bytes the end of the
  sentinel stays behind them.
\<close>

definition coinbase_script :: "u64 \<Rightarrow> bytes \<Rightarrow> bytes \<Rightarrow> bytes" where
  "coinbase_script height tag en = encode_bip34_height height @ tag @ en @ drop (length en) SENTINEL"

lemma length_coinbase_script:
  "unat height < 2 ^ 31 \<Longrightarrow> length (coinbase_script height tag en) \<le> 5 + length tag + max 4 (length en)"
  using encode_height_barriers [of height] by (simp add: coinbase_script_def SENTINEL_nth(5) max_def)

lemma build_coinbase_layout:
  assumes "serialize_ok C" and "utf8_valid tag" and "unat height < 2 ^ 31"
    and "length tag + en1 + en2 \<le> 65000"
  shows "build_coinbase C height reward address tag en1 en2 wc =
     obind (address_to_script C address) (\<lambda>reward_script.
     obind (witness_outputs C wc) (\<lambda>wc_outputs.
       let sc = coinbase_script height tag (replicate (en1 + en2) 0)
       in Ok (legacy_tx_bytes (coinbase_tx sc
                (\<lparr>to_value = reward, to_script_pubkey = reward_script\<rparr> # wc_outputs)),
              length (coinbase_head (length sc)) + length (encode_bip34_height height) + length tag)))"
proof -
  define H where "H = encode_bip34_height height"
  define k where "k = en1 + en2"
  define n where "n = length H + length tag + max 4 k"
  define zs where "zs = replicate (k - 4) (0 :: byte)"
  have "length H \<le> 5" using encode_height_barriers [OF assms(3)] by (simp add: H_def)
  then have n: "n \<le> 0xffff" using assms(4) by (simp add: n_def k_def)
  have ls: "length (H @ tag @ SENTINEL @ zs) = n" by (simp add: n_def zs_def SENTINEL_nth)
  have ser: "serialize_tx C (coinbase_tx (H @ tag @ SENTINEL @ zs) outs)
      = coinbase_head n @ (H @ tag @ SENTINEL @ zs) @ coinbase_tail outs" for outs
    using assms(1) coinbase_bytes_split [of "H @ tag @ SENTINEL @ zs" outs] ls
    by (simp add: serialize_ok_def coinbase_tx_def)
  have Z: "SENTINEL @ zs = take k (SENTINEL @ zs) @ drop k SENTINEL" "length (take k (SENTINEL @ zs)) = k"
    by (cases "k \<le> 4"; simp add: zs_def SENTINEL_nth(5))+
  have zr: "zero_range (length P) (length Y) (P @ Y @ B) = P @ replicate (length Y) 0 @ B" for P Y B
    by (simp add: zero_range_def)
  have zero: "zero_range (length (coinbase_head n) + length H + length tag) k
      (coinbase_head n @ (H @ tag @ SENTINEL @ zs) @ B)
      = coinbase_head n @ (H @ tag @ replicate k 0 @ drop k SENTINEL) @ B" for B
    using zr [of "coinbase_head n @ H @ tag" "take k (SENTINEL @ zs)" "drop k SENTINEL @ B"] Z
    by (metis (no_types, lifting) append_assoc length_append add.assoc)
  have sc: "coinbase_script height tag (replicate k 0) = H @ tag @ replicate k 0 @ drop k SENTINEL"
    by (simp add: coinbase_script_def H_def)
  have l0: "length (H @ tag @ replicate k 0 @ drop k SENTINEL) = n" by (simp add: n_def SENTINEL_nth)
  show ?thesis
    unfolding build_coinbase_def Let_def H_def [symmetric] k_def [symmetric] zs_def [symmetric] ser
      find_placeholder [OF assms(2,3) n, folded H_def] coinbase_bytes_split sc l0
    by (simp add: of_opt_def zero [simplified])
qed

lemma copy_two_slices:
  assumes "length Z = length x + length y"
  shows "obind (copy_slice (length P) x (P @ Z @ B)) (\<lambda>cb. copy_slice (length P + length x) y cb)
           = (Ok (P @ x @ y @ B) :: bytes result)"
proof -
  have "copy_slice (length P) x (P @ Z @ B) = (Ok (P @ x @ drop (length x) Z @ B) :: bytes result)"
    using assms by (simp add: copy_slice_def)
  moreover have "copy_slice (length (P @ x)) y ((P @ x) @ drop (length x) Z @ B)
      = (Ok ((P @ x) @ y @ B) :: bytes result)"
    using assms by (simp add: copy_slice_def)
  ultimately show ?thesis by simp
qed

lemma assemble_coinbase_splice:
  assumes "j_coinbase_template job = P @ Z @ B" and "j_extranonce_offset job = length P"
    and "length Z = j_extranonce1_len job + j_extranonce2_len job"
    and "length x + length y = length Z"
  shows "assemble_coinbase job x y = Ok (P @ x @ y @ B)"
  using copy_two_slices [of Z x y P B] assms by (simp add: assemble_coinbase_def Let_def)


lemma build_job_coinbase:
  assumes "serialize_ok C" and "utf8_valid tag" and "unat (g_height gbt) < 2 ^ 31"
    and "length tag + en1 + en2 \<le> 65000"
    and "fst (build_job C millis counter gbt address tag en1 en2) = Ok job"
  obtains reward_script wc_outputs where
    "address_script C address = Some reward_script"
    "witness_outputs C (g_default_witness_commitment gbt) = Ok wc_outputs"
    "\<And>x1 x2. length x1 + length x2 = en1 + en2 \<Longrightarrow>
       assemble_coinbase job x1 x2 = Ok (j_coinbase1 job @ x1 @ x2 @ j_coinbase2 job)
       \<and> j_coinbase1 job @ x1 @ x2 @ j_coinbase2 job
           = legacy_tx_bytes (coinbase_tx (coinbase_script (g_height gbt) tag (x1 @ x2))
               (\<lparr>to_value = g_coinbase_value gbt, to_script_pubkey = reward_script\<rparr> # wc_outputs))"
proof -
  define H where "H = encode_bip34_height (g_height gbt)"
  define k where "k = en1 + en2"
  define n where "n = length (coinbase_script (g_height gbt) tag (replicate k 0))"
  obtain cb off where cb: "build_coinbase C (g_height gbt) (g_coinbase_value gbt) address tag en1 en2
      (g_default_witness_commitment gbt) = Ok (cb, off)"
    and j: "j_coinbase_template job = cb" "j_extranonce_offset job = off"
      "j_extranonce1_len job = en1" "j_extranonce2_len job = en2"
      "j_coinbase1 job = take off cb" "j_coinbase2 job = drop (off + k) cb"
    using assms(5) by (auto simp: build_job_def Let_def k_def split: prod.splits if_splits)
  obtain rs ws where rs: "address_script C address = Some rs"
    and ws: "witness_outputs C (g_default_witness_commitment gbt) = Ok ws"
    and cbv: "cb = legacy_tx_bytes (coinbase_tx (coinbase_script (g_height gbt) tag (replicate k 0))
         (\<lparr>to_value = g_coinbase_value gbt, to_script_pubkey = rs\<rparr> # ws))"
    and off: "off = length (coinbase_head n) + length H + length tag"
    using cb unfolding build_coinbase_layout [OF assms(1-4)]
    by (auto simp: address_to_script_def Let_def H_def n_def k_def)
  define outs where "outs = \<lparr>to_value = g_coinbase_value gbt, to_script_pubkey = rs\<rparr> # ws"
  define P where "P = coinbase_head n @ H @ tag"
  define B where "B = drop k SENTINEL @ coinbase_tail outs"
  have script: "legacy_tx_bytes (coinbase_tx (coinbase_script (g_height gbt) tag en) outs) = P @ en @ B"
    if "length en = k" for en
  proof -
    have "length (coinbase_script (g_height gbt) tag en) = n" using that by (simp add: n_def coinbase_script_def)
    then show ?thesis
      unfolding coinbase_bytes_split using that by (simp add: P_def B_def coinbase_script_def H_def)
  qed
  have cb2: "cb = P @ replicate k 0 @ B"
    unfolding cbv outs_def [symmetric] by (rule script) simp
  have offP: "off = length P" by (simp add: off P_def)
  have c12: "j_coinbase1 job = P" "j_coinbase2 job = B"
    unfolding j cb2 offP by simp_all
  show thesis
  proof (rule that [OF rs ws], intro conjI)
    fix x1 x2 :: bytes
    assume l: "length x1 + length x2 = en1 + en2"
    show "assemble_coinbase job x1 x2 = Ok (j_coinbase1 job @ x1 @ x2 @ j_coinbase2 job)"
      unfolding c12
      by (rule assemble_coinbase_splice [of _ P "replicate k 0"]) (simp_all add: j cb2 offP l k_def)
    show "j_coinbase1 job @ x1 @ x2 @ j_coinbase2 job = legacy_tx_bytes
        (coinbase_tx (coinbase_script (g_height gbt) tag (x1 @ x2))
          (\<lparr>to_value = g_coinbase_value gbt, to_script_pubkey = rs\<rparr> # ws))"
      unfolding c12 outs_def [symmetric] using script [of "x1 @ x2"] l by (simp add: k_def)
  qed
qed

subsection \<open>When a job is built\<close>

text \<open>
  The reading of a height push by a script interpreter: the small-integer opcodes, or a
  direct push of at most 75 bytes holding a non-negative number with no superfluous
  zero byte at its end.
\<close>

definition minimal_nonneg :: "bytes \<Rightarrow> bool" where
  "minimal_nonneg d \<longleftrightarrow> d \<noteq> [] \<and> last d < 0x80
     \<and> (last d = 0 \<longrightarrow> butlast d \<noteq> [] \<and> 0x80 \<le> last (butlast d))"

fun read_height :: "bytes \<Rightarrow> (nat \<times> bytes) option" where
  "read_height [] = None"
| "read_height (op # rest) =
     (if op = 0 then Some (0, rest)
      else if 0x51 \<le> op \<and> op \<le> 0x60 then Some (unat op - 0x50, rest)
      else if op \<le> 75 \<and> unat op \<le> length rest \<and> minimal_nonneg (take (unat op) rest)
      then Some (le_val (take (unat op) rest), drop (unat op) rest)
      else None)"

lemma height_bytes_last: "n \<noteq> 0 \<Longrightarrow> height_bytes n \<noteq> [] \<and> last (height_bytes n) \<noteq> 0"
proof (induction n rule: height_bytes.induct)
  case (1 n)
  have u: "unat n = unat (ucast n :: byte) + 256 * unat (drop_bit 8 n)"
    by (simp add: unat_ucast_byte unat_drop_bit_div)
  show ?case
  proof (cases "drop_bit 8 n = 0")
    case True
    then have "ucast n \<noteq> (0 :: byte)" using u 1(2) by (auto simp: unsigned_eq_0_iff)
    then show ?thesis using 1(2) True by (subst (1 2) height_bytes_rec) (simp add: height_bytes_rec)
  next
    case False
    then show ?thesis using 1 by (subst (1 2) height_bytes_rec) (simp add: word_gt_0)
  qed
qed

lemma minimal_height_data: "n \<noteq> 0 \<Longrightarrow> minimal_nonneg (height_data n)"
  using height_bytes_last [of n] by (auto simp: minimal_nonneg_def height_data_def Let_def top_bit_byte not_less)

lemma length_height_data_any: "length (height_data n) \<le> 9"
  using length_height_bytes [of n 8] unat_lt [of n] by (simp add: height_data_def Let_def)

lemma read_height_push:
  assumes "16 < height"
  shows "read_height (encode_bip34_height height @ rest) = Some (unat height, rest)"
proof -
  define d where "d = height_data height"
  have "height \<noteq> 0" using assms by auto
  then have "d \<noteq> []" "minimal_nonneg d" by (auto simp: d_def minimal_height_data height_data_last word_gt_0)
  moreover have "length d \<le> 9" by (simp add: d_def length_height_data_any)
  then have ud: "unat (of_nat (length d) :: byte) = length d" by (simp add: unat_of_nat)
  then have "(of_nat (length d) :: byte) \<noteq> 0" using \<open>d \<noteq> []\<close> by (metis length_0_conv unsigned_0)
  moreover have "(of_nat (length d) :: byte) \<le> 75" "\<not> 0x51 \<le> (of_nat (length d) :: byte)"
    using ud \<open>length d \<le> 9\<close> by (simp_all add: word_le_nat_alt)
  ultimately show ?thesis
    using le_val_height_data [of height] ud by (simp add: encode_bip34_height_push [OF assms] flip: d_def)
qed

lemma read_height_encode: "read_height (encode_bip34_height height @ rest) = Some (unat height, rest)"
proof (cases "height \<le> 16")
  case True
  show ?thesis
  proof (cases "height = 0")
    case False
    have h: "unat height \<le> 16" "unat height \<noteq> 0"
      using True False by (auto simp: word_le_nat_alt unsigned_eq_0_iff)
    then have u: "unat (0x50 + ucast height :: byte) = 0x50 + unat height"
      by (simp add: unat_word_ariths unat_ucast_byte)
    then have "0x51 \<le> (0x50 + ucast height :: byte)" "0x50 + ucast height \<le> (0x60 :: byte)"
      using h by (auto simp: word_le_nat_alt)
    moreover have "0x50 + ucast height \<noteq> (0 :: byte)"
      using u by (metis add_is_0 unsigned_0 zero_neq_numeral)
    ultimately show ?thesis using True False u by (simp add: encode_bip34_height_def)
  qed (simp add: encode_bip34_height_def)
next
  case False
  then show ?thesis by (intro read_height_push) simp
qed

section \<open>Building a job: lemmas\<close>

lemma compact_to_target_total:
  "(\<exists>t. compact_to_target bits = Ok t \<and> length t = 32) \<or> (\<exists>msg. compact_to_target bits = Err (Other msg))"
  using compact_to_target_value [of bits] compact_to_target_error [of bits]
  by (cases "compact_mantissa bits = 0 \<or> compact_exponent bits \<le> 32") auto

lemma bits_to_target_not_Panic: "bits_to_target bits_hex \<noteq> Panic"
proof -
  have "compact_to_target b \<noteq> Panic" for b using compact_to_target_total [of b] by auto
  then show ?thesis by (simp add: bits_to_target_def obind_Panic_iff)
qed

lemma bits_to_target_length: "bits_to_target bits_hex = Ok t \<Longrightarrow> length t = 32"
proof -
  have "compact_to_target b = Ok t \<Longrightarrow> length t = 32" for b using compact_to_target_total [of b] by auto
  then show "bits_to_target bits_hex = Ok t \<Longrightarrow> length t = 32" by (auto simp: bits_to_target_def)
qed

lemma decode_txid_not_Panic: "decode_txid C tx \<noteq> Panic"
  by (simp add: decode_txid_def split: option.splits)

lemma witness_outputs_not_Panic: "witness_outputs C wc \<noteq> Panic"
  by (auto simp: witness_outputs_def obind_Panic_iff split: option.splits)

lemma stratum_prev_hash_not_Panic: "stratum_prev_hash C s \<noteq> Panic"
  by (auto simp: stratum_prev_hash_def obind_Panic_iff)

lemma merkle_branch_not_Panic: "compute_merkle_branch_raw sha txids \<noteq> Panic"
  using merkle_branch_root [of sha txids undefined] by auto

lemmas build_not_Panic = bits_to_target_not_Panic decode_txid_not_Panic witness_outputs_not_Panic
  stratum_prev_hash_not_Panic merkle_branch_not_Panic omapM_not_Panic

lemma build_coinbase_fits:
  assumes "serialize_ok C" and "utf8_valid tag" and "unat height < 2 ^ 31"
    and "length tag + en1 + en2 \<le> 65000"
    and "build_coinbase C height reward address tag en1 en2 wc = Ok (cb, off)"
  shows "off + (en1 + en2) \<le> length cb"
  using assms(5) unfolding build_coinbase_layout [OF assms(1-4)]
  by (auto simp: coinbase_bytes_split coinbase_script_def Let_def)

text \<open>The conditions on a template and on the settings under which it makes a job.\<close>

definition template_ok :: "crates \<Rightarrow> gbt_result \<Rightarrow> string \<Rightarrow> bool" where
  "template_ok C gbt address \<longleftrightarrow>
     address_script C address \<noteq> None
     \<and> (\<forall>wc. g_default_witness_commitment gbt = Some wc \<longrightarrow> hex_decode C wc \<noteq> None)
     \<and> list_all (\<lambda>tx. \<exists>b. hex_decode C (gt_txid tx) = Some b \<and> length b = 32) (g_transactions gbt)
     \<and> (\<exists>b. hex_decode C (g_prev_hash gbt) = Some b \<and> length b = 32)
     \<and> (\<exists>t. bits_to_target (g_bits gbt) = Ok t)"

lemma omapM_decode_txid:
  "(\<exists>ids. omapM (decode_txid C) txs = Ok ids) \<longleftrightarrow>
     list_all (\<lambda>tx. \<exists>b. hex_decode C (gt_txid tx) = Some b \<and> length b = 32) txs"
  by (induction txs) (auto simp: decode_txid_def split: option.splits if_splits)

lemma decode_txids_value:
  "omapM (decode_txid C) txs = Ok ids \<Longrightarrow>
     list_all2 (\<lambda>tx id. hex_decode C (gt_txid tx) = Some (rev id) \<and> length id = 32) txs ids"
  unfolding omapM_Ok_iff
  by (rule list_all2_mono, assumption) (auto simp: decode_txid_def split: option.splits if_splits)

lemma build_job_Ok_iff:
  assumes "serialize_ok C" and "utf8_valid tag" and "unat (g_height gbt) < 2 ^ 31"
    and "length tag + en1 + en2 \<le> 65000"
  shows "(\<exists>job. fst (build_job C millis counter gbt address tag en1 en2) = Ok job)
           \<longleftrightarrow> template_ok C gbt address" (is "?L \<longleftrightarrow> ?R")
proof -
  note layout = build_coinbase_layout [OF assms]
  note fits = build_coinbase_fits [OF assms]
  have cb: "(\<exists>cb off. build_coinbase C (g_height gbt) r address tag en1 en2 (g_default_witness_commitment gbt) = Ok (cb, off))
      \<longleftrightarrow> address_script C address \<noteq> None
        \<and> (\<forall>wc. g_default_witness_commitment gbt = Some wc \<longrightarrow> hex_decode C wc \<noteq> None)" for r
    unfolding layout
    by (auto simp: address_to_script_def Let_def witness_outputs_def split: option.splits)
  have m: "\<exists>br. compute_merkle_branch_raw (sha256 C) ids = Ok br" for ids
    using merkle_branch_root [of "sha256 C" ids undefined] by auto
  have p: "(\<exists>h. stratum_prev_hash C s = Ok h) \<longleftrightarrow> (\<exists>b. hex_decode C s = Some b \<and> length b = 32)" for s
    by (auto simp: stratum_prev_hash_def)
  have L: "?L \<longleftrightarrow> (\<exists>cb off. build_coinbase C (g_height gbt) (g_coinbase_value gbt) address tag en1 en2
        (g_default_witness_commitment gbt) = Ok (cb, off))
      \<and> (\<exists>ids. omapM (decode_txid C) (g_transactions gbt) = Ok ids)
      \<and> (\<exists>h. stratum_prev_hash C (g_prev_hash gbt) = Ok h) \<and> (\<exists>t. bits_to_target (g_bits gbt) = Ok t)"
    (is "_ \<longleftrightarrow> ?M")
  proof
    show ?M if ?L using that by (auto simp: build_job_def Let_def split: prod.splits if_splits)
    show ?L if M: ?M
    proof -
      from M obtain cb off ids h t where
        c: "build_coinbase C (g_height gbt) (g_coinbase_value gbt) address tag en1 en2
        (g_default_witness_commitment gbt) = Ok (cb, off)"
        "omapM (decode_txid C) (g_transactions gbt) = Ok ids" 
         "stratum_prev_hash C (g_prev_hash gbt) = Ok h" "bits_to_target (g_bits gbt) = Ok t" by blast
      from m obtain br where "compute_merkle_branch_raw (sha256 C) ids = Ok br" by blast
      with c fits [OF c(1)] show ?L by (simp add: build_job_def Let_def split_beta)
    qed
  qed
  show ?thesis unfolding L cb template_ok_def omapM_decode_txid p by blast
qed

lemma build_job_not_Panic:
  assumes "serialize_ok C" and "utf8_valid tag" and "unat (g_height gbt) < 2 ^ 31"
    and "length tag + en1 + en2 \<le> 65000"
  shows "fst (build_job C millis counter gbt address tag en1 en2) \<noteq> Panic"
proof -
  have c: "build_coinbase C (g_height gbt) r address tag en1 en2 (g_default_witness_commitment gbt) \<noteq> Panic" for r
    unfolding build_coinbase_layout [OF assms]
    by (auto simp: address_to_script_def obind_Panic_iff Let_def build_not_Panic)
  show ?thesis
    by (auto simp: build_job_def Let_def split_beta obind_Panic_iff c build_not_Panic not_less
        dest!: build_coinbase_fits [OF assms])
qed

lemma build_job_fields:
  assumes "fst (build_job C millis counter gbt address tag en1 en2) = Ok job"
  obtains ids where "omapM (decode_txid C) (g_transactions gbt) = Ok ids"
    "compute_merkle_branch_raw (sha256 C) ids = Ok (j_merkle_branch_raw job)"
    "stratum_prev_hash C (g_prev_hash gbt) = Ok (j_prev_hash job)"
    "bits_to_target (g_bits gbt) = Ok (j_network_target job)"
    "j_bits job = g_bits gbt" "j_job_id job = fst (next_job_id millis counter)"
    "j_extranonce1_len job = en1" "j_extranonce2_len job = en2"
    "j_version job = g_version gbt" "j_cur_time job = g_cur_time gbt" "j_min_time job = g_min_time gbt"
    "j_transactions job = map gt_data (g_transactions gbt)" "j_height job = g_height gbt"
  using assms by (auto simp: build_job_def Let_def split: prod.splits if_splits)


section \<open>Properties\<close>

text \<open>A template and settings on which the statements below are instantiated.\<close>

definition sample_gbt :: gbt_result where
  "sample_gbt = \<lparr>g_version = 0x20000000,
     g_prev_hash = hex_encode sample_crates (replicate 28 0 @ [0xDE, 0xAD, 0xBE, 0xEF]),
     g_bits = fmt_hex 8 0x1d00ffff, g_cur_time = 1700000000, g_min_time = 1699990000,
     g_height = 840000, g_coinbase_value = 312500000,
     g_transactions = [\<lparr>gt_data = [1, 2, 3], gt_txid = hex_encode sample_crates (replicate 32 0xAA),
       gt_hash = replicate 64 (CHR ''b''), gt_fee = 1000, gt_weight = 400\<rparr>],
     g_longpoll_id = None, g_default_witness_commitment = Some (hex_encode sample_crates [0x6A, 0x24, 0xAA, 0x21]),
     g_rules = [''segwit'']\<rparr>"

definition sample_tag :: bytes where
  "sample_tag = [0x2f, 0x73, 0x6f, 0x6c, 0x6f, 0x2f]"

lemma sample_template_ok: "template_ok sample_crates sample_gbt ''bc1q''"
proof -
  have u: "u32_from_hex (fmt_hex 8 0x1d00ffff) = Some 0x1d00ffff"
    using u32_from_hex_fmt [of "0x1d00ffff"] by simp
  have "compact_exponent 0x1d00ffff \<le> 32" by (simp add: compact_exponent_def)
  then have "\<exists>t. bits_to_target (g_bits sample_gbt) = Ok t"
    using compact_to_target_value [of "0x1d00ffff"]
    by (auto simp: bits_to_target_def sample_gbt_def of_opt_def u)
  moreover have "hex_decode sample_crates (hex_encode sample_crates b) = Some b" for b
    using sample_crates_ok(2) by (simp add: hex_ok_def)
  moreover have "address_script sample_crates ''bc1q'' \<noteq> None" by (simp add: sample_crates_def)
  ultimately show ?thesis by (simp add: template_ok_def sample_gbt_def)
qed

lemma sample_build_hyps:
  "utf8_valid sample_tag" "unat (g_height sample_gbt) < 2 ^ 31"
  "length sample_tag + 4 + 8 \<le> 65000"
proof -
  show "utf8_valid sample_tag" by code_simp
qed (simp_all add: sample_gbt_def sample_tag_def)

lemma sample_job_built:
  "\<exists>job. fst (build_job sample_crates 5 7 sample_gbt ''bc1q'' sample_tag 4 8) = Ok job"
  using build_job_Ok_iff [OF _ sample_build_hyps, of sample_crates 5 7 "''bc1q''"] sample_template_ok
  by simp

text \<open>
  C6: Every job the pool builds has a coinbase template into which the extranonce bytes of a
  share are spliced so that the result is the wire encoding of one well-formed coinbase
  transaction: its scriptSig is the height push, the tag, and the two extranonce parts back to
  back, its first output pays the whole block reward to the script of the configured address,
  and the witness commitment follows. It is also the concatenation
  \<open>coinbase1 @ extranonce1 @ extranonce2 @ coinbase2\<close> that miners hash.
\<close>

theorem assembled_coinbase_is_transaction:
  assumes "serialize_ok C" and "utf8_valid tag" and "unat (g_height gbt) < 2 ^ 31"
    and "length tag + en1 + en2 \<le> 65000"
    and "fst (build_job C millis counter gbt address tag en1 en2) = Ok job"
    and "length x1 + length x2 = en1 + en2"
  shows "\<exists>reward_script wc_outputs.
     address_script C address = Some reward_script
     \<and> witness_outputs C (g_default_witness_commitment gbt) = Ok wc_outputs
     \<and> assemble_coinbase job x1 x2 = Ok (j_coinbase1 job @ x1 @ x2 @ j_coinbase2 job)
     \<and> j_coinbase1 job @ x1 @ x2 @ j_coinbase2 job
         = legacy_tx_bytes (coinbase_tx (coinbase_script (g_height gbt) tag (x1 @ x2))
             (\<lparr>to_value = g_coinbase_value gbt, to_script_pubkey = reward_script\<rparr> # wc_outputs))"
  using build_job_coinbase [OF assms(1-5)] assms(6) by metis

theorem assembled_coinbase_witness:
  "\<exists>job. fst (build_job sample_crates 5 7 sample_gbt ''bc1q'' sample_tag 4 8) = Ok job
     \<and> assemble_coinbase job (replicate 4 1) (replicate 8 2)
         = Ok (j_coinbase1 job @ replicate 4 1 @ replicate 8 2 @ j_coinbase2 job)"
proof -
  obtain job where j: "fst (build_job sample_crates 5 7 sample_gbt ''bc1q'' sample_tag 4 8) = Ok job"
    using sample_job_built by auto
  then show ?thesis
    using assembled_coinbase_is_transaction
      [OF _ sample_build_hyps j, of "replicate 4 1" "replicate 8 2"] by auto
qed

text \<open>
  C8: A template makes a job exactly when its hexadecimal fields decode to the widths the block
  format needs, its compact target is representable and the payout address parses. On every
  other template the builder returns an error; it never panics.
\<close>

theorem build_job_succeeds_iff:
  assumes "serialize_ok C" and "utf8_valid tag" and "unat (g_height gbt) < 2 ^ 31"
    and "length tag + en1 + en2 \<le> 65000"
  shows "((\<exists>job. fst (build_job C millis counter gbt address tag en1 en2) = Ok job)
            \<longleftrightarrow> template_ok C gbt address)
         \<and> fst (build_job C millis counter gbt address tag en1 en2) \<noteq> Panic"
  using build_job_Ok_iff [OF assms] build_job_not_Panic [OF assms] by blast

theorem build_job_succeeds_witness:
  "\<exists>job. fst (build_job sample_crates 5 7 sample_gbt ''bc1q'' sample_tag 4 8) = Ok job"
  using build_job_succeeds_iff [OF _ sample_build_hyps, of sample_crates 5 7 "''bc1q''"]
    sample_template_ok by simp

text \<open>
  C7: For every coinbase a miner completes, folding it with the job's merkle branch gives the
  merkle root of the block: the tree over the coinbase's hash followed by all transaction ids
  of the template, in internal byte order.
\<close>

theorem share_merkle_root_is_block_root:
  assumes "fst (build_job C millis counter gbt address tag en1 en2) = Ok job"
  shows "\<exists>ids. list_all2 (\<lambda>tx id. hex_decode C (gt_txid tx) = Some (rev id) \<and> length id = 32)
             (g_transactions gbt) ids
     \<and> merkle_root C job coinbase = tree_root (sha256 C) (double_sha256 (sha256 C) coinbase # ids)"
proof -
  obtain ids where ids: "omapM (decode_txid C) (g_transactions gbt) = Ok ids"
    "compute_merkle_branch_raw (sha256 C) ids = Ok (j_merkle_branch_raw job)"
    using assms by (rule build_job_fields)
  then have "merkle_root C job coinbase = tree_root (sha256 C) (double_sha256 (sha256 C) coinbase # ids)"
    using merkle_branch_root [of "sha256 C" ids "double_sha256 (sha256 C) coinbase"]
    by (simp add: merkle_root_def)
  then show ?thesis using decode_txids_value [OF ids(1)] by blast
qed

theorem share_merkle_root_witness:
  "\<exists>job. fst (build_job sample_crates 5 7 sample_gbt ''bc1q'' sample_tag 4 8) = Ok job
     \<and> (\<exists>ids. length ids = 1 \<and> merkle_root sample_crates job [1, 2]
          = tree_root (sha256 sample_crates) (double_sha256 (sha256 sample_crates) [1, 2] # ids))"
proof -
  obtain job where j: "fst (build_job sample_crates 5 7 sample_gbt ''bc1q'' sample_tag 4 8) = Ok job"
    using sample_job_built by auto
  then obtain ids where
    "list_all2 (\<lambda>tx id. hex_decode sample_crates (gt_txid tx) = Some (rev id) \<and> length id = 32)
       (g_transactions sample_gbt) ids"
    "merkle_root sample_crates job [1, 2]
       = tree_root (sha256 sample_crates) (double_sha256 (sha256 sample_crates) [1, 2] # ids)"
    using share_merkle_root_is_block_root [OF j, of "[1, 2]"] by blast
  moreover have "length (g_transactions sample_gbt) = 1" by (simp add: sample_gbt_def)
  ultimately have "length ids = 1" by (simp add: list_all2_lengthD [symmetric])
  then show ?thesis using j \<open>merkle_root sample_crates job [1, 2] = _\<close> by blast
qed

text \<open>
  Job ids. Two calls of \<open>next_job_id\<close> give the same id only when they were made in the same
  epoch (the process start, in milliseconds modulo \<open>2 ^ 32\<close>) with sequence numbers that agree
  modulo \<open>2 ^ 32\<close>, and every call advances the sequence by one: within one process no id
  repeats before \<open>2 ^ 32\<close> jobs were built.
\<close>

theorem job_ids_unique:
  "(fst (next_job_id m c) = fst (next_job_id m' c') \<longleftrightarrow>
     unat m mod 2 ^ 32 = unat m' mod 2 ^ 32 \<and> unat c mod 2 ^ 32 = unat c' mod 2 ^ 32)
   \<and> snd (next_job_id m c) = c + 1 \<and> length (fst (next_job_id m c)) = 16"
  using next_job_id_eq_iff [of m c m' c'] by (simp add: next_job_id_def Let_def)

text \<open>
  The height push at the start of the coinbase scriptSig reads back as the block height for
  every height, in all three forms (the two opcode forms and the minimal data push), and leaves
  exactly the bytes that follow it.
\<close>

theorem bip34_height_roundtrip:
  "read_height (encode_bip34_height height @ rest) = Some (unat height, rest)"
  by (rule read_height_encode)

end
