(* ===== verification/Validator.thy ===== *)
theory Validator
  imports Template
begin

text \<open>
  \<^verbatim>\<open>src/src/mining/validator.rs\<close>: the duplicate-share tracker and the validation of one
  share. A share names a job and carries an extranonce, a time, a nonce and possibly
  version bits; validation rebuilds the 80-byte header, hashes it and compares the hash
  with the network target and then with the session's share target. The lemmas give the
  header field by field, the outcome of every branch, and the contents of the block that
  is handed to the node.
\<close>

section \<open>Duplicate tracking\<close>

type_synonym share_key = bytes

record share_set =
  ss_seen :: "share_key set"
  ss_order :: "share_key list"
  ss_max_size :: nat

definition ShareSet_new :: share_set where
  "ShareSet_new = \<lparr>ss_seen = {}, ss_order = [], ss_max_size = 4096\<rparr>"

definition ShareSet_contains :: "share_set \<Rightarrow> share_key \<Rightarrow> bool" where
  "ShareSet_contains s key \<longleftrightarrow> key \<in> ss_seen s"

definition ShareSet_insert :: "share_set \<Rightarrow> share_key \<Rightarrow> share_set" where
  "ShareSet_insert s key =
     (if key \<in> ss_seen s then s
      else
        let s1 = (if ss_max_size s \<le> card (ss_seen s)
                  then (case ss_order s of
                          [] \<Rightarrow> s
                        | oldest # rest \<Rightarrow> s\<lparr>ss_order := rest, ss_seen := ss_seen s - {oldest}\<rparr>)
                  else s)
        in s1\<lparr>ss_order := ss_order s1 @ [key], ss_seen := insert key (ss_seen s1)\<rparr>)"

definition ShareSet_clear :: "share_set \<Rightarrow> share_set" where
  "ShareSet_clear s = s\<lparr>ss_seen := {}, ss_order := []\<rparr>"

section \<open>Shares\<close>

record share_params =
  sp_worker :: string
  sp_job_id :: string
  sp_extranonce2 :: bytes
  sp_ntime :: u32
  sp_nonce :: u32
  sp_version_bits :: "u32 option"
  sp_version_rolling_mask :: "u32 option"

datatype share_result =
    Valid (assigned_difficulty: u64) (hash_difficulty: u64) (share_hash: bytes)
  | Block (hash_difficulty: u64) (block_hex: string) (share_hash: bytes)

text \<open>The entry of the engine's job history a share is validated against.\<close>

record job_entry =
  je_job :: stratum_job
  je_created_at :: nat
  je_clean :: bool
  je_superseded_by_clean :: bool

text \<open>Applied to the outcome of a validation; a panic of the validation never reaches it.\<close>

fun ShareSet_dedup :: "share_set \<Rightarrow> share_result result \<Rightarrow> share_result result \<times> share_set" where
  "ShareSet_dedup s (Ok res) =
     (if ShareSet_contains s (share_hash res) then (Err DuplicateShare, s)
      else (Ok res, ShareSet_insert s (share_hash res)))"
| "ShareSet_dedup s (Err e) = (Err e, s)"
| "ShareSet_dedup s Panic = (Panic, s)"

section \<open>Validation\<close>

definition VERSION_ROLLING_MASK :: u32 where
  "VERSION_ROLLING_MASK = 0x1FFFE000"

definition check_ntime :: "u32 \<Rightarrow> u32 \<Rightarrow> u32 \<Rightarrow> unit result" where
  "check_ntime ntime min_time cur_time =
     (let ceiling = sat_add cur_time 7200
      in if ntime < min_time \<or> ntime > ceiling
         then Err (InvalidParams ''mining.submit''
           (''ntime out of range: submitted='' @ fmt_dec (unat ntime)
            @ '' allowed='' @ fmt_dec (unat min_time) @ ''..='' @ fmt_dec (unat ceiling)
            @ '' (template mintime='' @ fmt_dec (unat min_time)
            @ '' curtime='' @ fmt_dec (unat cur_time) @ '')''))
         else Ok ())"

definition hash_display_hex :: "crates \<Rightarrow> bytes \<Rightarrow> string" where
  "hash_display_hex C hash = hex_encode C (rev hash)"

definition resolve_version :: "u32 \<Rightarrow> u32 option \<Rightarrow> u32 option \<Rightarrow> u32 result" where
  "resolve_version base_version rolling_bits negotiated_mask =
     (let mask = (case negotiated_mask of None \<Rightarrow> VERSION_ROLLING_MASK | Some m \<Rightarrow> m)
      in case rolling_bits of
           Some bits \<Rightarrow>
             if bits AND NOT mask \<noteq> 0
             then Err (InvalidParams ''mining.submit''
               (''version bits outside negotiated mask: bits='' @ fmt_hex 8 (unat bits)
                @ '' mask='' @ fmt_hex 8 (unat mask)))
             else Ok ((base_version AND NOT mask) OR (bits AND mask))
         | None \<Rightarrow> Ok base_version)"

definition build_header ::
  "crates \<Rightarrow> u32 \<Rightarrow> string \<Rightarrow> bytes \<Rightarrow> u32 \<Rightarrow> string \<Rightarrow> u32 \<Rightarrow> bytes result" where
  "build_header C version prev_hash mroot ntime bits_hex nonce =
     obind (copy_range 0 4 (u32_to_le_bytes version) (replicate 80 0)) (\<lambda>header.
     obind (of_opt InvalidHeader (hex_decode C prev_hash)) (\<lambda>prev_bytes.
     obind (copy_range 4 36 (rev_words prev_bytes) header) (\<lambda>header.
     obind (copy_range 36 68 mroot header) (\<lambda>header.
     obind (copy_range 68 72 (u32_to_le_bytes ntime) header) (\<lambda>header.
     obind (of_opt InvalidHeader (u32_from_hex bits_hex)) (\<lambda>bits.
     obind (copy_range 72 76 (u32_to_le_bytes bits) header) (\<lambda>header.
       copy_range 76 80 (u32_to_le_bytes nonce) header)))))))"

definition encode_varint :: "u64 \<Rightarrow> bytes" where
  "encode_varint n =
     (if n < 0xfd then [ucast n]
      else if n \<le> 0xffff then 0xfd # u16_to_le_bytes (ucast n)
      else if n \<le> 0xffffffff then 0xfe # u32_to_le_bytes (ucast n)
      else 0xff # u64_to_le_bytes n)"

definition assemble_block_hex :: "crates \<Rightarrow> bytes \<Rightarrow> bytes \<Rightarrow> bytes list \<Rightarrow> string" where
  "assemble_block_hex C header coinbase transactions =
     (let tx_count = 1 + length transactions
      in hex_encode C (header @ encode_varint (of_nat tx_count) @ coinbase @ concat transactions))"

definition validate_share_no_dedup ::
  "crates \<Rightarrow> share_params \<Rightarrow> stratum_job \<Rightarrow> job_entry \<Rightarrow> bytes \<Rightarrow> u64 \<Rightarrow> share_result result" where
  "validate_share_no_dedup C params job entry extranonce1 session_difficulty =
     (if je_superseded_by_clean entry then Err (StaleJob (sp_job_id params))
      else
        obind (check_ntime (sp_ntime params) (j_min_time job) (j_cur_time job)) (\<lambda>_.
        obind (assemble_coinbase job extranonce1 (sp_extranonce2 params)) (\<lambda>coinbase.
          let mroot = merkle_root C job coinbase
          in obind (resolve_version (j_version job) (sp_version_bits params)
                      (sp_version_rolling_mask params)) (\<lambda>version.
             obind (build_header C version (j_prev_hash job) mroot (sp_ntime params) (j_bits job)
                      (sp_nonce params)) (\<lambda>header.
               let hash = double_sha256 (sha256 C) header;
                   difficulty = hash_to_difficulty hash
               in if meets_target hash (j_network_target job)
                  then Ok (Block difficulty
                         (assemble_block_hex C header coinbase (j_transactions job)) hash)
                  else
                    let share_target = difficulty_to_target session_difficulty
                    in if \<not> meets_target hash share_target then Err LowDifficulty
                       else Ok (Valid session_difficulty difficulty hash))))))"

section \<open>Lemmas on duplicate tracking\<close>

text \<open>
  The contract of a tracker that remembers a window of recently accepted keys: \<open>window s\<close> lists
  them oldest first, at most \<open>cap\<close> of them; inserting a new key appends it and drops the oldest
  when the window is full.
\<close>

locale recent_keys =
  fixes inv :: "'s \<Rightarrow> bool" and window :: "'s \<Rightarrow> 'k list" and contains :: "'s \<Rightarrow> 'k \<Rightarrow> bool"
    and ins :: "'s \<Rightarrow> 'k \<Rightarrow> 's" and cap :: nat
  assumes contains_window: "inv s \<Longrightarrow> contains s k \<longleftrightarrow> k \<in> set (window s)"
    and window_ins: "inv s \<Longrightarrow> \<not> contains s k \<Longrightarrow>
      window (ins s k) = drop (length (window s) + 1 - cap) (window s @ [k])"
    and inv_ins: "inv s \<Longrightarrow> inv (ins s k)"
    and window_bound: "inv s \<Longrightarrow> length (window s) \<le> cap"
    and cap_pos: "0 < cap"
begin

text \<open>Offer a sequence of keys, accepting those not in the window.\<close>

primrec accept_run :: "'s \<Rightarrow> 'k list \<Rightarrow> 'k list \<times> 's" where
  "accept_run s [] = ([], s)"
| "accept_run s (k # ks) =
     (if contains s k then accept_run s ks
      else let (acc, s') = accept_run (ins s k) ks in (k # acc, s'))"

definition recent :: "'k list \<Rightarrow> 'k list" where
  "recent hist = drop (length hist - cap) hist"

definition spread :: "'k list \<Rightarrow> bool" where
  "spread hist \<longleftrightarrow> (\<forall>j < length hist. \<forall>i < j. hist ! i = hist ! j \<longrightarrow> cap < j - i)"

lemma spread_snoc:
  assumes "spread hist" and "k \<notin> set (recent hist)"
  shows "spread (hist @ [k])"
proof -
  have "cap < length hist - i" if "i < length hist" "hist ! i = k" for i
  proof (rule ccontr)
    assume "\<not> cap < length hist - i"
    then have "recent hist ! (i - (length hist - cap)) = k" "i - (length hist - cap) < length (recent hist)"
      using that by (auto simp: recent_def)
    then show False using assms(2) nth_mem by metis
  qed
  then show ?thesis using assms(1) by (auto simp: spread_def nth_append less_Suc_eq)
qed

lemma recent_snoc:
  "drop (length (recent hist) + 1 - cap) (recent hist @ [k]) = recent (hist @ [k])"
  using cap_pos by (cases "length hist < cap") (simp_all add: recent_def Suc_diff_le)

text \<open>
  Started on a history, the tracker's window stays the recent part of it, and a key is
  accepted again only after more than \<open>cap\<close> acceptances.
\<close>

lemma accept_run_history:
  "inv s \<Longrightarrow> window s = recent hist \<Longrightarrow> spread hist \<Longrightarrow> accept_run s ks = (acc, s') \<Longrightarrow>
     inv s' \<and> window s' = recent (hist @ acc) \<and> spread (hist @ acc)"
proof (induction ks arbitrary: s hist acc)
  case (Cons k ks)
  show ?case
  proof (cases "contains s k")
    case True
    then show ?thesis using Cons by simp
  next
    case False
    then obtain acc1 where a: "accept_run (ins s k) ks = (acc1, s')" "acc = k # acc1"
      using Cons.prems(4) by (auto split: prod.splits)
    have "window (ins s k) = recent (hist @ [k])"
      using window_ins [OF Cons.prems(1) False] Cons.prems(2) recent_snoc by simp
    moreover have "spread (hist @ [k])"
      using spread_snoc Cons.prems False contains_window by metis
    ultimately show ?thesis
      using Cons.IH [OF inv_ins [OF Cons.prems(1)] _ _ a(1)] a(2) by fastforce
  qed
qed simp

end

definition share_set_ok :: "nat \<Rightarrow> share_set \<Rightarrow> bool" where
  "share_set_ok cap s \<longleftrightarrow> ss_seen s = set (ss_order s) \<and> distinct (ss_order s)
     \<and> length (ss_order s) \<le> cap \<and> ss_max_size s = cap"

lemma share_set_card: "share_set_ok cap s \<Longrightarrow> card (ss_seen s) = length (ss_order s)"
  by (simp add: share_set_ok_def distinct_card)

lemma ShareSet_insert_order:
  assumes "share_set_ok cap s" and "0 < cap" and "key \<notin> ss_seen s"
  shows "share_set_ok cap (ShareSet_insert s key)
     \<and> ss_order (ShareSet_insert s key) = drop (length (ss_order s) + 1 - cap) (ss_order s @ [key])"
proof (cases "length (ss_order s) < cap")
  case True
  then show ?thesis
    using assms share_set_card [OF assms(1)] by (auto simp: ShareSet_insert_def share_set_ok_def Let_def)
next
  case False
  then obtain x rest where o: "ss_order s = x # rest" "length (ss_order s) = cap"
    using assms by (cases "ss_order s") (auto simp: share_set_ok_def)
  then show ?thesis
    using assms share_set_card [OF assms(1)] by (auto simp: ShareSet_insert_def share_set_ok_def Let_def)
qed

lemma ShareSet_insert_ok: "share_set_ok cap s \<Longrightarrow> 0 < cap \<Longrightarrow> share_set_ok cap (ShareSet_insert s key)"
  using ShareSet_insert_order [of cap s key] by (cases "key \<in> ss_seen s") (auto simp: ShareSet_insert_def)

lemma ShareSet_new_ok: "share_set_ok 4096 ShareSet_new"
  by (simp add: share_set_ok_def ShareSet_new_def)

lemma ShareSet_clear_ok: "share_set_ok cap s \<Longrightarrow> share_set_ok cap (ShareSet_clear s)"
  by (simp add: share_set_ok_def ShareSet_clear_def)

interpretation tracker: recent_keys "share_set_ok 4096" ss_order ShareSet_contains ShareSet_insert 4096
proof unfold_locales
  fix s k
  assume s: "share_set_ok 4096 s"
  show "ShareSet_contains s k \<longleftrightarrow> k \<in> set (ss_order s)"
    using s by (simp add: ShareSet_contains_def share_set_ok_def)
  show "share_set_ok 4096 (ShareSet_insert s k)" using s by (simp add: ShareSet_insert_ok)
  show "length (ss_order s) \<le> 4096" using s by (simp add: share_set_ok_def)
  show "ss_order (ShareSet_insert s k) = drop (length (ss_order s) + 1 - 4096) (ss_order s @ [k])"
    if "\<not> ShareSet_contains s k"
    using ShareSet_insert_order [OF s] that by (simp add: ShareSet_contains_def)
qed simp

text \<open>The outcomes of a sequence of validations, passed through the tracker one after the other.\<close>

primrec dedup_run :: "share_set \<Rightarrow> share_result result list \<Rightarrow> share_result result list \<times> share_set" where
  "dedup_run s [] = ([], s)"
| "dedup_run s (r # rs) =
     (let (r', s1) = ShareSet_dedup s r; (rs', s2) = dedup_run s1 rs in (r' # rs', s2))"

fun ok_hashes :: "share_result result list \<Rightarrow> share_key list" where
  "ok_hashes [] = []"
| "ok_hashes (Ok res # rs) = share_hash res # ok_hashes rs"
| "ok_hashes (_ # rs) = ok_hashes rs"

lemma dedup_run_accepts:
  "dedup_run s rs = (outs, s') \<Longrightarrow> tracker.accept_run s (ok_hashes rs) = (ok_hashes outs, s')"
proof (induction rs arbitrary: s outs)
  case (Cons r rs)
  show ?case
  proof (cases r)
    case (Ok res)
    then show ?thesis using Cons by (auto split: prod.splits if_splits)
  qed (use Cons in \<open>auto split: prod.splits\<close>)
qed simp

section \<open>Lemmas on headers and blocks\<close>

lemma le_bytes_ucast:
  "8 * n \<le> LENGTH('b) \<Longrightarrow> 8 * n \<le> LENGTH('a) \<Longrightarrow>
     le_bytes n (ucast (w :: 'a::len word) :: 'b::len word) = le_bytes n w"
proof (rule le_val_inj)
  assume "8 * n \<le> LENGTH('b)" "8 * n \<le> LENGTH('a)"
  then have "(2::nat) ^ (8 * n) dvd 2 ^ LENGTH('b)" by (intro le_imp_power_dvd)
  then have "(256::nat) ^ n dvd 2 ^ LENGTH('b)" by (simp add: power_mult)
  then show "le_val (le_bytes n (ucast w :: 'b word)) = le_val (le_bytes n w)"
    by (simp add: le_val_le_bytes unsigned_ucast_eq take_bit_eq_mod mod_mod_cancel)
qed simp

lemma encode_varint_unat: "encode_varint w = compact_size (unat w)"
proof -
  have b: "(ucast w :: byte) = of_nat (unat w)" by (simp add: of_nat_unat)
  have l: "le_bytes 2 (ucast w :: u16) = le_bytes 2 w" "le_bytes 4 (ucast w :: u32) = le_bytes 4 w"
    by (rule le_bytes_ucast; simp)+
  have w: "(of_nat (unat w) :: u64) = w" by simp
  have c: "w < 0xfd \<longleftrightarrow> unat w < 0xfd" "w \<le> 0xffff \<longleftrightarrow> unat w \<le> 0xffff" "w \<le> 0xffffffff \<longleftrightarrow> unat w \<le> 0xffffffff"
    by (simp_all add: word_less_nat_alt word_le_nat_alt)
  show ?thesis
    unfolding encode_varint_def compact_size_def c u16_to_le_bytes_def u32_to_le_bytes_def
      u64_to_le_bytes_def l b w ..
qed

lemma encode_varint_compact_size: "n < 2 ^ 64 \<Longrightarrow> encode_varint (of_nat n) = compact_size n"
  unfolding encode_varint_unat unat_of_nat by simp

lemma copy_range_append:
  "length P = lo \<Longrightarrow> length src = hi - lo \<Longrightarrow> lo \<le> hi \<Longrightarrow> hi - lo \<le> n \<Longrightarrow>
     copy_range lo hi src (P @ replicate n 0) = Ok ((P @ src) @ replicate (n - (hi - lo)) 0)"
  by (auto simp: copy_range_def)

text \<open>The header as a concatenation of its six fields.\<close>

definition header_bytes :: "u32 \<Rightarrow> bytes \<Rightarrow> bytes \<Rightarrow> u32 \<Rightarrow> u32 \<Rightarrow> u32 \<Rightarrow> bytes" where
  "header_bytes version prev mroot ntime bits nonce =
     u32_to_le_bytes version @ prev @ mroot @ u32_to_le_bytes ntime @ u32_to_le_bytes bits
       @ u32_to_le_bytes nonce"

lemma length_header_bytes:
  "length prev = 32 \<Longrightarrow> length mroot = 32 \<Longrightarrow> length (header_bytes v prev mroot t b n) = 80"
  by (simp add: header_bytes_def)

lemma build_header_ok:
  assumes "hex_decode C prev_hash = Some prev" and "length prev = 32" and "length mroot = 32"
    and "u32_from_hex bits_hex = Some bits"
  shows "build_header C version prev_hash mroot ntime bits_hex nonce
           = Ok (header_bytes version (rev_words prev) mroot ntime bits nonce)"
proof -
  note step = copy_range_append
  have s0: "copy_range 0 4 (u32_to_le_bytes version) (replicate 80 0)
      = (Ok (u32_to_le_bytes version @ replicate 76 0) :: bytes result)"
    using step [of "[]" 0 "u32_to_le_bytes version" 4 80] by simp
  define h1 where "h1 = u32_to_le_bytes version"
  define h2 where "h2 = h1 @ rev_words prev"
  define h3 where "h3 = h2 @ mroot"
  define h4 where "h4 = h3 @ u32_to_le_bytes ntime"
  define h5 where "h5 = h4 @ u32_to_le_bytes bits"
  have l: "length h1 = 4" "length h2 = 36" "length h3 = 68" "length h4 = 72" "length h5 = 76"
    using assms by (simp_all add: h1_def h2_def h3_def h4_def h5_def)
  have "copy_range 4 36 (rev_words prev) (h1 @ replicate 76 0) = (Ok (h2 @ replicate 44 0) :: bytes result)"
    using step [of h1 4 "rev_words prev" 36 76] l assms by (simp add: h2_def)
  moreover have "copy_range 36 68 mroot (h2 @ replicate 44 0) = (Ok (h3 @ replicate 12 0) :: bytes result)"
    using step [of h2 36 mroot 68 44] l assms by (simp add: h3_def)
  moreover have "copy_range 68 72 (u32_to_le_bytes ntime) (h3 @ replicate 12 0)
      = (Ok (h4 @ replicate 8 0) :: bytes result)"
    using step [of h3 68 "u32_to_le_bytes ntime" 72 12] l by (simp add: h4_def)
  moreover have "copy_range 72 76 (u32_to_le_bytes bits) (h4 @ replicate 8 0)
      = (Ok (h5 @ replicate 4 0) :: bytes result)"
    using step [of h4 72 "u32_to_le_bytes bits" 76 8] l by (simp add: h5_def)
  moreover have "copy_range 76 80 (u32_to_le_bytes nonce) (h5 @ replicate 4 0)
      = (Ok (h5 @ u32_to_le_bytes nonce) :: bytes result)"
    using step [of h5 76 "u32_to_le_bytes nonce" 80 4] l by simp
  ultimately show ?thesis
    using assms(1,4) s0 by (simp add: build_header_def of_opt_def header_bytes_def flip: h1_def)
      (simp add: h1_def h2_def h3_def h4_def h5_def)
qed

lemma length_double_sha256: "sha256_ok C \<Longrightarrow> length (double_sha256 (sha256 C) x) = 32"
  by (simp add: sha256_ok_def double_sha256_def)

lemma length_merkle_fold:
  "sha256_ok C \<Longrightarrow> length h = 32 \<Longrightarrow> length (merkle_fold (sha256 C) h br) = 32"
  by (induction br arbitrary: h) (simp_all add: length_double_sha256)

lemma length_merkle_root: "sha256_ok C \<Longrightarrow> length (merkle_root C job cb) = 32"
  by (simp add: merkle_root_def length_merkle_fold length_double_sha256)

lemma stratum_prev_hash_inverse:
  assumes "hex_ok C" and "stratum_prev_hash C core_hex = Ok s"
  shows "\<exists>p prev. hex_decode C core_hex = Some p \<and> hex_decode C s = Some prev
     \<and> length prev = 32 \<and> rev_words prev = rev p"
  using assms by (auto simp: stratum_prev_hash_def hex_ok_def split: if_splits)

lemma check_ntime_Ok_iff:
  "check_ntime ntime min_time cur_time = Ok () \<longleftrightarrow>
     unat min_time \<le> unat ntime \<and> unat ntime \<le> unat cur_time + 7200"
proof -
  have "unat ntime < 2 ^ 32" using unat_lt [of ntime] by simp
  then show ?thesis
    by (auto simp: check_ntime_def Let_def word_less_nat_alt unat_sat_add not_less)
qed

lemma check_ntime_Err:
  "check_ntime ntime min_time cur_time \<noteq> Ok () \<Longrightarrow>
     \<exists>detail. check_ntime ntime min_time cur_time = Err (InvalidParams ''mining.submit'' detail)"
  by (auto simp: check_ntime_def Let_def split: if_splits)

lemma resolve_version_Err:
  "resolve_version base bits msk = Err e \<Longrightarrow> \<exists>detail. e = InvalidParams ''mining.submit'' detail"
  by (auto simp: resolve_version_def Let_def split: option.splits if_splits)

lemma resolve_version_not_Panic: "resolve_version base bits msk \<noteq> Panic"
  by (simp add: resolve_version_def Let_def split: option.splits)


lemma meets_share_target:
  "length h = 32 \<Longrightarrow> meets_target h (difficulty_to_target d) \<longleftrightarrow> le_val h * max 1 (unat d) \<le> diff1_value"
  by (simp add: meets_target_value difficulty_to_target_value less_eq_div_iff_mult_less_eq)

text \<open>What validation returns on a job the pool built.\<close>

definition share_outcome ::
  "crates \<Rightarrow> share_params \<Rightarrow> stratum_job \<Rightarrow> bool \<Rightarrow> bytes \<Rightarrow> bytes \<Rightarrow> u32 \<Rightarrow> u64 \<Rightarrow> share_result result" where
  "share_outcome C params job superseded cb prev bits d =
     (if superseded then Err (StaleJob (sp_job_id params))
      else
        obind (check_ntime (sp_ntime params) (j_min_time job) (j_cur_time job)) (\<lambda>_.
        obind (resolve_version (j_version job) (sp_version_bits params) (sp_version_rolling_mask params))
          (\<lambda>version.
            let header = header_bytes version (rev prev) (merkle_root C job cb) (sp_ntime params) bits
                           (sp_nonce params);
                hash = double_sha256 (sha256 C) header
            in if le_val hash \<le> compact_value bits
               then Ok (Block (hash_to_difficulty hash)
                      (hex_encode C (header @ compact_size (1 + length (j_transactions job)) @ cb
                         @ concat (j_transactions job))) hash)
               else if le_val hash * max 1 (unat d) \<le> diff1_value
               then Ok (Valid d (hash_to_difficulty hash) hash)
               else Err LowDifficulty)))"

lemma build_job_header_fields:
  assumes "hex_ok C" and "fst (build_job C millis counter gbt address tag en1 en2) = Ok job"
  obtains prev s bits where
    "hex_decode C (g_prev_hash gbt) = Some prev" "length prev = 32"
    "hex_decode C (j_prev_hash job) = Some s" "length s = 32" "rev_words s = rev prev"
    "u32_from_hex (g_bits gbt) = Some bits" "j_bits job = g_bits gbt"
    "length (j_network_target job) = 32" "be_val (j_network_target job) = compact_value bits"
proof -
  have p: "stratum_prev_hash C (g_prev_hash gbt) = Ok (j_prev_hash job)"
    and b: "bits_to_target (g_bits gbt) = Ok (j_network_target job)" and jb: "j_bits job = g_bits gbt"
    using assms(2) by (auto elim: build_job_fields)
  obtain prev s where ps: "hex_decode C (g_prev_hash gbt) = Some prev"
    "hex_decode C (j_prev_hash job) = Some s" "length s = 32" "rev_words s = rev prev"
    using stratum_prev_hash_inverse [OF assms(1) p] by blast
  then have "length prev = 32" by (metis length_rev length_rev_words)
  obtain bits where bits: "u32_from_hex (g_bits gbt) = Some bits"
    "compact_to_target bits = Ok (j_network_target job)"
    using b by (auto simp: bits_to_target_def)
  then have "\<not> (compact_mantissa bits \<noteq> 0 \<and> 32 < compact_exponent bits)"
    using compact_to_target_error by fastforce
  then have "length (j_network_target job) = 32 \<and> be_val (j_network_target job) = compact_value bits"
    using compact_to_target_value [of bits] bits(2) by auto
  then show thesis using that ps \<open>length prev = 32\<close> bits(1) jb by blast
qed

lemma validate_share_outcome:
  assumes "sha256_ok C" and "hex_ok C"
    and "fst (build_job C millis counter gbt address tag en1 en2) = Ok job"
    and "assemble_coinbase job x1 (sp_extranonce2 params) = Ok cb"
    and "1 + length (g_transactions gbt) < 2 ^ 64"
  obtains prev bits where
    "hex_decode C (g_prev_hash gbt) = Some prev" "length prev = 32" "u32_from_hex (g_bits gbt) = Some bits"
    "validate_share_no_dedup C params job entry x1 d
       = share_outcome C params job (je_superseded_by_clean entry) cb prev bits d"
proof -
  obtain prev s bits where f: "hex_decode C (g_prev_hash gbt) = Some prev" "length prev = 32"
    "hex_decode C (j_prev_hash job) = Some s" "length s = 32" "rev_words s = rev prev"
    "u32_from_hex (g_bits gbt) = Some bits" "j_bits job = g_bits gbt"
    "length (j_network_target job) = 32" "be_val (j_network_target job) = compact_value bits"
    using build_job_header_fields [OF assms(2,3)] .
  have hdr: "build_header C v (j_prev_hash job) (merkle_root C job cb) t (j_bits job) n
      = Ok (header_bytes v (rev prev) (merkle_root C job cb) t bits n)" for v t n
    using build_header_ok [OF f(3,4) length_merkle_root [OF assms(1)], of "j_bits job" bits] f by simp
  have len: "length (double_sha256 (sha256 C) x) = 32" for x
    by (rule length_double_sha256 [OF assms(1)])
  have "j_transactions job = map gt_data (g_transactions gbt)"
    using assms(3) by (rule build_job_fields)
  then have vi: "encode_varint (of_nat (1 + length (j_transactions job))) = compact_size (1 + length (j_transactions job))"
    using assms(5) by (intro encode_varint_compact_size) simp
  have sw: "(if \<not> P then x else y) = (if P then y else x)" for P and x y :: "share_result result" by simp
  have "validate_share_no_dedup C params job entry x1 d
       = share_outcome C params job (je_superseded_by_clean entry) cb prev bits d"
    unfolding validate_share_no_dedup_def share_outcome_def assms(4) obind.simps hdr Let_def
      meets_share_target [OF len] meets_target_value [OF len f(8)] f(9) assemble_block_hex_def vi sw ..
  then show thesis using that f by blast
qed


section \<open>A sample share\<close>

definition sample_params :: share_params where
  "sample_params = \<lparr>sp_worker = ''w'', sp_job_id = ''1'', sp_extranonce2 = replicate 8 2,
     sp_ntime = 1700000000, sp_nonce = 42, sp_version_bits = None, sp_version_rolling_mask = None\<rparr>"

definition sample_entry :: "stratum_job \<Rightarrow> job_entry" where
  "sample_entry job = \<lparr>je_job = job, je_created_at = 0, je_clean = True, je_superseded_by_clean = False\<rparr>"

lemma sample_hash:
  assumes "take 30 x = ys @ replicate 22 0" and "length ys = 8" and "length x = 80"
  shows "le_val (double_sha256 (sha256 sample_crates) x) < 256 ^ 10"
proof -
  have "sample_digest x = 80 # take 30 x @ [x ! 30]"
    using assms(3) by (simp add: sample_digest_def take_Suc_conv_app_nth [of 30 x, simplified])
  then have "double_sha256 (sha256 sample_crates) x = [32, 80] @ ys @ replicate 22 0"
    using assms by (simp add: double_sha256_def sample_crates_def) (simp add: sample_digest_def)
  then show ?thesis
    using le_val_less [of "[32, 80] @ ys"] assms(2) by (simp add: le_val_append)
qed

lemma sample_assemble:
  assumes "fst (build_job sample_crates 5 7 sample_gbt ''bc1q'' sample_tag 4 8) = Ok job"
  obtains cb where "assemble_coinbase job (replicate 4 1) (sp_extranonce2 sample_params) = Ok cb"
  using build_job_coinbase [OF _ sample_build_hyps assms] that
  by (metis (no_types) length_replicate sample_crates_ok(3) sample_params_def share_params.select_convs(3))

lemma sample_share_is_block:
  assumes "fst (build_job sample_crates 5 7 sample_gbt ''bc1q'' sample_tag 4 8) = Ok job"
  obtains diff block hash where
    "validate_share_no_dedup sample_crates sample_params job (sample_entry job) (replicate 4 1) 1
       = Ok (Block diff block hash)"
proof -
  obtain cb where cb: "assemble_coinbase job (replicate 4 1) (sp_extranonce2 sample_params) = Ok cb"
    using sample_assemble [OF assms] .
  have n: "1 + length (g_transactions sample_gbt) < 2 ^ 64" by (simp add: sample_gbt_def)
  obtain prev bits where o: "hex_decode sample_crates (g_prev_hash sample_gbt) = Some prev" "length prev = 32"
    "u32_from_hex (g_bits sample_gbt) = Some bits"
    "validate_share_no_dedup sample_crates sample_params job (sample_entry job) (replicate 4 1) 1
       = share_outcome sample_crates sample_params job False cb prev bits 1"
    using validate_share_outcome [OF sample_crates_ok(1,2) assms cb n, of "sample_entry job"]
    by (auto simp: sample_entry_def)
  have prev: "prev = replicate 28 0 @ [0xDE, 0xAD, 0xBE, 0xEF]"
    using o(1) sample_crates_ok(2) by (simp add: sample_gbt_def hex_ok_def)
  have bits: "bits = 0x1d00ffff"
    using o(3) u32_from_hex_fmt [of "0x1d00ffff"] by (simp add: sample_gbt_def)
  have t: "j_min_time job = 1699990000" "j_cur_time job = 1700000000" "j_version job = 0x20000000"
    using assms by (auto elim!: build_job_fields simp: sample_gbt_def)
  define x where "x = header_bytes 0x20000000 (rev prev) (merkle_root sample_crates job cb) 1700000000 bits 42"
  have l: "length (merkle_root sample_crates job cb) = 32" by (simp add: length_merkle_root)
  have "take 30 x = (u32_to_le_bytes 0x20000000 @ [0xEF, 0xBE, 0xAD, 0xDE]) @ replicate 22 0"
    by (simp add: x_def header_bytes_def prev)
  then have "le_val (double_sha256 (sha256 sample_crates) x) < 256 ^ 10"
    by (rule sample_hash) (use l in \<open>simp_all add: x_def header_bytes_def prev\<close>)
  then have "le_val (double_sha256 (sha256 sample_crates) x) \<le> compact_value bits"
    by (simp add: bits compact_value_def compact_exponent_def compact_mantissa_def Let_def)
  moreover have "check_ntime 1700000000 1699990000 1700000000 = Ok ()"
    by (simp add: check_ntime_Ok_iff)
  ultimately show thesis
    using that o(4) t by (simp add: share_outcome_def sample_params_def resolve_version_def Let_def x_def)
qed

section \<open>Properties\<close>

text \<open>
  C5: No header hash is credited twice within one window. Passing any sequence of validation
  outcomes through a fresh tracker, the tracker holds exactly the last 4096 accepted hashes
  (and its hash set and its queue agree), and two accepted shares with the same header hash
  are more than 4096 acceptances apart.
\<close>

theorem no_hash_credited_twice_in_window:
  assumes "dedup_run ShareSet_new rs = (outs, s)"
  defines "acc \<equiv> ok_hashes outs"
  shows "ss_order s = drop (length acc - 4096) acc \<and> ss_seen s = set (ss_order s)
     \<and> (\<forall>j < length acc. \<forall>i < j. acc ! i = acc ! j \<longrightarrow> 4096 < j - i)"
proof -
  have "tracker.accept_run ShareSet_new (ok_hashes rs) = (acc, s)"
    using dedup_run_accepts [OF assms(1)] by (simp add: acc_def)
  from tracker.accept_run_history [OF ShareSet_new_ok _ _ this, of "[]"]
  have "share_set_ok 4096 s" "ss_order s = tracker.recent acc" "tracker.spread acc"
    by (auto simp: tracker.recent_def tracker.spread_def ShareSet_new_def)
  then show ?thesis by (simp add: tracker.recent_def tracker.spread_def share_set_ok_def)
qed

theorem no_hash_credited_twice_witness:
  "fst (dedup_run ShareSet_new [Ok (Valid 1 5 [7]), Err LowDifficulty, Ok (Valid 1 5 [7]), Ok (Valid 1 6 [8])])
     = [Ok (Valid 1 5 [7]), Err LowDifficulty, Err DuplicateShare, Ok (Valid 1 6 [8])]
   \<and> ss_order (snd (dedup_run ShareSet_new
       [Ok (Valid 1 5 [7]), Err LowDifficulty, Ok (Valid 1 5 [7]), Ok (Valid 1 6 [8])])) = [[7], [8]]"
proof -
  define rs :: "share_result result list" where
    "rs = [Ok (Valid 1 5 [7]), Err LowDifficulty, Ok (Valid 1 5 [7]), Ok (Valid 1 6 [8])]"
  obtain outs s where r: "dedup_run ShareSet_new rs = (outs, s)" by fastforce
  have outs: "outs = [Ok (Valid 1 5 [7]), Err LowDifficulty, Err DuplicateShare, Ok (Valid 1 6 [8])]"
    using r by (auto simp: rs_def ShareSet_new_def ShareSet_contains_def ShareSet_insert_def Let_def)
  with no_hash_credited_twice_in_window [OF r] have "ss_order s = [[7], [8]]" by simp
  then show ?thesis using r outs by (simp flip: rs_def)
qed

text \<open>
  C1: Soundness of a found block. When validation of a share against a job the pool built
  returns \<open>Block\<close>, the block hex decodes to a complete block: an 80-byte header, the
  transaction count, the coinbase transaction and the template's transactions. The header
  carries the template's previous block hash and compact target, the submitted time and nonce,
  and the merkle root of exactly the transactions that follow; its double SHA-256, read as a
  number, does not exceed the target its own compact form denotes.
\<close>

theorem found_block_is_valid:
  assumes "sha256_ok C" and "hex_ok C" and "serialize_ok C" and "utf8_valid tag"
    and "unat (g_height gbt) < 2 ^ 31" and "length tag + en1 + en2 \<le> 65000"
    and "fst (build_job C millis counter gbt address tag en1 en2) = Ok job"
    and "length x1 + length (sp_extranonce2 params) = en1 + en2"
    and "1 + length (g_transactions gbt) < 2 ^ 64"
    and "validate_share_no_dedup C params job entry x1 d = Ok (Block diff block hash)"
  shows "\<exists>version prev bits cb header ids rs ws.
     address_script C address = Some rs
     \<and> resolve_version (g_version gbt) (sp_version_bits params) (sp_version_rolling_mask params) = Ok version
     \<and> hex_decode C (g_prev_hash gbt) = Some prev \<and> u32_from_hex (g_bits gbt) = Some bits
     \<and> list_all2 (\<lambda>tx id. hex_decode C (gt_txid tx) = Some (rev id) \<and> length id = 32)
          (g_transactions gbt) ids
     \<and> cb = legacy_tx_bytes (coinbase_tx
          (coinbase_script (g_height gbt) tag (x1 @ sp_extranonce2 params))
          (\<lparr>to_value = g_coinbase_value gbt, to_script_pubkey = rs\<rparr> # ws))
     \<and> header = header_bytes version (rev prev)
          (tree_root (sha256 C) (double_sha256 (sha256 C) cb # ids))
          (sp_ntime params) bits (sp_nonce params)
     \<and> length header = 80
     \<and> hex_decode C block = Some (header @ compact_size (1 + length (g_transactions gbt)) @ cb
          @ concat (map gt_data (g_transactions gbt)))
     \<and> hash = double_sha256 (sha256 C) header \<and> le_val hash \<le> compact_value bits"
proof -
  obtain rs ws where a: "address_script C address = Some rs" and cb: "assemble_coinbase job x1 (sp_extranonce2 params) = Ok (legacy_tx_bytes (coinbase_tx
          (coinbase_script (g_height gbt) tag (x1 @ sp_extranonce2 params))
          (\<lparr>to_value = g_coinbase_value gbt, to_script_pubkey = rs\<rparr> # ws)))" (is "_ = Ok ?cb")
    using build_job_coinbase [OF assms(3-7)] assms(8) by metis
  obtain prev bits where pb: "hex_decode C (g_prev_hash gbt) = Some prev" "length prev = 32"
    "u32_from_hex (g_bits gbt) = Some bits"
    "share_outcome C params job (je_superseded_by_clean entry) ?cb prev bits d = Ok (Block diff block hash)"
    using validate_share_outcome [OF assms(1,2,7) cb assms(9)] assms(10) by metis
  obtain ids where ids: "omapM (decode_txid C) (g_transactions gbt) = Ok ids"
    "compute_merkle_branch_raw (sha256 C) ids = Ok (j_merkle_branch_raw job)"
    and txs: "j_transactions job = map gt_data (g_transactions gbt)" and ver: "j_version job = g_version gbt"
    using assms(7) by (rule build_job_fields)
  have mr: "merkle_root C job ?cb = tree_root (sha256 C) (double_sha256 (sha256 C) ?cb # ids)"
    using merkle_branch_root [of "sha256 C" ids] ids(2) by (simp add: merkle_root_def)
  obtain version where v: "hash = double_sha256 (sha256 C) (header_bytes version (rev prev)
      (merkle_root C job ?cb) (sp_ntime params) bits (sp_nonce params))"
    "le_val hash \<le> compact_value bits"
    "resolve_version (j_version job) (sp_version_bits params) (sp_version_rolling_mask params) = Ok version"
    "block = hex_encode C (header_bytes version (rev prev) (merkle_root C job ?cb) (sp_ntime params) bits
       (sp_nonce params) @ compact_size (1 + length (j_transactions job)) @ ?cb @ concat (j_transactions job))"
    using pb(4) by (auto simp: share_outcome_def Let_def split: if_splits)
  have len: "length (header_bytes version (rev prev) (merkle_root C job ?cb) (sp_ntime params) bits
       (sp_nonce params)) = 80"
    using pb(2) length_merkle_root [OF assms(1)] by (intro length_header_bytes) simp_all
  have dec: "hex_decode C (hex_encode C b) = Some b" for b using assms(2) by (simp add: hex_ok_def)
  show ?thesis
    by (intro exI conjI, rule a, rule v(3) [unfolded ver], rule pb(1), rule pb(3), rule decode_txids_value [OF ids(1)], rule refl, rule refl)
      (use v len dec in \<open>simp_all add: mr txs\<close>)
qed


theorem found_block_witness:
  "\<exists>job block header cb. fst (build_job sample_crates 5 7 sample_gbt ''bc1q'' sample_tag 4 8) = Ok job
     \<and> (\<exists>diff hash. validate_share_no_dedup sample_crates sample_params job (sample_entry job)
          (replicate 4 1) 1 = Ok (Block diff block hash))
     \<and> length header = 80
     \<and> hex_decode sample_crates block = Some (header @ compact_size 2 @ cb @ [1, 2, 3])"
proof -
  obtain job where j: "fst (build_job sample_crates 5 7 sample_gbt ''bc1q'' sample_tag 4 8) = Ok job"
    using sample_job_built by auto
  obtain diff block hash where v: "validate_share_no_dedup sample_crates sample_params job
      (sample_entry job) (replicate 4 1) 1 = Ok (Block diff block hash)"
    using sample_share_is_block [OF j] .
  have h: "length (replicate 4 (1 :: byte)) + length (sp_extranonce2 sample_params) = 4 + 8"
    "1 + length (g_transactions sample_gbt) < 2 ^ 64"
    by (simp_all add: sample_params_def sample_gbt_def)
  have txs: "map gt_data (g_transactions sample_gbt) = [[1, 2, 3]]" "length (g_transactions sample_gbt) = 1"
    by (simp_all add: sample_gbt_def)
  show ?thesis
    using found_block_is_valid [OF sample_crates_ok sample_build_hyps j h v] j v
    unfolding txs by (auto simp: numeral_2_eq_2)
qed



text \<open>
  Version rolling. Without rolled bits the template's version is used. With rolled bits, they
  are accepted exactly when they stay inside the negotiated mask (the BIP320 mask when none was
  negotiated), and the resulting version agrees with the submitted bits inside the mask and with
  the template outside it.
\<close>

theorem version_rolling_respects_mask:
  defines "m \<equiv> \<lambda>negotiated. case negotiated of None \<Rightarrow> VERSION_ROLLING_MASK | Some m \<Rightarrow> m"
  shows "resolve_version base None negotiated = Ok base
     \<and> ((\<exists>v. resolve_version base (Some bits) negotiated = Ok v) \<longleftrightarrow> bits AND NOT (m negotiated) = 0)
     \<and> (\<forall>v. resolve_version base (Some bits) negotiated = Ok v \<longrightarrow>
          v AND m negotiated = bits \<and> v AND NOT (m negotiated) = base AND NOT (m negotiated))"
proof -
  have eq: "((base AND NOT k) OR (bits AND k)) AND k = bits
      \<and> ((base AND NOT k) OR (bits AND k)) AND NOT k = base AND NOT k"
    if "bits AND NOT k = 0" for k
  proof -
    have "\<not> (bit bits n \<and> \<not> bit k n)" if "n < 32" for n
      using arg_cong [OF \<open>bits AND NOT k = 0\<close>, of "\<lambda>w. bit w n"] that by (auto simp: bit_simps)
    then show ?thesis by (intro conjI bit_eqI) (auto simp: bit_simps)
  qed
  show ?thesis
    using eq [of "m negotiated"] by (auto simp: resolve_version_def m_def Let_def)
qed

theorem version_rolling_witness:
  "\<exists>v. resolve_version 0x20000000 (Some 0x2000) None = Ok v \<and> v AND VERSION_ROLLING_MASK = 0x2000"
  using version_rolling_respects_mask [of "0x20000000" None "0x2000"]
  by (auto simp: VERSION_ROLLING_MASK_def)

end
