(* ===== verification/F64.thy ===== *)
theory F64
  imports Prelude "HOL-Library.Log_Nat"
begin

text \<open>
  The \<open>f64\<close> arithmetic of the source: IEEE 754 binary64 with rounding to nearest, ties
  to even. \<open>fl\<close> rounds a real number to the 53-bit grid of its binade (with gradual
  underflow below \<open>2 ^ -1022\<close>); a value of type \<open>f64\<close> is a finite real, an infinity or a
  NaN, and every operation rounds the exact result. The two zeros are one value: no
  operation of the source distinguishes them. The lemmas are the facts the components
  use: rounding is monotone, it is exact on integers below \<open>2 ^ 53\<close>, and it keeps signs.
\<close>

section \<open>Rounding\<close>

text \<open>The exponent of the binade of a positive real, and the spacing of its grid.\<close>

definition binade :: "real \<Rightarrow> int" where
  "binade x = (if 1 \<le> x then bitlen \<lfloor>x\<rfloor> - 1 else - bitlen (\<lceil>1 / x\<rceil> - 1))"

definition quantum :: "real \<Rightarrow> real" where
  "quantum x = 2 powi (max (binade x - 52) (- 1074))"

definition round_even :: "real \<Rightarrow> int" where
  "round_even y =
     (let f = \<lfloor>y\<rfloor>; r = y - of_int f
      in if r < 1 / 2 then f else if 1 / 2 < r then f + 1 else if even f then f else f + 1)"

definition fl_pos :: "real \<Rightarrow> real" where
  "fl_pos x = of_int (round_even (x / quantum x)) * quantum x"

definition fl :: "real \<Rightarrow> real" where
  "fl x = (if x = 0 then 0 else if x < 0 then - fl_pos (- x) else fl_pos x)"

lemma binade_bounds:
  assumes "0 < x"
  shows "2 powi (binade x) \<le> x \<and> x < 2 powi (binade x + 1)"
proof (cases "1 \<le> x")
  case True
  define n where "n = \<lfloor>x\<rfloor>"
  have n: "1 \<le> n" "of_int n \<le> x" "x < of_int n + 1" using True by (simp_all add: n_def)
  have b: "2 ^ nat (bitlen n - 1) \<le> n" "n < 2 ^ nat (bitlen n)" using bitlen_bounds [of n] n by auto
  have bl: "1 \<le> bitlen n" using n bitlen_nonneg [of n] bitlen_eq_zero_iff [of n] by linarith
  have "2 powi (bitlen n - 1) = real_of_int (2 ^ nat (bitlen n - 1))"
    using bl by (simp add: power_int_nonneg_exp)
  also have "\<dots> \<le> x" using b(1) n(2) by linarith
  finally have 1: "2 powi (bitlen n - 1) \<le> x" .
  have "n + 1 \<le> 2 ^ nat (bitlen n)" using b(2) by linarith
  then have "real_of_int (n + 1) \<le> real_of_int (2 ^ nat (bitlen n))" by (simp only: of_int_le_iff)
  then have "x < 2 powi (bitlen n)" using n(3) bl by (simp add: power_int_nonneg_exp)
  then show ?thesis using 1 True by (simp add: binade_def n_def)
next
  case False
  define m where "m = \<lceil>1 / x\<rceil> - 1"
  have x1: "1 < 1 / x" using False assms by (simp add: divide_simps)
  have m: "1 \<le> m" "of_int m < 1 / x" "1 / x \<le> of_int m + 1" using x1 by (simp_all add: m_def) linarith+
  have b: "2 ^ nat (bitlen m - 1) \<le> m" "m < 2 ^ nat (bitlen m)" using bitlen_bounds [of m] m by auto
  have bl: "1 \<le> bitlen m" using m bitlen_nonneg [of m] bitlen_eq_zero_iff [of m] by linarith
  have "m + 1 \<le> 2 ^ nat (bitlen m)" using b(2) by linarith
  then have "real_of_int (m + 1) \<le> real_of_int (2 ^ nat (bitlen m))" by (simp only: of_int_le_iff)
  then have "1 / x \<le> 2 powi (bitlen m)" using m(3) bl by (simp add: power_int_nonneg_exp)
  then have 1: "2 powi (- bitlen m) \<le> x" using assms by (simp add: power_int_minus field_simps)
  have "2 powi (bitlen m - 1) = real_of_int (2 ^ nat (bitlen m - 1))"
    using bl by (simp add: power_int_nonneg_exp)
  also have "\<dots> \<le> real_of_int m" using b(1) by (simp only: of_int_le_iff)
  finally have "2 powi (bitlen m - 1) < 1 / x" using m(2) by simp
  then have "x < inverse (2 powi (bitlen m - 1))" using assms by (simp add: field_simps)
  also have "\<dots> = 2 powi (- bitlen m + 1)" by (simp flip: power_int_minus)
  finally show ?thesis using 1 False by (simp add: binade_def m_def)
qed

lemma binade_mono:
  assumes "0 < x" "x \<le> y"
  shows "binade x \<le> binade y"
proof (rule ccontr)
  assume "\<not> ?thesis"
  then have "(2::real) powi (binade y + 1) \<le> 2 powi (binade x)" by (intro power_int_increasing) auto
  then show False using binade_bounds [of x] binade_bounds [of y] assms by linarith
qed

lemma quantum_pos [simp]: "0 < quantum x"
  by (simp add: quantum_def)

lemma round_even_mono: "x \<le> y \<Longrightarrow> round_even x \<le> round_even y"
proof -
  assume le: "x \<le> y"
  then have fl: "\<lfloor>x\<rfloor> \<le> \<lfloor>y\<rfloor>" by (rule floor_mono)
  have up: "\<lfloor>y\<rfloor> \<le> round_even y" "round_even x \<le> \<lfloor>x\<rfloor> + 1" by (auto simp: round_even_def Let_def)
  show ?thesis
  proof (cases "\<lfloor>x\<rfloor> = \<lfloor>y\<rfloor>")
    case True
    then show ?thesis using le by (auto simp: round_even_def Let_def)
  next
    case False
    then show ?thesis using fl up by linarith
  qed
qed

lemma round_even_int [simp]: "round_even (of_int n) = n"
  by (simp add: round_even_def)

lemma fl_pos_ge: "of_int n * quantum x \<le> x \<Longrightarrow> of_int n * quantum x \<le> fl_pos x"
proof -
  assume "of_int n * quantum x \<le> x"
  then have "of_int n \<le> x / quantum x" by (simp add: pos_le_divide_eq)
  then have "n \<le> round_even (x / quantum x)" using round_even_mono by fastforce
  then show ?thesis by (simp add: fl_pos_def)
qed

lemma fl_pos_le: "x \<le> of_int n * quantum x \<Longrightarrow> fl_pos x \<le> of_int n * quantum x"
proof -
  assume "x \<le> of_int n * quantum x"
  then have "x / quantum x \<le> of_int n" by (simp add: pos_divide_le_eq)
  then have "round_even (x / quantum x) \<le> n" using round_even_mono by fastforce
  then show ?thesis by (simp add: fl_pos_def)
qed

lemma fl_pos_exact: "x = of_int n * quantum x \<Longrightarrow> fl_pos x = x"
  using fl_pos_ge [of n x] fl_pos_le [of x n] by auto

lemma power_on_grid:
  assumes "max (binade x - 52) (- 1074) \<le> k"
  shows "\<exists>n. 2 powi k = of_int n * quantum x"
proof -
  define q where "q = max (binade x - 52) (- 1074)"
  have "(2::real) powi k = 2 powi (k - q) * 2 powi q" by (simp flip: power_int_add)
  also have "2 powi (k - q) = real_of_int (2 ^ nat (k - q))"
    using assms by (simp add: power_int_nonneg_exp q_def)
  finally show ?thesis unfolding quantum_def q_def [symmetric] by blast
qed

lemma fl_pos_mono:
  assumes "0 < x" "x \<le> y"
  shows "fl_pos x \<le> fl_pos y"
proof (cases "quantum x = quantum y")
  case True
  have "x / quantum x \<le> y / quantum x" using assms by (simp add: divide_right_mono less_imp_le)
  then have "round_even (x / quantum x) \<le> round_even (y / quantum y)"
    using round_even_mono True by simp
  then show ?thesis using True by (simp add: fl_pos_def)
next
  case False
  define c :: real where "c = 2 powi (binade y)"
  have lt: "binade x < binade y" "- 1074 < binade y - 52"
  proof -
    have "binade x \<noteq> binade y" using False by (auto simp: quantum_def)
    then show "binade x < binade y" using binade_mono [OF assms] by simp
    then show "- 1074 < binade y - 52" using False by (auto simp: quantum_def max_def split: if_splits)
  qed
  obtain n where n: "c = of_int n * quantum x"
    using power_on_grid [of x "binade y"] lt unfolding c_def by auto
  obtain m where m: "c = of_int m * quantum y"
    using power_on_grid [of y "binade y"] lt unfolding c_def by auto
  have "x < 2 powi (binade x + 1)" using binade_bounds assms by simp
  also have "\<dots> \<le> c" unfolding c_def using lt by (intro power_int_increasing) auto
  finally have "fl_pos x \<le> c" using fl_pos_le [of x n] n by simp
  also have "c \<le> fl_pos y" using fl_pos_ge [of m y] m binade_bounds [of y] assms by (simp add: c_def)
  finally show ?thesis .
qed

lemma fl_pos_nonneg: "0 < x \<Longrightarrow> 0 \<le> fl_pos x"
  using fl_pos_ge [of 0 x] by simp

lemma fl_0 [simp]: "fl 0 = 0" by (simp add: fl_def)

lemma fl_nonneg [simp]: "0 \<le> x \<Longrightarrow> 0 \<le> fl x"
  by (auto simp: fl_def fl_pos_nonneg)

lemma fl_mono: "x \<le> y \<Longrightarrow> fl x \<le> fl y"
  using fl_pos_mono [of x y] fl_pos_mono [of "- y" "- x"] fl_pos_nonneg [of "- x"] fl_pos_nonneg [of y]
  by (auto simp: fl_def)

lemma fl_of_nat [simp]:
  assumes "n < 2 ^ 53"
  shows "fl (real n) = real n"
proof (cases "n = 0")
  case False
  have "(2::real) powi (binade (real n)) \<le> real n" using False binade_bounds by simp
  also have "\<dots> < 2 powi 53" using assms by (simp add: power_int_def)
  finally have "binade (real n) < 53"
    using power_int_increasing [of 53 "binade (real n)" "2 :: real"] by fastforce
  then have "max (binade (real n) - 52) (- 1074) \<le> 0" by simp
  then obtain m where "2 powi 0 = of_int m * quantum (real n)" using power_on_grid by blast
  then have "real n = of_int (int n * m) * quantum (real n)" by simp
  then have "fl_pos (real n) = real n" by (rule fl_pos_exact)
  then show ?thesis using False by (simp add: fl_def)
qed simp

lemma fl_numeral [simp]: "(numeral k :: nat) < 2 ^ 53 \<Longrightarrow> fl (numeral k) = numeral k"
  using fl_of_nat [of "numeral k"] by simp

lemma fl_1 [simp]: "fl 1 = 1"
  using fl_of_nat [of 1] by simp

section \<open>Values and operations\<close>

datatype f64 = Fin real | Inf | NegInf | NaN

text \<open>The rounded result of an operation, with overflow to an infinity.\<close>

definition mk_f64 :: "real \<Rightarrow> f64" where
  "mk_f64 x = (let r = fl x in if r \<ge> 2 ^ 1024 then Inf else if r \<le> - (2 ^ 1024) then NegInf else Fin r)"

definition f64_of_u64 :: "'a::len word \<Rightarrow> f64" where
  "f64_of_u64 w = mk_f64 (real (unat w))"

fun f64_neg :: "f64 \<Rightarrow> f64" where
  "f64_neg (Fin x) = Fin (- x)"
| "f64_neg Inf = NegInf"
| "f64_neg NegInf = Inf"
| "f64_neg NaN = NaN"

fun f64_add :: "f64 \<Rightarrow> f64 \<Rightarrow> f64" where
  "f64_add (Fin x) (Fin y) = mk_f64 (x + y)"
| "f64_add NaN _ = NaN"
| "f64_add _ NaN = NaN"
| "f64_add Inf NegInf = NaN"
| "f64_add NegInf Inf = NaN"
| "f64_add Inf _ = Inf"
| "f64_add _ Inf = Inf"
| "f64_add _ _ = NegInf"

definition f64_sub :: "f64 \<Rightarrow> f64 \<Rightarrow> f64" where
  "f64_sub x y = f64_add x (f64_neg y)"

definition inf_of_sign :: "real \<Rightarrow> f64" where
  "inf_of_sign s = (if s > 0 then Inf else if s < 0 then NegInf else NaN)"

fun f64_sign :: "f64 \<Rightarrow> real" where
  "f64_sign (Fin x) = sgn x"
| "f64_sign Inf = 1"
| "f64_sign NegInf = - 1"
| "f64_sign NaN = 0"

fun f64_mul :: "f64 \<Rightarrow> f64 \<Rightarrow> f64" where
  "f64_mul (Fin x) (Fin y) = mk_f64 (x * y)"
| "f64_mul NaN _ = NaN"
| "f64_mul _ NaN = NaN"
| "f64_mul x y = inf_of_sign (f64_sign x * f64_sign y)"

text \<open>Division by (positive) zero gives an infinity of the dividend's sign.\<close>

fun f64_div :: "f64 \<Rightarrow> f64 \<Rightarrow> f64" where
  "f64_div (Fin x) (Fin y) = (if y = 0 then inf_of_sign (sgn x) else mk_f64 (x / y))"
| "f64_div NaN _ = NaN"
| "f64_div _ NaN = NaN"
| "f64_div (Fin x) _ = Fin 0"
| "f64_div x (Fin y) = inf_of_sign (f64_sign x * (if y = 0 then 1 else sgn y))"
| "f64_div _ _ = NaN"

fun f64_lt :: "f64 \<Rightarrow> f64 \<Rightarrow> bool" where
  "f64_lt (Fin x) (Fin y) = (x < y)"
| "f64_lt NaN _ = False"
| "f64_lt _ NaN = False"
| "f64_lt NegInf NegInf = False"
| "f64_lt NegInf _ = True"
| "f64_lt _ NegInf = False"
| "f64_lt Inf _ = False"
| "f64_lt _ Inf = True"

fun f64_le :: "f64 \<Rightarrow> f64 \<Rightarrow> bool" where
  "f64_le (Fin x) (Fin y) = (x \<le> y)"
| "f64_le NaN _ = False"
| "f64_le _ NaN = False"
| "f64_le NegInf _ = True"
| "f64_le _ NegInf = False"
| "f64_le _ Inf = True"
| "f64_le Inf _ = False"

fun f64_is_finite :: "f64 \<Rightarrow> bool" where
  "f64_is_finite (Fin x) = True"
| "f64_is_finite _ = False"

text \<open>\<open>f64::min\<close> ignores a NaN.\<close>

definition f64_min :: "f64 \<Rightarrow> f64 \<Rightarrow> f64" where
  "f64_min x y = (if x = NaN then y else if y = NaN then x else if f64_lt y x then y else x)"

definition f64_max :: "f64 \<Rightarrow> f64 \<Rightarrow> f64" where
  "f64_max x y = (if x = NaN then y else if y = NaN then x else if f64_lt x y then y else x)"

text \<open>\<open>f64::clamp\<close> asserts \<open>min <= max\<close> (so neither is NaN) and keeps a NaN.\<close>

definition f64_clamp :: "f64 \<Rightarrow> f64 \<Rightarrow> f64 \<Rightarrow> ('e, f64) outcome" where
  "f64_clamp lo hi x =
     (if f64_le lo hi then Ok (if f64_lt x lo then lo else if f64_lt hi x then hi else x) else Panic)"

fun f64_sqrt :: "f64 \<Rightarrow> f64" where
  "f64_sqrt (Fin x) = (if x < 0 then NaN else mk_f64 (sqrt x))"
| "f64_sqrt Inf = Inf"
| "f64_sqrt _ = NaN"

text \<open>\<open>f64::round\<close>: half away from zero, exact.\<close>

fun f64_round :: "f64 \<Rightarrow> f64" where
  "f64_round (Fin x) = Fin (if x < 0 then - of_int \<lfloor>- x + 1 / 2\<rfloor> else of_int \<lfloor>x + 1 / 2\<rfloor>)"
| "f64_round x = x"

text \<open>\<open>as u64\<close>: truncation toward zero, saturating, with NaN to zero.\<close>

fun f64_to_u64 :: "f64 \<Rightarrow> u64" where
  "f64_to_u64 (Fin x) =
     (if x \<le> 0 then 0 else if 2 ^ 64 \<le> x then - 1 else of_nat (nat \<lfloor>x\<rfloor>))"
| "f64_to_u64 Inf = - 1"
| "f64_to_u64 _ = 0"

text \<open>
  \<open>Duration::as_secs_f64\<close> of a duration in nanoseconds:
  \<open>(secs as f64) + (nanos as f64) / 1e9\<close>.
\<close>

definition as_secs_f64 :: "nat \<Rightarrow> f64" where
  "as_secs_f64 ns =
     f64_add (mk_f64 (real (ns div 10 ^ 9))) (f64_div (mk_f64 (real (ns mod 10 ^ 9))) (Fin (10 ^ 9)))"

section \<open>Lemmas\<close>

lemma fl_power2 [simp]: "fl (2 ^ k) = 2 ^ k"
proof -
  have "(2::real) powi (binade (2 ^ k)) \<le> 2 powi int k" "2 powi int k < (2::real) powi (binade (2 ^ k) + 1)"
    using binade_bounds [of "2 ^ k"] by simp_all
  then have "binade (2 ^ k) = int k"
    using power_int_increasing [of "binade (2 ^ k) + 1" "int k" "2::real"]
      power_int_strict_increasing [of "int k" "binade (2 ^ k)" "2::real"] by fastforce
  then obtain n where "2 powi int k = of_int n * quantum (2 ^ k)"
    using power_on_grid [of "2 ^ k" "int k"] by auto
  then have "fl_pos (2 ^ k) = 2 ^ k" using fl_pos_exact [of "2 ^ k" n] by simp
  then show ?thesis by (simp add: fl_def)
qed

lemma fl_below:
  assumes "x \<le> 2 ^ k" and "k < 1024"
  shows "fl x < 2 ^ 1024"
proof -
  have "fl x \<le> fl (2 ^ k)" using assms(1) by (rule fl_mono)
  also have "\<dots> < 2 ^ 1024" unfolding fl_power2 using assms(2) by (intro power_strict_increasing) auto
  finally show ?thesis .
qed

lemma mk_f64_fin: "0 \<le> x \<Longrightarrow> x \<le> 2 ^ k \<Longrightarrow> k < 1024 \<Longrightarrow> mk_f64 x = Fin (fl x)"
proof -
  assume a: "0 \<le> x" "x \<le> 2 ^ k" "k < 1024"
  have "fl x < 2 ^ 1024" using a(2,3) by (rule fl_below)
  moreover have "- (2 ^ 1024) < fl x" using fl_nonneg [OF a(1)] by (smt (verit) zero_less_power)
  ultimately show ?thesis unfolding mk_f64_def Let_def by simp
qed

lemma mk_f64_small: "0 \<le> x \<Longrightarrow> x \<le> 2 ^ 200 \<Longrightarrow> mk_f64 x = Fin (fl x)"
  by (rule mk_f64_fin [of _ 200]) simp_all

lemma u32_lt_53: "unat (m :: u32) < 2 ^ 53"
  using unat_lt [of m] by simp

lemma real_u32_le: "real (unat (m :: u32)) \<le> 2 ^ 32"
proof -
  have "unat m \<le> 2 ^ 32" using unat_lt [of m] by simp
  then have "real (unat m) \<le> real (2 ^ 32)" by (simp only: of_nat_le_iff)
  then show ?thesis by simp
qed

lemma f64_of_u32: "f64_of_u64 (m :: u32) = Fin (real (unat m))"
  using mk_f64_small [of "real (unat m)"] real_u32_le [of m] u32_lt_53 [of m] by (simp add: f64_of_u64_def)

lemma fl_le_nat: "x \<le> real n \<Longrightarrow> n < 2 ^ 53 \<Longrightarrow> fl x \<le> real n"
  using fl_mono [of x "real n"] by simp

lemma fl_ge_nat: "real n \<le> x \<Longrightarrow> n < 2 ^ 53 \<Longrightarrow> real n \<le> fl x"
  using fl_mono [of "real n" x] by simp

text \<open>A non-negative (possibly infinite) number, as an elapsed time or a product of such is.\<close>

definition nonneg_f64 :: "f64 \<Rightarrow> bool" where
  "nonneg_f64 x \<longleftrightarrow> x = Inf \<or> (\<exists>r \<ge> 0. x = Fin r)"

lemma mk_f64_nonneg: "0 \<le> x \<Longrightarrow> nonneg_f64 (mk_f64 x)"
proof -
  assume "0 \<le> x"
  then have "0 \<le> fl x" by simp
  moreover from this have "\<not> fl x \<le> - (2 ^ 1024)" by (smt (verit) zero_less_power)
  ultimately show ?thesis by (auto simp: mk_f64_def Let_def nonneg_f64_def)
qed

lemma nonneg_f64_cases:
  assumes "nonneg_f64 x"
  obtains "x = Inf" | r where "0 \<le> r" "x = Fin r"
  using assms by (auto simp: nonneg_f64_def)

lemma nonneg_f64_Fin [simp]: "nonneg_f64 (Fin r) \<longleftrightarrow> 0 \<le> r" "nonneg_f64 Inf"
  by (simp_all add: nonneg_f64_def)

lemma f64_add_nonneg: "nonneg_f64 x \<Longrightarrow> nonneg_f64 y \<Longrightarrow> nonneg_f64 (f64_add x y)"
  by (elim nonneg_f64_cases) (simp_all add: mk_f64_nonneg)

lemma as_secs_nonneg: "nonneg_f64 (as_secs_f64 ns)"
proof -
  have "nonneg_f64 (f64_div x (Fin (10 ^ 9)))" if "nonneg_f64 x" for x
    using that by (elim nonneg_f64_cases) (simp_all add: mk_f64_nonneg inf_of_sign_def)
  then show ?thesis unfolding as_secs_f64_def by (intro f64_add_nonneg mk_f64_nonneg) (simp_all add: mk_f64_nonneg)
qed

end
