(* ===== verification/Config.thy ===== *)
theory Config
  imports Errors F64
begin

text \<open>
  \<^verbatim>\<open>src/src/config.rs\<close>: the configuration sections and the checks of
  \<open>Config::validate\<close> that run at boot. Each \<open>bail!\<close> is a constructor of
  \<open>config_error\<close>. The lemmas extract from a validated configuration what the template
  builder and the difficulty controller rely on.
\<close>

section \<open>Sections\<close>

record pool_config =
  pc_listen_addr :: string
  pc_coinbase_address :: string
  pc_coinbase_tag :: string
  pc_initial_difficulty :: u64
  pc_extranonce1_size :: nat
  pc_extranonce2_size :: nat
  pc_max_connections :: nat
  pc_idle_timeout_secs :: u64
  pc_found_block_dir :: string
  pc_network :: "string option"

record sv2_config =
  s2_enabled :: bool
  s2_persist_authority_key :: bool
  s2_authority_key_file :: string
  s2_cert_validity_secs :: u32

definition sv2_default :: sv2_config where
  "sv2_default = \<lparr>s2_enabled = True, s2_persist_authority_key = True,
     s2_authority_key_file = ''sv2-authority.key'',
     s2_cert_validity_secs = 365 * 24 * 60 * 60\<rparr>"

record rpc_config =
  rc_url :: string
  rc_cookie_path :: "string option"
  rc_user :: "string option"
  rc_password :: "string option"
  rc_timeout_secs :: u64

record vardiff_config =
  vc_target_share_time_secs :: u64
  vc_retarget_interval_secs :: u64
  vc_min_difficulty :: u64
  vc_max_difficulty :: u64
  vc_max_retarget_factor :: f64

record security_config =
  sc_max_connections_per_ip :: u32
  sc_max_shares_per_sec :: u32
  sc_ban_duration_secs :: u64
  sc_max_invalid_shares :: u32
  sc_max_message_bytes :: nat
  sc_max_worker_name_len :: nat
  sc_max_authorizations_per_session :: u32

record metrics_config =
  mc_prometheus_addr :: string
  mc_stats_db_path :: "string option"
  mc_allow_runtime_settings :: bool
  mc_allowed_hosts :: "string list"

record logging_config =
  lc_level :: string
  lc_json :: bool
  lc_log_dir :: "string option"
  lc_log_max_files :: nat

definition log_dir :: "logging_config \<Rightarrow> string option" where
  "log_dir cfg =
     (case map_option str_trim (lc_log_dir cfg) of
        None \<Rightarrow> None
      | Some d \<Rightarrow> if d = [] then None else Some d)"

record config =
  c_pool :: pool_config
  c_bitcoin_rpc :: rpc_config
  c_vardiff :: vardiff_config
  c_security :: security_config
  c_metrics :: metrics_config
  c_logging :: logging_config
  c_sv2 :: sv2_config

section \<open>Credentials\<close>

text \<open>The contents of the cookie file, or \<open>None\<close> when it cannot be read.\<close>

definition read_cookie :: "string option \<Rightarrow> (string \<times> string) option" where
  "read_cookie contents =
     (case contents of None \<Rightarrow> None | Some text \<Rightarrow> split_once (CHR '':'') (str_trim text))"

definition rpc_auth :: "rpc_config \<Rightarrow> string option \<Rightarrow> (string \<times> string) option" where
  "rpc_auth cfg contents =
     (case read_cookie contents of
        Some up \<Rightarrow> Some up
      | None \<Rightarrow>
          (case (rc_user cfg, rc_password cfg) of
             (Some u, Some p) \<Rightarrow> Some (u, p)
           | _ \<Rightarrow> None))"

section \<open>Validation\<close>

datatype config_error =
    LogMaxFilesZero
  | AllowedHostNotBare string
  | ExtranonceZero
  | ExtranonceTooWide nat
  | Extranonce1Zero
  | ScriptSigTooLong nat
  | AuthorityKeyFileEmpty
  | MinDifficultyZero
  | MinAboveMax u64 u64
  | RetargetFactorInvalid f64
  | TargetShareTimeZero
  | RetargetIntervalZero

definition validate_vardiff :: "vardiff_config \<Rightarrow> (config_error, unit) outcome" where
  "validate_vardiff v =
     (if vc_min_difficulty v = 0 then Err MinDifficultyZero
      else if vc_min_difficulty v > vc_max_difficulty v
      then Err (MinAboveMax (vc_min_difficulty v) (vc_max_difficulty v))
      else if \<not> f64_is_finite (vc_max_retarget_factor v) \<or> f64_lt (vc_max_retarget_factor v) (Fin 1)
      then Err (RetargetFactorInvalid (vc_max_retarget_factor v))
      else if vc_target_share_time_secs v = 0 then Err TargetShareTimeZero
      else if vc_retarget_interval_secs v = 0 then Err RetargetIntervalZero
      else Ok ())"

fun check_hosts :: "string list \<Rightarrow> (config_error, unit) outcome" where
  "check_hosts [] = Ok ()"
| "check_hosts (raw # rest) =
     (let entry = str_trim raw
      in if entry = [] \<or> str_contains entry ''://'' \<or> CHR ''/'' \<in> set entry
         then Err (AllowedHostNotBare entry) else check_hosts rest)"

definition MAX_SCRIPT_SIG :: nat where
  "MAX_SCRIPT_SIG = 100"

definition HEIGHT_PUSH_MAX :: nat where
  "HEIGHT_PUSH_MAX = 5"

definition validate :: "config \<Rightarrow> (config_error, unit) outcome" where
  "validate cfg =
     (if lc_log_max_files (c_logging cfg) = 0 then Err LogMaxFilesZero
      else obind (check_hosts (mc_allowed_hosts (c_metrics cfg))) (\<lambda>_.
        let en_total = pc_extranonce1_size (c_pool cfg) + pc_extranonce2_size (c_pool cfg);
            script_sig_len = HEIGHT_PUSH_MAX + length (pc_coinbase_tag (c_pool cfg)) + max en_total 4
        in if en_total = 0 then Err ExtranonceZero
           else if en_total > 32 then Err (ExtranonceTooWide en_total)
           else if pc_extranonce1_size (c_pool cfg) = 0 then Err Extranonce1Zero
           else if script_sig_len > MAX_SCRIPT_SIG then Err (ScriptSigTooLong script_sig_len)
           else if s2_enabled (c_sv2 cfg) \<and> s2_persist_authority_key (c_sv2 cfg)
             \<and> str_trim (s2_authority_key_file (c_sv2 cfg)) = []
           then Err AuthorityKeyFileEmpty
           else validate_vardiff (c_vardiff cfg)))"

section \<open>What validation guarantees\<close>

definition vardiff_config_ok :: "vardiff_config \<Rightarrow> bool" where
  "vardiff_config_ok v \<longleftrightarrow> 1 \<le> vc_min_difficulty v \<and> vc_min_difficulty v \<le> vc_max_difficulty v
     \<and> (\<exists>x. vc_max_retarget_factor v = Fin x \<and> 1 \<le> x)
     \<and> 1 \<le> vc_target_share_time_secs v \<and> 1 \<le> vc_retarget_interval_secs v"

lemma word_ge_1_iff: "1 \<le> (w :: 'a::len word) \<longleftrightarrow> w \<noteq> 0"
  by (metis linorder_not_less word_gt_0 word_less_1)

lemma validate_vardiff_Ok_iff: "validate_vardiff v = Ok () \<longleftrightarrow> vardiff_config_ok v"
  by (cases "vc_max_retarget_factor v") (auto simp: validate_vardiff_def vardiff_config_ok_def word_ge_1_iff)

lemma validate_pool:
  assumes "validate cfg = Ok ()"
  shows "1 \<le> pc_extranonce1_size (c_pool cfg)
     \<and> pc_extranonce1_size (c_pool cfg) + pc_extranonce2_size (c_pool cfg) \<le> 32
     \<and> 5 + length (pc_coinbase_tag (c_pool cfg))
         + max 4 (pc_extranonce1_size (c_pool cfg) + pc_extranonce2_size (c_pool cfg)) \<le> 100
     \<and> vardiff_config_ok (c_vardiff cfg)"
  using assms
  by (auto simp: validate_def Let_def HEIGHT_PUSH_MAX_def MAX_SCRIPT_SIG_def max.commute
      validate_vardiff_Ok_iff split: if_splits)

end
