(* ===== verification/Settings.thy ===== *)
theory Settings
  imports Crates Config
begin

text \<open>
  \<^verbatim>\<open>src/src/settings.rs\<close>: the payout address and the network it must belong to. The
  network is fixed from the node's chain at boot; the address may be replaced by a
  persisted one or from the dashboard, and is offered to the template engine only while
  it validates. The invariant says that the stored flag never claims more than the
  check itself.
\<close>

section \<open>Definitions\<close>

record address_state =
  as_address :: string
  as_valid :: bool

record runtime_settings =
  rs_network :: string
  rs_state :: address_state

definition network_of_chain :: "string \<Rightarrow> string option" where
  "network_of_chain chain =
     (if chain = ''main'' then Some ''mainnet''
      else if chain = ''test'' then Some ''testnet''
      else if chain = ''testnet4'' then Some ''testnet4''
      else if chain = ''signet'' then Some ''signet''
      else if chain = ''regtest'' then Some ''regtest''
      else None)"

definition network_of_name :: "string \<Rightarrow> network option" where
  "network_of_name name =
     (if name = ''mainnet'' then Some Bitcoin
      else if name = ''testnet'' then Some Testnet
      else if name = ''testnet4'' then Some Testnet4
      else if name = ''signet'' then Some Signet
      else if name = ''regtest'' then Some Regtest
      else None)"

text \<open>The three messages of the check, as values.\<close>

datatype address_error = UnknownNetwork string | NotParseable | WrongNetwork string

definition validate_address :: "crates \<Rightarrow> string \<Rightarrow> string \<Rightarrow> (address_error, unit) outcome" where
  "validate_address C address network =
     (case network_of_name network of
        None \<Rightarrow> Err (UnknownNetwork network)
      | Some net \<Rightarrow>
          (case address_script C address of
             None \<Rightarrow> Err NotParseable
           | Some _ \<Rightarrow>
               if require_network C address net then Ok ()
               else Err (WrongNetwork network)))"

datatype settings_error = UnrecognizedChain string | NetworkMismatch string string

definition Settings_new :: "crates \<Rightarrow> pool_config \<Rightarrow> string \<Rightarrow> (settings_error, runtime_settings) outcome" where
  "Settings_new C cfg node_chain =
     (case network_of_chain node_chain of
        None \<Rightarrow> Err (UnrecognizedChain node_chain)
      | Some network \<Rightarrow>
          (case pc_network cfg of
             Some asserted \<Rightarrow>
               if asserted \<noteq> network then Err (NetworkMismatch asserted network)
               else Ok \<lparr>rs_network = network, rs_state = \<lparr>as_address = pc_coinbase_address cfg,
                      as_valid = (validate_address C (pc_coinbase_address cfg) network = Ok ())\<rparr>\<rparr>
           | None \<Rightarrow>
               Ok \<lparr>rs_network = network, rs_state = \<lparr>as_address = pc_coinbase_address cfg,
                  as_valid = (validate_address C (pc_coinbase_address cfg) network = Ok ())\<rparr>\<rparr>))"

definition apply_persisted :: "crates \<Rightarrow> string option \<Rightarrow> runtime_settings \<Rightarrow> runtime_settings" where
  "apply_persisted C address s =
     (case address of
        None \<Rightarrow> s
      | Some addr \<Rightarrow>
          if validate_address C addr (rs_network s) = Ok ()
          then s\<lparr>rs_state := \<lparr>as_address = addr, as_valid = True\<rparr>\<rparr> else s)"

definition paused_reason :: "crates \<Rightarrow> runtime_settings \<Rightarrow> address_error option" where
  "paused_reason C s =
     (if as_valid (rs_state s) then None
      else case validate_address C (as_address (rs_state s)) (rs_network s) of
             Err e \<Rightarrow> Some e
           | _ \<Rightarrow> None)"

definition Settings_update :: "crates \<Rightarrow> string \<Rightarrow> runtime_settings \<Rightarrow> (address_error, runtime_settings) outcome" where
  "Settings_update C address s =
     obind (validate_address C address (rs_network s)) (\<lambda>_.
       Ok (s\<lparr>rs_state := \<lparr>as_address = address, as_valid = True\<rparr>\<rparr>))"

definition valid_coinbase_address :: "runtime_settings \<Rightarrow> string option" where
  "valid_coinbase_address s =
     (if as_valid (rs_state s) then Some (as_address (rs_state s)) else None)"

section \<open>Lemmas\<close>

definition settings_ok :: "crates \<Rightarrow> runtime_settings \<Rightarrow> bool" where
  "settings_ok C s \<longleftrightarrow> network_of_name (rs_network s) \<noteq> None
     \<and> (as_valid (rs_state s) \<longleftrightarrow> validate_address C (as_address (rs_state s)) (rs_network s) = Ok ())"

lemma network_of_chain_known: "network_of_chain chain = Some n \<Longrightarrow> network_of_name n \<noteq> None"
  by (auto simp: network_of_chain_def network_of_name_def split: if_splits)

lemma Settings_new_ok: "Settings_new C cfg chain = Ok s \<Longrightarrow> settings_ok C s"
  by (auto simp: Settings_new_def settings_ok_def split: option.splits if_splits
      dest: network_of_chain_known)

lemma apply_persisted_ok: "settings_ok C s \<Longrightarrow> settings_ok C (apply_persisted C a s)"
  by (auto simp: apply_persisted_def settings_ok_def split: option.splits)

lemma Settings_update_ok: "settings_ok C s \<Longrightarrow> Settings_update C a s = Ok s' \<Longrightarrow> settings_ok C s'"
  by (auto simp: Settings_update_def settings_ok_def)

text \<open>The changes made to the settings while the pool runs.\<close>

datatype settings_op = Persisted "string option" | Update string

fun settings_step :: "crates \<Rightarrow> settings_op \<Rightarrow> runtime_settings \<Rightarrow> runtime_settings" where
  "settings_step C (Persisted a) s = apply_persisted C a s"
| "settings_step C (Update a) s = (case Settings_update C a s of Ok s' \<Rightarrow> s' | _ \<Rightarrow> s)"

lemma settings_step_network: "rs_network (settings_step C a s) = rs_network s"
  by (cases a) (auto simp: apply_persisted_def Settings_update_def split: option.splits outcome.splits)

interpretation payout: preserved "\<lambda>s. settings_ok C s \<and> rs_network s = network" "settings_step C" for C network
proof unfold_locales
  fix s a
  assume "settings_ok C s \<and> rs_network s = network"
  then show "settings_ok C (settings_step C a s) \<and> rs_network (settings_step C a s) = network"
    using Settings_update_ok [of C s] by (cases a) (auto simp: apply_persisted_ok settings_step_network
        simp del: settings_step.simps, auto split: outcome.splits simp: apply_persisted_ok)
qed

section \<open>Properties\<close>

text \<open>
  From boot on, and through every persisted or dashboard change, the address offered to the
  template engine parses as a Bitcoin address and belongs to the network of the node's chain;
  and the network itself never changes.
\<close>

theorem payout_address_on_node_network:
  assumes "Settings_new C cfg chain = Ok s0"
    and "valid_coinbase_address (fold (settings_step C) ops s0) = Some address"
  shows "\<exists>net. network_of_name (rs_network s0) = Some net \<and> address_script C address \<noteq> None
     \<and> require_network C address net \<and> rs_network (fold (settings_step C) ops s0) = rs_network s0
     \<and> network_of_chain chain = Some (rs_network s0)"
proof -
  define s where "s = fold (settings_step C) ops s0"
  have ok: "settings_ok C s" "rs_network s = rs_network s0"
    using payout.run_inv [of C s0 "rs_network s0" ops] Settings_new_ok [OF assms(1)] by (simp_all add: s_def)
  have "as_valid (rs_state s)" "address = as_address (rs_state s)"
    using assms(2) by (auto simp: valid_coinbase_address_def s_def split: if_splits)
  then have "validate_address C address (rs_network s0) = Ok ()" using ok by (simp add: settings_ok_def)
  moreover have "network_of_chain chain = Some (rs_network s0)"
    using assms(1) by (auto simp: Settings_new_def split: option.splits if_splits)
  ultimately show ?thesis
    using ok(2) by (auto simp: validate_address_def s_def split: option.splits if_splits)
qed

definition sample_pool_config :: pool_config where
  "sample_pool_config = \<lparr>pc_listen_addr = ''0.0.0.0:3333'', pc_coinbase_address = ''bc1q'',
     pc_coinbase_tag = ''/solo/'', pc_initial_difficulty = 2000, pc_extranonce1_size = 4,
     pc_extranonce2_size = 8, pc_max_connections = 100, pc_idle_timeout_secs = 600,
     pc_found_block_dir = ''found-blocks'', pc_network = None\<rparr>"

theorem payout_address_witness:
  "\<exists>s0. Settings_new sample_crates sample_pool_config ''main'' = Ok s0
     \<and> valid_coinbase_address (fold (settings_step sample_crates) [Update ''bc1p''] s0) = Some ''bc1p''
     \<and> require_network sample_crates ''bc1p'' Bitcoin"
proof -
  obtain s0 where s0: "Settings_new sample_crates sample_pool_config ''main'' = Ok s0"
    by (auto simp: Settings_new_def network_of_chain_def sample_pool_config_def)
  then have n: "rs_network s0 = ''mainnet''"
    by (auto simp: Settings_new_def network_of_chain_def sample_pool_config_def)
  have "validate_address sample_crates ''bc1p'' ''mainnet'' = Ok ()"
    by (simp add: validate_address_def network_of_name_def sample_crates_def)
  then have v: "valid_coinbase_address (fold (settings_step sample_crates) [Update ''bc1p''] s0) = Some ''bc1p''"
    by (simp add: Settings_update_def valid_coinbase_address_def n)
  show ?thesis
    using payout_address_on_node_network [OF s0 v] s0 v by (auto simp: n network_of_name_def)
qed

end
