(* ===== verification/Rpc.thy ===== *)
theory Rpc
  imports Config Template
begin

text \<open>
  \<^verbatim>\<open>src/src/bitcoin/rpc.rs\<close>: the client of the Bitcoin node. The HTTP transport and the
  JSON-RPC client are third-party code; a call is a parameter that maps the client's
  credentials to the node's answer. Modelled are the one retry after a cookie rotation, the
  reading of a block template, the classification of \<^verbatim>\<open>submitblock\<close> answers, the redaction of
  URLs, the queries for the tip and the network hashrate, and the difficulty estimate.
\<close>

section \<open>The client\<close>

record client =
  cl_url :: string
  cl_user :: string
  cl_pass :: string
  cl_timeout :: u64

record rpc_inner =
  in_client :: client
  in_cookie :: "(string \<times> string) option"

record rpc_client =
  rp_cfg :: rpc_config
  rp_state :: rpc_inner

text \<open>\<open>split_once\<close> at the first occurrence of a non-empty text.\<close>

fun split_once_text :: "string \<Rightarrow> string \<Rightarrow> (string \<times> string) option" where
  "split_once_text pat s =
     (if take (length pat) s = pat then Some ([], drop (length pat) s)
      else case s of [] \<Rightarrow> None
           | x # xs \<Rightarrow> map_option (\<lambda>(a, b). (x # a, b)) (split_once_text pat xs))"

declare split_once_text.simps [simp del]

definition redact_url :: "string \<Rightarrow> string" where
  "redact_url url =
     (case split_once_text ''://'' url of
        None \<Rightarrow> url
      | Some (scheme, rest) \<Rightarrow>
          let authority = takeWhile (\<lambda>c. c \<noteq> CHR ''/'') rest;
              path = dropWhile (\<lambda>c. c \<noteq> CHR ''/'') rest
          in if CHR ''@'' \<in> set authority
             then scheme @ ''://***@'' @ rev (takeWhile (\<lambda>c. c \<noteq> CHR ''@'') (rev authority)) @ path
             else url)"

definition MIN_TIMEOUT_SECS :: u64 where
  "MIN_TIMEOUT_SECS = 5"

definition effective_timeout_secs :: "u64 \<Rightarrow> u64" where
  "effective_timeout_secs configured =
     (if configured < MIN_TIMEOUT_SECS then MIN_TIMEOUT_SECS else configured)"

text \<open>\<open>url_ok\<close> says which addresses the transport builder parses.\<close>

definition build_client :: "(string \<Rightarrow> bool) \<Rightarrow> string \<Rightarrow> string \<times> string \<Rightarrow> u64 \<Rightarrow> client result" where
  "build_client url_ok url auth timeout_secs =
     (if url_ok url
      then Ok \<lparr>cl_url = url, cl_user = fst auth, cl_pass = snd auth, cl_timeout = timeout_secs\<rparr>
      else Err (Other (''Parsing Bitcoin RPC url '' @ redact_url url)))"

definition RpcClient_new :: "(string \<Rightarrow> bool) \<Rightarrow> rpc_config \<Rightarrow> string option \<Rightarrow> rpc_client result" where
  "RpcClient_new url_ok cfg0 cookie_file =
     (let cfg = cfg0\<lparr>rc_timeout_secs := effective_timeout_secs (rc_timeout_secs cfg0)\<rparr>;
          cookie = read_cookie cookie_file
      in obind (of_opt (Other ''no RPC credentials'') (rpc_auth cfg cookie_file)) (\<lambda>auth.
         obind (build_client url_ok (rc_url cfg) auth (rc_timeout_secs cfg)) (\<lambda>cl.
           Ok \<lparr>rp_cfg = cfg, rp_state = \<lparr>in_client = cl, in_cookie = cookie\<rparr>\<rparr>)))"

text \<open>
  One call with at most one retry. The node is asked at two moments, so its two answers are
  two functions of the client, \<open>f1\<close> and \<open>f2\<close>; \<open>cookie_file\<close> is what the cookie file holds
  after the first failure.
\<close>

definition call_with_refresh ::
  "(string \<Rightarrow> bool) \<Rightarrow> (client \<Rightarrow> 'a result) \<Rightarrow> (client \<Rightarrow> 'a result) \<Rightarrow> string option \<Rightarrow> rpc_client
     \<Rightarrow> 'a result \<times> rpc_client" where
  "call_with_refresh url_ok f1 f2 cookie_file rpc =
     (case f1 (in_client (rp_state rpc)) of
        Ok v \<Rightarrow> (Ok v, rpc)
      | Panic \<Rightarrow> (Panic, rpc)
      | Err first_err \<Rightarrow>
          (case read_cookie cookie_file of
             None \<Rightarrow> (Err first_err, rpc)
           | Some fresh_cookie \<Rightarrow>
               if in_cookie (rp_state rpc) = Some fresh_cookie then (Err first_err, rpc)
               else
                 (case build_client url_ok (rc_url (rp_cfg rpc)) fresh_cookie (rc_timeout_secs (rp_cfg rpc)) of
                    Ok new_client \<Rightarrow>
                      (f2 new_client,
                       rpc\<lparr>rp_state := \<lparr>in_client = new_client, in_cookie = Some fresh_cookie\<rparr>\<rparr>)
                  | Err e \<Rightarrow> (Err e, rpc)
                  | Panic \<Rightarrow> (Panic, rpc))))"

section \<open>Reading the node's answers\<close>

fun json_get :: "string \<Rightarrow> json \<Rightarrow> json option" where
  "json_get key (JObject m) = map_of m key"
| "json_get key _ = None"

definition missing_field :: "string \<Rightarrow> pool_error" where
  "missing_field key = Other (''missing or invalid getblocktemplate field: '' @ key)"

definition value_as_string :: "json \<Rightarrow> string \<Rightarrow> string result" where
  "value_as_string v key = of_opt (missing_field key) (Option.bind (json_get key v) as_str)"

definition value_as_u64 :: "json \<Rightarrow> string \<Rightarrow> u64 result" where
  "value_as_u64 v key = of_opt (missing_field key) (Option.bind (json_get key v) as_u64)"

definition value_as_u32 :: "json \<Rightarrow> string \<Rightarrow> u32 result" where
  "value_as_u32 v key =
     obind (value_as_u64 v key) (\<lambda>n.
       if unat n < 2 ^ 32 then Ok (ucast n)
       else Err (Other (''getblocktemplate field out of range for u32: '' @ key)))"

definition parse_gbt_transaction :: "crates \<Rightarrow> json \<Rightarrow> gbt_transaction result" where
  "parse_gbt_transaction C tx =
     obind (of_opt (Other ''GBT transaction missing data field'')
              (Option.bind (json_get ''data'' tx) as_str)) (\<lambda>data_hex.
     obind (of_opt (Other ''GBT transaction data hex decode'') (hex_decode C data_hex)) (\<lambda>data.
     obind (value_as_string tx ''txid'') (\<lambda>txid.
       let hash = (case Option.bind (json_get ''hash'' tx) as_str of
                     Some h \<Rightarrow> h
                   | None \<Rightarrow> (case Option.bind (json_get ''wtxid'' tx) as_str of Some h \<Rightarrow> h | None \<Rightarrow> []))
       in obind (value_as_u64 tx ''fee'') (\<lambda>fee.
          obind (value_as_u64 tx ''weight'') (\<lambda>weight.
            Ok \<lparr>gt_data = data, gt_txid = txid, gt_hash = hash, gt_fee = fee, gt_weight = weight\<rparr>)))))"

text \<open>\<open>unwrap_or_else\<close> on a result.\<close>

fun ok_or :: "'a \<Rightarrow> 'a result \<Rightarrow> 'a" where
  "ok_or d (Ok v) = v"
| "ok_or d _ = d"

definition parse_block_template :: "crates \<Rightarrow> json \<Rightarrow> gbt_result result" where
  "parse_block_template C r =
     obind (case Option.bind (json_get ''transactions'' r) as_array of
              None \<Rightarrow> Ok [] | Some txs \<Rightarrow> omapM (parse_gbt_transaction C) txs) (\<lambda>transactions.
     obind (value_as_u32 r ''version'') (\<lambda>version.
     obind (value_as_string r ''previousblockhash'') (\<lambda>prev_hash.
     obind (value_as_string r ''bits'') (\<lambda>bits.
     obind (value_as_u32 r ''curtime'') (\<lambda>cur_time.
     obind (value_as_u64 r ''height'') (\<lambda>height.
     obind (value_as_u64 r ''coinbasevalue'') (\<lambda>coinbase_value.
       Ok \<lparr>g_version = version, g_prev_hash = prev_hash, g_bits = bits, g_cur_time = cur_time,
           g_min_time = ok_or (ok_or 0 (value_as_u32 r ''curtime'')) (value_as_u32 r ''mintime''),
           g_height = height, g_coinbase_value = coinbase_value, g_transactions = transactions,
           g_longpoll_id = Option.bind (json_get ''longpollid'' r) as_str,
           g_default_witness_commitment = Option.bind (json_get ''default_witness_commitment'' r) as_str,
           g_rules = (case Option.bind (json_get ''rules'' r) as_array of
                        None \<Rightarrow> [] | Some rules \<Rightarrow> List.map_filter as_str rules)\<rparr>)))))))"

definition template_request :: json where
  "template_request = JObject [(''rules'', JArray [JString ''segwit'']),
     (''capabilities'', JArray [JString ''coinbasetxn'', JString ''workid''])]"

text \<open>A call of the JSON-RPC client: method and parameters to the answer or a client error.\<close>

type_synonym node = "client \<Rightarrow> string \<Rightarrow> json list \<Rightarrow> rpc_error + json"

definition rpc_call :: "node \<Rightarrow> string \<Rightarrow> json list \<Rightarrow> client \<Rightarrow> json result" where
  "rpc_call nd meth params c = (case nd c meth params of Inl e \<Rightarrow> Err (Rpc e) | Inr v \<Rightarrow> Ok v)"

definition rpc_chain ::
  "(string \<Rightarrow> bool) \<Rightarrow> node \<Rightarrow> node \<Rightarrow> string option \<Rightarrow> rpc_client \<Rightarrow> string result \<times> rpc_client" where
  "rpc_chain url_ok n1 n2 cookie_file rpc =
     (let (answer, rpc') = call_with_refresh url_ok (rpc_call n1 ''getblockchaininfo'' [])
            (rpc_call n2 ''getblockchaininfo'' []) cookie_file rpc
      in (obind answer (\<lambda>info.
            of_opt (Other (''getblockchaininfo response missing '' @ [CHR 0x27] @ ''chain'' @ [CHR 0x27]))
              (Option.bind (json_get ''chain'' info) as_str)), rpc'))"

definition get_block_template ::
  "crates \<Rightarrow> (string \<Rightarrow> bool) \<Rightarrow> node \<Rightarrow> node \<Rightarrow> string option \<Rightarrow> rpc_client
     \<Rightarrow> gbt_result result \<times> rpc_client" where
  "get_block_template C url_ok n1 n2 cookie_file rpc =
     (let (answer, rpc') = call_with_refresh url_ok (rpc_call n1 ''getblocktemplate'' [template_request])
            (rpc_call n2 ''getblocktemplate'' [template_request]) cookie_file rpc
      in (obind answer (parse_block_template C), rpc'))"

definition submit_answer :: "json \<Rightarrow> unit result" where
  "submit_answer res =
     (if res = JNull then Ok ()
      else case as_str res of
             Some reason \<Rightarrow>
               if reason = ''duplicate'' \<or> reason = ''duplicate-inconclusive'' then Ok ()
               else if reason = ''inconclusive'' then Ok ()
               else Err (SubmitBlockRejected reason)
           | None \<Rightarrow> Err (Other ''unexpected submitblock response''))"

definition submit_block ::
  "(string \<Rightarrow> bool) \<Rightarrow> node \<Rightarrow> node \<Rightarrow> string option \<Rightarrow> string \<Rightarrow> rpc_client \<Rightarrow> unit result \<times> rpc_client" where
  "submit_block url_ok n1 n2 cookie_file block_hex rpc =
     (let (answer, rpc') = call_with_refresh url_ok (rpc_call n1 ''submitblock'' [JString block_hex])
            (rpc_call n2 ''submitblock'' [JString block_hex]) cookie_file rpc
      in (obind answer submit_answer, rpc'))"

text \<open>
  The difficulty estimate, from the chain height and the times of the tip and of the first
  block of the epoch (the answers of the node inside the closure).
\<close>

definition difficulty_change_pct :: "nat \<Rightarrow> nat \<Rightarrow> nat \<Rightarrow> f64 result" where
  "difficulty_change_pct height tip_time start_time =
     (let into_epoch = height mod 2016
      in if into_epoch = 0 then Ok NaN
         else
           let elapsed = mk_f64 (real_of_int (int tip_time - int start_time))
           in if f64_le elapsed (Fin 0) then Ok NaN
              else
                let expected = f64_mul (mk_f64 (real into_epoch)) (Fin 600)
                in f64_clamp (Fin (- 75)) (Fin 300)
                     (f64_mul (f64_sub (f64_div expected elapsed) (Fin 1)) (Fin 100)))"

section \<open>Lemmas\<close>

lemma json_get_JObject: "json_get k (JObject m) = map_of m k"
  by simp

lemma value_as_u64_field: "map_of m k = Some (JNumber (PosInt n)) \<Longrightarrow> value_as_u64 (JObject m) k = Ok n"
  by (simp add: value_as_u64_def of_opt_def)

lemma ucast_u32_u64 [simp]: "unat (ucast (n :: u32) :: u64) = unat n" "ucast (ucast n :: u64) = n"
proof -
  show u: "unat (ucast n :: u64) = unat n"
    using unat_lt [of n] by (simp add: unsigned_ucast_eq take_bit_nat_eq_self_iff)
  show "ucast (ucast n :: u64) = n"
    by (rule bit_word_eqI) (simp add: bit_ucast_iff)
qed

lemma value_as_u32_field:
  "map_of m k = Some (JNumber (PosInt (ucast n))) \<Longrightarrow> value_as_u32 (JObject m) k = Ok n"
  using unat_lt [of n] by (simp add: value_as_u32_def value_as_u64_field)

lemma value_as_string_field: "map_of m k = Some (JString s) \<Longrightarrow> value_as_string (JObject m) k = Ok s"
  by (simp add: value_as_string_def of_opt_def)

lemmas value_fields = value_as_u64_field value_as_u32_field value_as_string_field

text \<open>How the node writes a template (BIP 22 and 23 field names).\<close>

definition tx_json :: "crates \<Rightarrow> gbt_transaction \<Rightarrow> json" where
  "tx_json C tx = JObject [(''data'', JString (hex_encode C (gt_data tx))), (''txid'', JString (gt_txid tx)),
     (''hash'', JString (gt_hash tx)), (''fee'', JNumber (PosInt (gt_fee tx))),
     (''weight'', JNumber (PosInt (gt_weight tx)))]"

definition opt_field :: "string \<Rightarrow> string option \<Rightarrow> (string \<times> json) list" where
  "opt_field key v = (case v of None \<Rightarrow> [] | Some s \<Rightarrow> [(key, JString s)])"

definition template_json :: "crates \<Rightarrow> gbt_result \<Rightarrow> json" where
  "template_json C g = JObject ([
     (''version'', JNumber (PosInt (ucast (g_version g)))),
     (''rules'', JArray (map JString (g_rules g))),
     (''previousblockhash'', JString (g_prev_hash g)),
     (''transactions'', JArray (map (tx_json C) (g_transactions g))),
     (''coinbasevalue'', JNumber (PosInt (g_coinbase_value g))),
     (''mintime'', JNumber (PosInt (ucast (g_min_time g)))),
     (''curtime'', JNumber (PosInt (ucast (g_cur_time g)))),
     (''bits'', JString (g_bits g)),
     (''height'', JNumber (PosInt (g_height g)))]
     @ opt_field ''longpollid'' (g_longpoll_id g)
     @ opt_field ''default_witness_commitment'' (g_default_witness_commitment g))"

lemma parse_tx_json: "hex_ok C \<Longrightarrow> parse_gbt_transaction C (tx_json C tx) = Ok tx"
  by (simp add: parse_gbt_transaction_def tx_json_def of_opt_def hex_ok_def value_fields Let_def)

lemma omapM_tx_json: "hex_ok C \<Longrightarrow> omapM (parse_gbt_transaction C) (map (tx_json C) txs) = Ok txs"
  by (induction txs) (simp_all add: parse_tx_json)

lemma map_filter_JString: "List.map_filter as_str (map JString xs) = xs"
  by (induction xs) (simp_all add: List.map_filter_def)

lemma parse_template_json: "hex_ok C \<Longrightarrow> parse_block_template C (template_json C g) = Ok g"
  by (simp add: parse_block_template_def template_json_def value_fields omapM_tx_json map_filter_JString
      opt_field_def split: option.splits)

lemma split_scheme:
  "CHR '':'' \<notin> set scheme \<Longrightarrow> split_once_text ''://'' (scheme @ ''://'' @ rest) = Some (scheme, rest)"
proof (induction scheme)
  case Nil
  show ?case by (subst split_once_text.simps) simp
next
  case (Cons c cs)
  then have "c \<noteq> CHR '':''" by auto
  with Cons show ?case by (subst split_once_text.simps) simp
qed

lemma redact_url_userinfo:
  assumes "CHR '':'' \<notin> set scheme" "CHR ''/'' \<notin> set userinfo" "CHR ''/'' \<notin> set host" "CHR ''@'' \<notin> set host"
    "path = [] \<or> take 1 path = ''/''"
  shows "redact_url (scheme @ ''://'' @ userinfo @ ''@'' @ host @ path) = scheme @ ''://***@'' @ host @ path"
proof -
  define rest where "rest = userinfo @ ''@'' @ host @ path"
  have path: "takeWhile (\<lambda>c. c \<noteq> CHR ''/'') path = []" "dropWhile (\<lambda>c. c \<noteq> CHR ''/'') path = path"
    using assms(5) by (cases path; simp)+
  have tw: "takeWhile (\<lambda>c. c \<noteq> CHR ''/'') rest = userinfo @ ''@'' @ host"
    and dw: "dropWhile (\<lambda>c. c \<noteq> CHR ''/'') rest = path"
    using assms(2,3) path by (auto simp: rest_def takeWhile_append dropWhile_append)
  have "takeWhile (\<lambda>c. c \<noteq> CHR ''@'') (rev host @ CHR ''@'' # rev userinfo) = rev host"
    using assms(4) by (auto simp: takeWhile_append)
  with split_scheme [OF assms(1), of rest] show ?thesis
    by (simp add: redact_url_def tw dw Let_def flip: rest_def) (simp add: rest_def tw [unfolded rest_def, simplified] dw [unfolded rest_def, simplified])
qed

lemma call_with_refresh_total:
  "(\<And>c. f1 c \<noteq> Panic) \<Longrightarrow> (\<And>c. f2 c \<noteq> Panic) \<Longrightarrow> fst (call_with_refresh ok f1 f2 cf rpc) \<noteq> Panic"
  by (auto simp: call_with_refresh_def build_client_def split: outcome.splits option.splits)

lemma f64_clamp_range:
  "f64_clamp lo hi x = (Ok y :: f64 result) \<Longrightarrow> y = NaN \<or> f64_le lo y \<and> f64_le y hi"
  by (cases lo; cases hi; cases x) (auto simp: f64_clamp_def split: if_splits)

text \<open>
  The state of the client between calls: whenever a cookie is recorded, the client
  authenticates with it, and the address and the timeout are those of the configuration.
\<close>

definition rpc_client_ok :: "rpc_client \<Rightarrow> bool" where
  "rpc_client_ok rpc \<longleftrightarrow>
     (let c = in_client (rp_state rpc)
      in cl_url c = rc_url (rp_cfg rpc) \<and> cl_timeout c = rc_timeout_secs (rp_cfg rpc)
         \<and> MIN_TIMEOUT_SECS \<le> cl_timeout c
         \<and> (in_cookie (rp_state rpc) = None \<or> in_cookie (rp_state rpc) = Some (cl_user c, cl_pass c)))"

lemma effective_timeout_floor: "MIN_TIMEOUT_SECS \<le> effective_timeout_secs t"
  by (auto simp: effective_timeout_secs_def)

lemma RpcClient_new_ok: "RpcClient_new url_ok cfg cf = Ok rpc \<Longrightarrow> rpc_client_ok rpc"
  by (auto simp: RpcClient_new_def Let_def build_client_def rpc_auth_def rpc_client_ok_def of_opt_def
      effective_timeout_floor split: option.splits if_splits prod.splits)

text \<open>One call, as an operation: what the node answers at both moments and the cookie file.\<close>

definition rpc_step :: "(string \<Rightarrow> bool) \<Rightarrow> (client \<Rightarrow> json result) \<times> (client \<Rightarrow> json result) \<times> string option
     \<Rightarrow> rpc_client \<Rightarrow> rpc_client" where
  "rpc_step url_ok = (\<lambda>(f1, f2, cookie_file) rpc. snd (call_with_refresh url_ok f1 f2 cookie_file rpc))"

lemma rpc_step_ok: "rpc_client_ok rpc \<Longrightarrow> rpc_client_ok (rpc_step url_ok a rpc)"
  by (cases a) (auto simp: rpc_step_def call_with_refresh_def rpc_client_ok_def build_client_def Let_def
      split: outcome.splits option.splits if_splits)

interpretation rpcs: preserved rpc_client_ok "rpc_step url_ok" for url_ok
  by unfold_locales (rule rpc_step_ok)

section \<open>Properties\<close>

text \<open>
  Whatever sequence of calls the client makes, and whatever the node answers and the cookie
  file holds, the client authenticates with the last cookie it recorded, talks to the configured
  address and keeps a timeout of at least five seconds; and a failing call is retried exactly when
  the cookie file holds other credentials than the recorded ones, with those.
\<close>

theorem cookie_rotation_recovery:
  assumes "RpcClient_new url_ok cfg cookie0 = Ok rpc0" and "rpc = fold (rpc_step url_ok) ops rpc0"
    and "f1 (in_client (rp_state rpc)) = Err e"
  shows "rpc_client_ok rpc
     \<and> (read_cookie cookie = None \<or> read_cookie cookie = in_cookie (rp_state rpc) \<longrightarrow>
          call_with_refresh url_ok f1 f2 cookie rpc = (Err e, rpc))
     \<and> (\<forall>u p. read_cookie cookie = Some (u, p) \<and> in_cookie (rp_state rpc) \<noteq> Some (u, p)
            \<and> url_ok (rc_url (rp_cfg rpc)) \<longrightarrow>
          fst (call_with_refresh url_ok f1 f2 cookie rpc)
            = f2 \<lparr>cl_url = rc_url (rp_cfg rpc), cl_user = u, cl_pass = p,
                  cl_timeout = rc_timeout_secs (rp_cfg rpc)\<rparr>)"
  using rpcs.run_inv [OF RpcClient_new_ok [OF assms(1)]] assms(2,3)
  by (auto simp: call_with_refresh_def build_client_def split: option.splits)

text \<open>
  A block template the node reports is read back exactly, field by field and transaction by
  transaction, and reading it leaves the client unchanged.
\<close>

theorem block_template_roundtrip:
  assumes "hex_ok C" and "n1 (in_client (rp_state rpc)) ''getblocktemplate'' [template_request] = Inr (template_json C g)"
  shows "get_block_template C url_ok n1 n2 cookie rpc = (Ok g, rpc)"
  using assms by (simp add: get_block_template_def call_with_refresh_def rpc_call_def parse_template_json)

text \<open>
  The user name and password in a URL never reach the text that is logged: the redacted URL
  is the same whatever they are, and the rest of the URL is kept.
\<close>

theorem url_credentials_redacted:
  assumes "CHR '':'' \<notin> set scheme" "CHR ''/'' \<notin> set userinfo" "CHR ''/'' \<notin> set host" "CHR ''@'' \<notin> set host"
    "path = [] \<or> take 1 path = ''/''"
  shows "redact_url (scheme @ ''://'' @ userinfo @ ''@'' @ host @ path) = scheme @ ''://***@'' @ host @ path"
  by (rule redact_url_userinfo [OF assms])

definition sample_rpc_config :: rpc_config where
  "sample_rpc_config = \<lparr>rc_url = ''http://127.0.0.1:8332'', rc_cookie_path = None, rc_user = Some ''u'',
     rc_password = Some ''p'', rc_timeout_secs = 2\<rparr>"

definition sample_client :: client where
  "sample_client = \<lparr>cl_url = ''http://127.0.0.1:8332'', cl_user = ''u'', cl_pass = ''p'', cl_timeout = 5\<rparr>"

definition sample_rpc :: rpc_client where
  "sample_rpc = \<lparr>rp_cfg = sample_rpc_config\<lparr>rc_timeout_secs := 5\<rparr>,
     rp_state = \<lparr>in_client = sample_client, in_cookie = None\<rparr>\<rparr>"

lemma sample_rpc_new: "RpcClient_new (\<lambda>_. True) sample_rpc_config None = Ok sample_rpc"
  by (simp add: RpcClient_new_def sample_rpc_config_def sample_rpc_def sample_client_def rpc_auth_def
      read_cookie_def of_opt_def build_client_def effective_timeout_secs_def MIN_TIMEOUT_SECS_def Let_def)

theorem cookie_rotation_witness:
  "rpc_client_ok sample_rpc
   \<and> call_with_refresh (\<lambda>_. True) (\<lambda>_. Err (Rpc (OtherRpcError ''401''))) (\<lambda>_. Ok ()) None sample_rpc
       = (Err (Rpc (OtherRpcError ''401'')), sample_rpc)"
  using cookie_rotation_recovery [OF sample_rpc_new, of sample_rpc "[]"
      "\<lambda>_. Err (Rpc (OtherRpcError ''401'')) :: unit result" _ None "\<lambda>_. Ok ()"]
  by (simp add: read_cookie_def)

theorem block_template_witness:
  "get_block_template sample_crates (\<lambda>_. True) (\<lambda>_ _ _. Inr (template_json sample_crates sample_gbt))
     (\<lambda>_ _ _. Inr JNull) None sample_rpc = (Ok sample_gbt, sample_rpc)"
  by (rule block_template_roundtrip) simp_all

theorem url_credentials_witness:
  "redact_url (''http'' @ ''://'' @ ''alice:p@ss'' @ ''@'' @ ''node.lan:8332'' @ ''/wallet/x'')
     = ''http'' @ ''://***@'' @ ''node.lan:8332'' @ ''/wallet/x''"
  by (rule url_credentials_redacted) simp_all

text \<open>
  The typed calls of the client crate, as the parameters \<open>queries\<close>: the answers of the node to
  one client at one moment.
\<close>

record queries =
  qu_block_count :: "client \<Rightarrow> rpc_error + u64"
  qu_block_hash :: "client \<Rightarrow> u64 \<Rightarrow> rpc_error + string"
  qu_header_time :: "client \<Rightarrow> string \<Rightarrow> rpc_error + u32"
  qu_best_block_hash :: "client \<Rightarrow> rpc_error + string"
  qu_network_hash_ps :: "client \<Rightarrow> u64 option \<Rightarrow> u64 option \<Rightarrow> rpc_error + f64"

fun map_rpc :: "rpc_error + 'a \<Rightarrow> 'a result" where
  "map_rpc (Inl e) = Err (Rpc e)"
| "map_rpc (Inr v) = Ok v"

definition best_block_hash ::
  "(string \<Rightarrow> bool) \<Rightarrow> queries \<Rightarrow> queries \<Rightarrow> string option \<Rightarrow> rpc_client \<Rightarrow> string result \<times> rpc_client" where
  "best_block_hash url_ok q1 q2 cookie_file rpc =
     call_with_refresh url_ok (\<lambda>c. map_rpc (qu_best_block_hash q1 c)) (\<lambda>c. map_rpc (qu_best_block_hash q2 c))
       cookie_file rpc"

definition network_hashrate ::
  "(string \<Rightarrow> bool) \<Rightarrow> queries \<Rightarrow> queries \<Rightarrow> string option \<Rightarrow> u64 option \<Rightarrow> u64 option \<Rightarrow> rpc_client
     \<Rightarrow> f64 result \<times> rpc_client" where
  "network_hashrate url_ok q1 q2 cookie_file blocks height rpc =
     call_with_refresh url_ok (\<lambda>c. map_rpc (qu_network_hash_ps q1 c blocks height))
       (\<lambda>c. map_rpc (qu_network_hash_ps q2 c blocks height)) cookie_file rpc"

definition difficulty_change_query :: "queries \<Rightarrow> client \<Rightarrow> f64 result" where
  "difficulty_change_query q c =
     obind (map_rpc (qu_block_count q c)) (\<lambda>height.
       let into_epoch = height mod 2016
       in if into_epoch = 0 then Ok NaN
          else
            let epoch_start = height - into_epoch
            in obind (map_rpc (qu_block_hash q c height)) (\<lambda>tip_hash.
               obind (map_rpc (qu_block_hash q c epoch_start)) (\<lambda>start_hash.
               obind (map_rpc (qu_header_time q c tip_hash)) (\<lambda>tip_time.
               obind (map_rpc (qu_header_time q c start_hash)) (\<lambda>start_time.
                 difficulty_change_pct (unat height) (unat tip_time) (unat start_time))))))"

definition estimate_difficulty_change_pct ::
  "(string \<Rightarrow> bool) \<Rightarrow> queries \<Rightarrow> queries \<Rightarrow> string option \<Rightarrow> rpc_client \<Rightarrow> f64 result \<times> rpc_client" where
  "estimate_difficulty_change_pct url_ok q1 q2 cookie_file rpc =
     call_with_refresh url_ok (difficulty_change_query q1) (difficulty_change_query q2) cookie_file rpc"

lemma f64_clamp_pct:
  assumes "f64_clamp (Fin (- 75)) (Fin 300) x = Ok y"
  shows "y = NaN \<or> (\<exists>p. y = Fin p \<and> - 75 \<le> p \<and> p \<le> 300)"
  using assms by (cases x) (auto simp: f64_clamp_def split: if_splits)

lemma map_rpc_Ok_iff [simp]: "map_rpc x = Ok v \<longleftrightarrow> x = Inr v"
  by (cases x) simp_all

lemma difficulty_change_pct_range:
  "difficulty_change_pct height tip_time start_time = Ok y \<Longrightarrow> y = NaN \<or> (\<exists>p. y = Fin p \<and> - 75 \<le> p \<and> p \<le> 300)"
  by (auto simp: difficulty_change_pct_def Let_def dest!: f64_clamp_pct split: if_splits)

lemma difficulty_change_query_range:
  "difficulty_change_query q c = Ok y \<Longrightarrow> y = NaN \<or> (\<exists>p. y = Fin p \<and> - 75 \<le> p \<and> p \<le> 300)"
  by (auto simp: difficulty_change_query_def Let_def dest!: difficulty_change_pct_range split: if_splits)

lemma call_with_refresh_Ok:
  assumes "call_with_refresh url_ok f1 f2 cookie_file rpc = (Ok v, rpc')"
  obtains c where "f1 c = Ok v \<or> f2 c = Ok v"
  using assms by (auto simp: call_with_refresh_def split: outcome.splits option.splits if_splits)

text \<open>
  An estimate is undefined (a NaN) or a percentage the protocol can produce: a retarget changes
  the difficulty at most fourfold.
\<close>

lemma difficulty_estimate_is_possible:
  assumes "estimate_difficulty_change_pct url_ok q1 q2 cookie_file rpc = (Ok y, rpc')"
  shows "y = NaN \<or> (\<exists>p. y = Fin p \<and> - 75 \<le> p \<and> p \<le> 300)"
  using call_with_refresh_Ok [OF assms [unfolded estimate_difficulty_change_pct_def]]
    difficulty_change_query_range by metis

end
