(* ===== verification/Engine.thy ===== *)
theory Engine
  imports Validator Settings Rpc "HOL-Library.AList" "HOL-Library.List_Lexorder" "HOL-Library.Char_ord"
begin

text \<open>
  \<^verbatim>\<open>src/src/mining/engine.rs\<close>: the template engine. It keeps the current job and the last eight
  jobs, refreshes them from the node, answers job look-ups for share validation, and gets
  found blocks to the node: three attempts in line, then a background task, with the block
  archived on disk until the node has confirmed it and replayed from there at boot.
  A refresh is one step here (\<open>Tips\<close> takes it apart into the moves between which other tasks
  can run); what it sends to the statistics and to the sessions is its
  list of effects, and the detached tasks a submission starts are its list of tasks.
\<close>

section \<open>State\<close>

definition JOB_HISTORY_DEPTH :: nat where
  "JOB_HISTORY_DEPTH = 8"

definition SUBMIT_INLINE_ATTEMPTS :: nat where
  "SUBMIT_INLINE_ATTEMPTS = 3"

definition SUBMIT_RETRY_INTERVAL :: nat where
  "SUBMIT_RETRY_INTERVAL = secs 10"

definition SUBMIT_RETRY_DEADLINE :: nat where
  "SUBMIT_RETRY_DEADLINE = secs (2 * 60 * 60)"

definition tip_moved :: "string option \<Rightarrow> string \<Rightarrow> bool" where
  "tip_moved current_prev_hash new_prev_hash \<longleftrightarrow> current_prev_hash \<noteq> Some new_prev_hash"

record job_broadcast =
  jb_job :: stratum_job
  jb_clean :: bool

text \<open>Why the last refresh built no job: the three messages, as values.\<close>

datatype template_failure =
    PausedNoAddress
  | GetBlockTemplateFailed pool_error
  | BuildJobFailed pool_error

text \<open>
  The engine, with the process-wide job counter. The node is reached through the client
  \<open>en_rpc\<close>; what it answers during one call is a \<open>node_view\<close>.
\<close>

record template_engine =
  en_rpc :: rpc_client
  en_pool_cfg :: pool_config
  en_settings :: runtime_settings
  en_current_job :: "stratum_job option"
  en_job_history :: "job_entry list"
  en_inflight_submits :: nat
  en_last_template_ok :: "nat option"
  en_last_template_error :: "template_failure option"
  en_job_counter :: u64

record node_view =
  nv_url_ok :: "string \<Rightarrow> bool"
  nv_first :: node
  nv_second :: node
  nv_cookie_file :: "string option"

datatype engine_effect =
    MetricJobHeight u64
  | StatsUpdateHeight u64 u64 nat
  | StatsNetworkDifficulty f64
  | Broadcast job_broadcast

record template_health =
  th_age_secs :: "nat option"
  th_error :: "template_failure option"

definition TemplateEngine_new :: "rpc_client \<Rightarrow> pool_config \<Rightarrow> runtime_settings \<Rightarrow> u64 \<Rightarrow> template_engine" where
  "TemplateEngine_new rpc cfg settings counter =
     \<lparr>en_rpc = rpc, en_pool_cfg = cfg, en_settings = settings, en_current_job = None, en_job_history = [],
      en_inflight_submits = 0, en_last_template_ok = None, en_last_template_error = None,
      en_job_counter = counter\<rparr>"

definition template_health :: "nat \<Rightarrow> template_engine \<Rightarrow> template_health" where
  "template_health now e =
     \<lparr>th_age_secs = map_option (\<lambda>t. (now - t) div 10 ^ 9) (en_last_template_ok e),
      th_error = en_last_template_error e\<rparr>"

definition note_template_failure :: "template_failure \<Rightarrow> template_engine \<Rightarrow> template_engine" where
  "note_template_failure why e = e\<lparr>en_last_template_error := Some why\<rparr>"

section \<open>Refreshing the template\<close>

text \<open>\<open>2f64.powf(x)\<close>, as the correctly rounded power.\<close>

fun f64_powf2 :: "f64 \<Rightarrow> f64" where
  "f64_powf2 (Fin x) = mk_f64 (2 powr x)"
| "f64_powf2 Inf = Inf"
| "f64_powf2 NegInf = Fin 0"
| "f64_powf2 NaN = NaN"

definition bits_to_difficulty :: "string \<Rightarrow> f64 result" where
  "bits_to_difficulty bits_hex =
     obind (of_opt (Other (''Invalid bits: '' @ bits_hex)) (u32_from_hex bits_hex)) (\<lambda>bits.
       let exponent = (bits div 2 ^ 24) AND 0xff;
           mantissa = ucast (bits AND 0x007fffff) :: u64
       in if mantissa = 0 then Err (Other ''Invalid bits mantissa = 0'')
          else
            let exponent_factor = f64_sub (Fin 232) (f64_mul (Fin 8) (f64_of_u64 exponent))
            in Ok (f64_mul (f64_div (Fin 0x00ffff) (f64_of_u64 mantissa)) (f64_powf2 exponent_factor)))"

definition publish_template_stats :: "stratum_job \<Rightarrow> engine_effect list" where
  "publish_template_stats job =
     [MetricJobHeight (j_height job),
      StatsUpdateHeight (j_height job) (j_coinbase_value job) (length (j_transactions job))]
     @ (case bits_to_difficulty (j_bits job) of Ok d \<Rightarrow> [StatsNetworkDifficulty d] | _ \<Rightarrow> [])"

definition push_history :: "job_entry \<Rightarrow> job_entry list \<Rightarrow> job_entry list" where
  "push_history entry history =
     (if JOB_HISTORY_DEPTH \<le> length history then tl history else history) @ [entry]"

text \<open>
  \<open>millis\<close> is the wall clock that fixed the job epoch; \<open>ok_at\<close> and \<open>created_at\<close> are the two
  instants the function reads.
\<close>

definition refresh ::
  "crates \<Rightarrow> u64 \<Rightarrow> node_view \<Rightarrow> nat \<Rightarrow> nat \<Rightarrow> bool \<Rightarrow> template_engine
     \<Rightarrow> (template_engine \<times> engine_effect list) result" where
  "refresh C millis view ok_at created_at clean e =
     (case valid_coinbase_address (en_settings e) of
        None \<Rightarrow>
          Ok (note_template_failure PausedNoAddress e, [])
      | Some coinbase_address \<Rightarrow>
          (let (answer, rpc') = get_block_template C (nv_url_ok view) (nv_first view) (nv_second view)
                 (nv_cookie_file view) (en_rpc e);
               e1 = e\<lparr>en_rpc := rpc'\<rparr>
           in case answer of
                Panic \<Rightarrow> Panic
              | Err err \<Rightarrow> Ok (note_template_failure (GetBlockTemplateFailed err) e1, [])
              | Ok gbt \<Rightarrow>
                  (let (built, counter') = build_job C millis (en_job_counter e) gbt coinbase_address
                         (str_bytes (pc_coinbase_tag (en_pool_cfg e)))
                         (pc_extranonce1_size (en_pool_cfg e)) (pc_extranonce2_size (en_pool_cfg e));
                       e2 = e1\<lparr>en_job_counter := counter'\<rparr>
                   in case built of
                        Panic \<Rightarrow> Panic
                      | Err err \<Rightarrow> Ok (note_template_failure (BuildJobFailed err) e2, [])
                      | Ok job \<Rightarrow>
                          let tip_changed = tip_moved (map_option j_prev_hash (en_current_job e2)) (j_prev_hash job);
                              clean_jobs = clean \<or> tip_changed
                          in Ok (e2\<lparr>en_current_job := Some job,
                                   en_last_template_ok := Some ok_at,
                                   en_last_template_error := None,
                                   en_job_history := push_history
                                     \<lparr>je_job = job, je_created_at = created_at, je_clean = clean_jobs,
                                      je_superseded_by_clean = False\<rparr> (en_job_history e2)\<rparr>,
                                 publish_template_stats job
                                 @ [Broadcast \<lparr>jb_job = job, jb_clean = clean_jobs\<rparr>]))))"

definition force_refresh ::
  "crates \<Rightarrow> u64 \<Rightarrow> node_view \<Rightarrow> nat \<Rightarrow> nat \<Rightarrow> template_engine
     \<Rightarrow> (template_engine \<times> engine_effect list) result" where
  "force_refresh C millis view ok_at created_at e = refresh C millis view ok_at created_at True e"

text \<open>\<open>position\<close> on an iterator.\<close>

fun position :: "('a \<Rightarrow> bool) \<Rightarrow> 'a list \<Rightarrow> nat option" where
  "position P [] = None"
| "position P (x # xs) = (if P x then Some 0 else map_option Suc (position P xs))"

definition find_job :: "string \<Rightarrow> template_engine \<Rightarrow> job_entry option" where
  "find_job job_id e =
     (case position (\<lambda>h. j_job_id (je_job h) = job_id) (en_job_history e) of
        None \<Rightarrow> None
      | Some idx \<Rightarrow>
          (case nth_opt (en_job_history e) idx of
             None \<Rightarrow> None
           | Some entry \<Rightarrow>
               Some (entry\<lparr>je_superseded_by_clean := list_ex je_clean (drop (idx + 1) (en_job_history e))\<rparr>)))"

section \<open>Submitting a found block\<close>

definition is_permanent_reject :: "pool_error \<Rightarrow> bool" where
  "is_permanent_reject e = (case e of SubmitBlockRejected _ \<Rightarrow> True | _ \<Rightarrow> False)"

definition is_node_side_error :: "pool_error \<Rightarrow> bool" where
  "is_node_side_error e = (case e of Rpc (JsonRpcError _) \<Rightarrow> True | _ \<Rightarrow> False)"

definition try_submit :: "node_view \<Rightarrow> string \<Rightarrow> rpc_client \<Rightarrow> unit result \<times> rpc_client" where
  "try_submit view block_text rpc =
     (let (answer, rpc') = submit_block (nv_url_ok view) (nv_first view) (nv_second view)
            (nv_cookie_file view) block_text rpc
      in (case answer of Panic \<Rightarrow> Err (Other ''submitblock task panicked'') | _ \<Rightarrow> answer, rpc'))"

text \<open>Whom a block accepted late is credited to; a replay at boot credits nobody.\<close>

type_synonym credit = "string option"

datatype block_task =
    ArchiveBlock u64 string string
  | MarkSubmitted u64 string
  | Resubmit u64 string string credit

text \<open>How the in-line attempts ended.\<close>

datatype inline_result = InlineAccepted | InlineRejected pool_error | InlineExhausted "pool_error option"

definition InflightSubmit_new :: "template_engine \<Rightarrow> template_engine" where
  "InflightSubmit_new e = e\<lparr>en_inflight_submits := en_inflight_submits e + 1\<rparr>"

definition InflightSubmit_drop :: "template_engine \<Rightarrow> template_engine" where
  "InflightSubmit_drop e = e\<lparr>en_inflight_submits := en_inflight_submits e - 1\<rparr>"

text \<open>
  The attempts still to make; \<open>views n\<close> is what the node answers to attempt \<open>n\<close>, and the
  last component is the time slept between attempts, in milliseconds.
\<close>

fun submit_attempts ::
  "(nat \<Rightarrow> node_view) \<Rightarrow> string \<Rightarrow> nat list \<Rightarrow> pool_error option \<Rightarrow> rpc_client \<Rightarrow> inline_result \<times> rpc_client \<times> nat" where
  "submit_attempts views block_text [] last_err rpc = (InlineExhausted last_err, rpc, 0)"
| "submit_attempts views block_text (attempt # rest) last_err rpc =
     (let (answer, rpc') = try_submit (views attempt) block_text rpc
      in case answer of
           Ok _ \<Rightarrow> (InlineAccepted, rpc', 0)
         | Panic \<Rightarrow> (InlineExhausted last_err, rpc', 0)
         | Err e \<Rightarrow>
             if is_permanent_reject e then (InlineRejected e, rpc', 0)
             else
               let (res, rpc'', slept) = submit_attempts views block_text rest (Some e) rpc'
               in (res, rpc'', (if attempt < SUBMIT_INLINE_ATTEMPTS then 500 * 2 ^ attempt else 0) + slept))"

definition submit_found_block ::
  "(nat \<Rightarrow> node_view) \<Rightarrow> u64 \<Rightarrow> string \<Rightarrow> string \<Rightarrow> string \<Rightarrow> template_engine
     \<Rightarrow> unit result \<times> template_engine \<times> block_task list \<times> nat" where
  "submit_found_block views height hash_hex block_text worker e =
     (let e1 = InflightSubmit_new e;
          (res, rpc', slept) = submit_attempts views block_text [1..<Suc SUBMIT_INLINE_ATTEMPTS] None (en_rpc e1);
          e2 = InflightSubmit_drop (e1\<lparr>en_rpc := rpc'\<rparr>);
          archive = ArchiveBlock height hash_hex block_text
      in case res of
           InlineAccepted \<Rightarrow> (Ok (), e2, [archive, MarkSubmitted height hash_hex], slept)
         | InlineRejected err \<Rightarrow> (Err err, e2, [archive], slept)
         | InlineExhausted last_err \<Rightarrow>
             (Err (case last_err of Some err \<Rightarrow> err | None \<Rightarrow> Other ''submitblock never attempted''), e2,
              [archive, Resubmit height hash_hex block_text (Some worker)], slept))"

text \<open>
  The background task. \<open>clock k\<close> is the instant read at the head of iteration \<open>k\<close> and
  \<open>views k\<close> what the node answers in it; \<open>None\<close> when the fuel is spent.
\<close>

datatype resubmit_effect = TaskMarkSubmitted u64 string | MetricBlockFound | MetricSubmissionSuccess
  | StatsBlockFound string string u64

datatype resubmit_result = ResubmitAccepted "resubmit_effect list" | ResubmitRejected pool_error | GaveUp

definition late_credit :: "u64 \<Rightarrow> string \<Rightarrow> credit \<Rightarrow> resubmit_effect list" where
  "late_credit height hash_hex cr =
     TaskMarkSubmitted height hash_hex #
     (case cr of
        None \<Rightarrow> []
      | Some worker \<Rightarrow> [MetricBlockFound, MetricSubmissionSuccess, StatsBlockFound worker hash_hex height])"

fun resubmit_loop ::
  "nat \<Rightarrow> (nat \<Rightarrow> nat) \<Rightarrow> (nat \<Rightarrow> node_view) \<Rightarrow> nat \<Rightarrow> u64 \<Rightarrow> string \<Rightarrow> string \<Rightarrow> credit \<Rightarrow> nat
     \<Rightarrow> rpc_client \<Rightarrow> (resubmit_result \<times> rpc_client \<times> nat) option" where
  "resubmit_loop 0 clock views deadline height hash_hex block_text cr k rpc = None"
| "resubmit_loop (Suc fuel) clock views deadline height hash_hex block_text cr k rpc =
     (if clock k < deadline then
        (let (answer, rpc') = try_submit (views k) block_text rpc
         in case answer of
              Ok _ \<Rightarrow> Some (ResubmitAccepted (late_credit height hash_hex cr), rpc', Suc k)
            | Panic \<Rightarrow> None
            | Err e \<Rightarrow>
                if is_permanent_reject e then Some (ResubmitRejected e, rpc', Suc k)
                else resubmit_loop fuel clock views deadline height hash_hex block_text cr (Suc k) rpc')
      else Some (GaveUp, rpc, k))"

definition spawn_resubmit_task ::
  "nat \<Rightarrow> nat \<Rightarrow> (nat \<Rightarrow> nat) \<Rightarrow> (nat \<Rightarrow> node_view) \<Rightarrow> u64 \<Rightarrow> string \<Rightarrow> string \<Rightarrow> credit \<Rightarrow> rpc_client
     \<Rightarrow> (resubmit_result \<times> rpc_client \<times> nat) option" where
  "spawn_resubmit_task fuel started clock views height hash_hex block_text cr rpc =
     resubmit_loop fuel clock views (started + SUBMIT_RETRY_DEADLINE) height hash_hex block_text cr 0 rpc"

section \<open>The block archive\<close>

text \<open>
  A path is the list of the components it is joined from; the files of the archive
  directory are an association list from paths to contents. A file operation of the
  operating system may fail, which is its Boolean argument.
\<close>

type_synonym path = "string list"
type_synonym files = "(path \<times> string) list"

definition archive_name :: "u64 \<Rightarrow> string \<Rightarrow> string" where
  "archive_name height hash_hex = ''block_'' @ fmt_dec (unat height) @ ''_'' @ hash_hex @ ''.hex''"

definition archive_path :: "string \<Rightarrow> u64 \<Rightarrow> string \<Rightarrow> path" where
  "archive_path dir height hash_hex = [dir, archive_name height hash_hex]"

definition is_ascii_hexdigit :: "char \<Rightarrow> bool" where
  "is_ascii_hexdigit c \<longleftrightarrow> digit_val c \<noteq> None"

definition file_name :: "path \<Rightarrow> string option" where
  "file_name p = (if p = [] then None else Some (last p))"

definition path_display :: "path \<Rightarrow> string" where
  "path_display p = tl (concat (map (\<lambda>c. CHR ''/'' # c) p))"

definition parse_archive_name :: "path \<Rightarrow> (u64 \<times> string) option" where
  "parse_archive_name p =
     (case Option.bind (file_name p) (strip_suffix ''.hex'') of
        None \<Rightarrow> None
      | Some stem \<Rightarrow>
          (case strip_prefix ''block_'' stem of
             None \<Rightarrow> None
           | Some rest \<Rightarrow>
               (case split_once (CHR ''_'') rest of
                  None \<Rightarrow> None
                | Some (height, hash) \<Rightarrow>
                    (case parse_u64 height of
                       None \<Rightarrow> None
                     | Some h \<Rightarrow>
                         if length hash = 64 \<and> list_all is_ascii_hexdigit hash then Some (h, hash) else None))))"

text \<open>\<open>Path::extension\<close>: what follows the last dot of a file name that has a non-empty stem.\<close>

definition extension :: "string \<Rightarrow> string option" where
  "extension name =
     (let ext = rev (takeWhile (\<lambda>c. c \<noteq> CHR ''.'') (rev name))
      in if CHR ''.'' \<in> set name \<and> length ext + 1 < length name then Some ext else None)"

definition archived_name :: "string \<Rightarrow> path \<times> string \<Rightarrow> string option" where
  "archived_name dir = (\<lambda>(p, _).
     case p of [d, name] \<Rightarrow> if d = dir \<and> extension name = Some ''hex'' then Some name else None
             | _ \<Rightarrow> None)"

definition list_archived_blocks :: "string \<Rightarrow> files \<Rightarrow> path list" where
  "list_archived_blocks dir fs = map (\<lambda>name. [dir, name]) (sort (List.map_filter (archived_name dir) fs))"

definition archive_found_block :: "bool \<Rightarrow> string \<Rightarrow> u64 \<Rightarrow> string \<Rightarrow> string \<Rightarrow> files \<Rightarrow> files" where
  "archive_found_block io_ok dir height hash_hex block_text fs =
     (if io_ok then AList.update (archive_path dir height hash_hex) block_text fs else fs)"

definition file_archived_block :: "bool \<Rightarrow> string \<Rightarrow> path \<Rightarrow> string \<Rightarrow> files \<Rightarrow> files" where
  "file_archived_block io_ok dir p bucket fs =
     (case (file_name p, map_of fs p) of
        (Some name, Some content) \<Rightarrow>
          if io_ok then AList.update [dir, bucket, name] content (AList.delete p fs) else fs
      | _ \<Rightarrow> fs)"

definition mark_archived_submitted :: "bool \<Rightarrow> string \<Rightarrow> u64 \<Rightarrow> string \<Rightarrow> files \<Rightarrow> files" where
  "mark_archived_submitted io_ok dir height hash_hex fs =
     (if map_of fs (archive_path dir height hash_hex) \<noteq> None
      then file_archived_block io_ok dir (archive_path dir height hash_hex) ''submitted'' fs else fs)"

text \<open>One iteration of the replay at boot; the result is the task it starts, if any.\<close>

definition replay_one ::
  "bool \<Rightarrow> node_view \<Rightarrow> string \<Rightarrow> path \<Rightarrow> files \<Rightarrow> rpc_client \<Rightarrow> block_task list \<times> files \<times> rpc_client" where
  "replay_one io_ok view dir p fs rpc =
     (let (height, hash_hex) = (case parse_archive_name p of Some x \<Rightarrow> x | None \<Rightarrow> (0, path_display p))
      in case map_of fs p of
           None \<Rightarrow> ([], fs, rpc)
         | Some h \<Rightarrow>
             (let block_text = str_trim h;
                  (answer, rpc') = try_submit view block_text rpc
              in case answer of
                   Ok _ \<Rightarrow> ([], file_archived_block io_ok dir p ''submitted'' fs, rpc')
                 | Err e \<Rightarrow>
                     if is_permanent_reject e \<or> is_node_side_error e
                     then ([], file_archived_block io_ok dir p ''rejected'' fs, rpc')
                     else ([Resubmit height hash_hex block_text None], fs, rpc')
                 | Panic \<Rightarrow> ([], fs, rpc')))"

fun replay_list ::
  "(nat \<Rightarrow> bool) \<Rightarrow> (nat \<Rightarrow> node_view) \<Rightarrow> string \<Rightarrow> path list \<Rightarrow> nat \<Rightarrow> files \<Rightarrow> rpc_client
     \<Rightarrow> block_task list \<times> files \<times> rpc_client" where
  "replay_list io views dir [] k fs rpc = ([], fs, rpc)"
| "replay_list io views dir (p # ps) k fs rpc =
     (let (tasks, fs', rpc') = replay_one (io k) (views k) dir p fs rpc;
          (tasks', fs'', rpc'') = replay_list io views dir ps (Suc k) fs' rpc'
      in (tasks @ tasks', fs'', rpc''))"

definition replay_archived_blocks ::
  "(nat \<Rightarrow> bool) \<Rightarrow> (nat \<Rightarrow> node_view) \<Rightarrow> files \<Rightarrow> template_engine \<Rightarrow> block_task list \<times> files \<times> template_engine" where
  "replay_archived_blocks io views fs e =
     (let dir = pc_found_block_dir (en_pool_cfg e);
          (tasks, fs', rpc') = replay_list io views dir (list_archived_blocks dir fs) 0 fs (en_rpc e)
      in (tasks, fs', e\<lparr>en_rpc := rpc'\<rparr>))"

section \<open>Lemmas\<close>

lemma position_Some: "position P xs = Some i \<Longrightarrow> i < length xs \<and> P (xs ! i)"
  by (induction xs arbitrary: i) (auto split: if_splits)

text \<open>A job that is not marked clean continues on the block of the job before it.\<close>

definition same_tip :: "job_entry \<Rightarrow> job_entry \<Rightarrow> bool" where
  "same_tip x y \<longleftrightarrow> je_clean y \<or> j_prev_hash (je_job x) = j_prev_hash (je_job y)"

lemma same_tip_last:
  "successively same_tip (x # zs) \<Longrightarrow> \<not> list_ex je_clean zs
     \<Longrightarrow> j_prev_hash (je_job (last (x # zs))) = j_prev_hash (je_job x)"
  by (induction zs arbitrary: x) (auto simp: same_tip_def)

lemma successively_drop: "successively P xs \<Longrightarrow> successively P (drop n xs)"
proof (induction n arbitrary: xs)
  case (Suc n)
  then show ?case by (cases xs) (auto simp: successively_Cons)
qed simp

lemma successively_tl: "successively P xs \<Longrightarrow> successively P (tl xs)"
  using successively_drop [of P xs 1] by (simp add: drop_Suc)

definition engine_ok :: "crates \<Rightarrow> pool_config \<Rightarrow> string \<Rightarrow> template_engine \<Rightarrow> bool" where
  "engine_ok C cfg network e \<longleftrightarrow>
     en_pool_cfg e = cfg \<and> settings_ok C (en_settings e) \<and> rs_network (en_settings e) = network
     \<and> length (en_job_history e) \<le> JOB_HISTORY_DEPTH
     \<and> en_current_job e = (if en_job_history e = [] then None else Some (je_job (last (en_job_history e))))
     \<and> successively same_tip (en_job_history e)
     \<and> list_all (\<lambda>h. \<exists>millis counter gbt address.
          fst (build_job C millis counter gbt address (str_bytes (pc_coinbase_tag cfg))
                 (pc_extranonce1_size cfg) (pc_extranonce2_size cfg)) = Ok (je_job h)
          \<and> validate_address C address network = Ok ()) (en_job_history e)"

lemma length_push_history: "length h \<le> 8 \<Longrightarrow> length (push_history x h) \<le> 8"
  by (auto simp: push_history_def JOB_HISTORY_DEPTH_def)

lemma last_push_history [simp]: "last (push_history x h) = x" "push_history x h \<noteq> []"
  by (simp_all add: push_history_def)

lemma list_all_push_history: "list_all P h \<Longrightarrow> P x \<Longrightarrow> list_all P (push_history x h)"
  by (cases h) (auto simp: push_history_def)

lemma successively_push_history:
  assumes "successively P h" and "\<And>y. h \<noteq> [] \<Longrightarrow> P (last h) x"
  shows "successively P (push_history x h)"
proof -
  have "successively P (tl h @ [x])" if "8 \<le> length h"
  proof -
    have "tl h \<noteq> []" "h \<noteq> []" using that by (cases h; auto)+
    then show ?thesis
      using assms(2) that successively_tl [OF assms(1)] by (auto simp: successively_append_iff last_tl)
  qed
  moreover have "successively P (h @ [x])"
    using assms by (auto simp: successively_append_iff)
  ultimately show ?thesis by (auto simp: push_history_def JOB_HISTORY_DEPTH_def)
qed

text \<open>What a refresh does, when it returns: it keeps the jobs, or adds one.\<close>

lemma refresh_cases:
  assumes "refresh C millis view ok_at created_at clean e = Ok (e', effs)"
  obtains (kept) "en_current_job e' = en_current_job e" "en_job_history e' = en_job_history e"
      "en_pool_cfg e' = en_pool_cfg e" "en_settings e' = en_settings e"
      "en_inflight_submits e' = en_inflight_submits e" "effs = []"
    | (added) gbt address job counter where
      "valid_coinbase_address (en_settings e) = Some address"
      "fst (get_block_template C (nv_url_ok view) (nv_first view) (nv_second view) (nv_cookie_file view) (en_rpc e)) = Ok gbt"
      "fst (build_job C millis counter gbt address (str_bytes (pc_coinbase_tag (en_pool_cfg e)))
         (pc_extranonce1_size (en_pool_cfg e)) (pc_extranonce2_size (en_pool_cfg e))) = Ok job"
      "en_current_job e' = Some job"
      "en_job_history e' = push_history \<lparr>je_job = job, je_created_at = created_at,
         je_clean = (clean \<or> tip_moved (map_option j_prev_hash (en_current_job e)) (j_prev_hash job)),
         je_superseded_by_clean = False\<rparr> (en_job_history e)"
      "en_pool_cfg e' = en_pool_cfg e" "en_settings e' = en_settings e"
      "en_inflight_submits e' = en_inflight_submits e"
      "effs = publish_template_stats job @ [Broadcast \<lparr>jb_job = job,
         jb_clean = (clean \<or> tip_moved (map_option j_prev_hash (en_current_job e)) (j_prev_hash job))\<rparr>]"
proof (cases "valid_coinbase_address (en_settings e)")
  case None
  then show ?thesis using assms by (intro kept) (auto simp: refresh_def note_template_failure_def)
next
  case (Some address)
  obtain ans rpc' where g: "get_block_template C (nv_url_ok view) (nv_first view) (nv_second view)
      (nv_cookie_file view) (en_rpc e) = (ans, rpc')" by fastforce
  show ?thesis
  proof (cases ans)
    case (Ok gbt)
    obtain built c' where b: "build_job C millis (en_job_counter e) gbt address
        (str_bytes (pc_coinbase_tag (en_pool_cfg e))) (pc_extranonce1_size (en_pool_cfg e))
        (pc_extranonce2_size (en_pool_cfg e)) = (built, c')" by fastforce
    show ?thesis
    proof (cases built)
      case (Ok job)
      show ?thesis
        by (rule added [of address gbt "en_job_counter e" job])
          (use assms Some g b Ok \<open>ans = Ok gbt\<close> in \<open>auto simp: refresh_def Let_def\<close>)
    next
      case (Err x)
      then show ?thesis using assms Some g b Ok
        by (intro kept) (auto simp: refresh_def note_template_failure_def)
    next
      case Panic
      then show ?thesis using assms Some g b Ok by (simp add: refresh_def)
    qed
  next
    case (Err x)
    then show ?thesis using assms Some g by (intro kept) (auto simp: refresh_def note_template_failure_def)
  next
    case Panic
    then show ?thesis using assms Some g by (simp add: refresh_def)
  qed
qed

lemma valid_coinbase_address_validates:
  "settings_ok C s \<Longrightarrow> valid_coinbase_address s = Some address \<Longrightarrow> validate_address C address (rs_network s) = Ok ()"
  by (auto simp: valid_coinbase_address_def settings_ok_def split: if_splits)

lemma refresh_ok:
  assumes inv: "engine_ok C cfg network e" and r: "refresh C millis view ok_at created_at clean e = Ok (e', effs)"
  shows "engine_ok C cfg network e'"
  using r
proof (cases rule: refresh_cases)
  case kept
  then show ?thesis using inv by (simp add: engine_ok_def)
next
  case (added gbt address job counter)
  define x where "x = \<lparr>je_job = job, je_created_at = created_at,
     je_clean = (clean \<or> tip_moved (map_option j_prev_hash (en_current_job e)) (j_prev_hash job)),
     je_superseded_by_clean = False\<rparr>"
  have "validate_address C address network = Ok ()"
    using valid_coinbase_address_validates [of C "en_settings e"] inv added(1) by (simp add: engine_ok_def)
  moreover have "same_tip (last (en_job_history e)) x" if "en_job_history e \<noteq> []"
    using inv that by (auto simp: same_tip_def x_def tip_moved_def engine_ok_def)
  moreover have "en_job_history e' = push_history x (en_job_history e)" using added by (simp add: x_def)
  moreover have "je_job x = job" by (simp add: x_def)
  ultimately show ?thesis
    using inv added length_push_history [of "en_job_history e" x]
    by (auto simp: engine_ok_def JOB_HISTORY_DEPTH_def intro!: list_all_push_history successively_push_history)
qed

text \<open>The operations on the engine, in any order.\<close>

datatype engine_op =
    Refresh node_view nat nat bool
  | ChangeSettings settings_op
  | Found "nat \<Rightarrow> node_view" u64 string string string

definition engine_step :: "crates \<Rightarrow> u64 \<Rightarrow> engine_op \<Rightarrow> template_engine \<Rightarrow> template_engine" where
  "engine_step C millis a e =
     (case a of
        Refresh view ok_at created_at clean \<Rightarrow>
          (case refresh C millis view ok_at created_at clean e of Ok (e', _) \<Rightarrow> e' | _ \<Rightarrow> e)
      | ChangeSettings s \<Rightarrow> e\<lparr>en_settings := settings_step C s (en_settings e)\<rparr>
      | Found views height hash_hex block_text worker \<Rightarrow>
          fst (snd (submit_found_block views height hash_hex block_text worker e)))"

lemma submit_found_block_engine:
  "fst (snd (submit_found_block views height hash_hex block_text worker e))
     = e\<lparr>en_rpc := fst (snd (submit_attempts views block_text [1..<Suc SUBMIT_INLINE_ATTEMPTS] None (en_rpc e)))\<rparr>"
  by (auto simp: submit_found_block_def Let_def InflightSubmit_new_def InflightSubmit_drop_def
      split: prod.splits inline_result.splits)

lemma settings_step_ok:
  "settings_ok C s \<Longrightarrow> settings_ok C (settings_step C a s) \<and> rs_network (settings_step C a s) = rs_network s"
  using payout.step_inv [of C s "rs_network s" a] by simp

interpretation engines: preserved "engine_ok C cfg network" "engine_step C millis" for C cfg network millis
proof unfold_locales
  fix e a
  assume inv: "engine_ok C cfg network e"
  show "engine_ok C cfg network (engine_step C millis a e)"
  proof (cases a)
    case (Refresh view ok_at created_at clean)
    then show ?thesis
      using inv refresh_ok [OF inv, of millis view ok_at created_at clean]
      by (auto simp: engine_step_def split: outcome.splits)
  next
    case (ChangeSettings s)
    then show ?thesis using inv settings_step_ok [of C "en_settings e" s] by (simp add: engine_step_def engine_ok_def)
  next
    case (Found views height hash_hex block_text worker)
    then show ?thesis using inv
      by (simp add: engine_step_def engine_ok_def submit_found_block_engine del: upt_Suc)
  qed
qed

lemma engine_new_ok:
  "Settings_new C cfg chain = Ok s \<Longrightarrow> engine_ok C cfg (rs_network s) (TemplateEngine_new rpc cfg s counter)"
  by (simp add: engine_ok_def TemplateEngine_new_def Settings_new_ok)

lemma find_job_entry:
  assumes "engine_ok C cfg network e" and "find_job job_id e = Some entry"
  obtains i where "i < length (en_job_history e)" "entry = (en_job_history e ! i)\<lparr>je_superseded_by_clean :=
      list_ex je_clean (drop (i + 1) (en_job_history e))\<rparr>" "j_job_id (je_job entry) = job_id"
  using assms(2) position_Some [of "\<lambda>h. j_job_id (je_job h) = job_id" "en_job_history e"]
  by (auto simp: find_job_def nth_opt_def split: option.splits if_splits)

lemma find_job_tip:
  assumes "engine_ok C cfg network e" and "find_job job_id e = Some entry" and "\<not> je_superseded_by_clean entry"
  shows "\<exists>job. en_current_job e = Some job \<and> j_prev_hash (je_job entry) = j_prev_hash job"
proof -
  let ?h = "en_job_history e"
  obtain i where i: "i < length ?h" "entry = (?h ! i)\<lparr>je_superseded_by_clean := list_ex je_clean (drop (i + 1) ?h)\<rparr>"
    using find_job_entry [OF assms(1,2)] by blast
  have split: "drop i ?h = ?h ! i # drop (i + 1) ?h" using i(1) by (simp add: Cons_nth_drop_Suc)
  have "successively same_tip (?h ! i # drop (i + 1) ?h)"
    using assms(1) successively_drop [of same_tip ?h i] split by (simp add: engine_ok_def)
  moreover have "\<not> list_ex je_clean (drop (i + 1) ?h)" using i(2) assms(3) by simp
  ultimately have "j_prev_hash (je_job (last (drop i ?h))) = j_prev_hash (je_job (?h ! i))"
    using same_tip_last [of "?h ! i" "drop (i + 1) ?h"] split by simp
  then show ?thesis using i assms(1) by (auto simp: engine_ok_def)
qed

text \<open>What the node answers to a submission in one view, at either of its two moments.\<close>

definition node_answers :: "node_view \<Rightarrow> string \<Rightarrow> json \<Rightarrow> bool" where
  "node_answers view block_text v \<longleftrightarrow>
     (\<exists>c. nv_first view c ''submitblock'' [JString block_text] = Inr v
        \<or> nv_second view c ''submitblock'' [JString block_text] = Inr v)"

definition node_has_block :: "node_view \<Rightarrow> string \<Rightarrow> bool" where
  "node_has_block view block_text \<longleftrightarrow>
     (\<exists>v. v \<in> {JNull, JString ''duplicate'', JString ''duplicate-inconclusive'', JString ''inconclusive''}
        \<and> node_answers view block_text v)"

lemma submit_answer_Ok_iff:
  "submit_answer v = Ok () \<longleftrightarrow>
     v \<in> {JNull, JString ''duplicate'', JString ''duplicate-inconclusive'', JString ''inconclusive''}"
  by (cases v) (auto simp: submit_answer_def)

lemma submit_answer_rejected:
  "submit_answer v = Err e \<Longrightarrow> is_permanent_reject e \<Longrightarrow> \<exists>reason. e = SubmitBlockRejected reason \<and> v = JString reason"
  by (cases v) (auto simp: submit_answer_def is_permanent_reject_def split: if_splits)

lemma rpc_call_iff:
  "rpc_call nd m ps c = Ok v \<longleftrightarrow> nd c m ps = Inr v" "rpc_call nd m ps c = Err e \<longleftrightarrow> (\<exists>x. nd c m ps = Inl x \<and> e = Rpc x)"
  by (auto simp: rpc_call_def split: sum.splits)

lemma call_with_refresh_answers:
  assumes "fst (call_with_refresh url_ok f1 f2 cf rpc) = Ok v"
  shows "\<exists>c. f1 c = Ok v \<or> f2 c = Ok v"
  using assms by (auto simp: call_with_refresh_def build_client_def split: outcome.splits option.splits if_splits)

lemma call_with_refresh_errors:
  assumes "fst (call_with_refresh url_ok f1 f2 cf rpc) = Err e" and "\<And>c e. f1 c = Err e \<Longrightarrow> P e"
    and "\<And>c e. f2 c = Err e \<Longrightarrow> P e" and "\<And>t. P (Other t)"
  shows "P e"
  using assms by (auto simp: call_with_refresh_def build_client_def split: outcome.splits option.splits if_splits)

lemma try_submit_cases:
  assumes "try_submit view block_text rpc = (answer, rpc')"
  shows "answer \<noteq> Panic" and "answer = Ok u \<Longrightarrow> node_has_block view block_text"
    and "answer = Err e \<Longrightarrow> is_permanent_reject e
           \<Longrightarrow> \<exists>reason. e = SubmitBlockRejected reason \<and> node_answers view block_text (JString reason)"
proof -
  let ?f1 = "rpc_call (nv_first view) ''submitblock'' [JString block_text]"
  let ?f2 = "rpc_call (nv_second view) ''submitblock'' [JString block_text]"
  obtain a where c: "call_with_refresh (nv_url_ok view) ?f1 ?f2 (nv_cookie_file view) rpc = (a, rpc')"
    and ans: "answer = (case obind a submit_answer of Panic \<Rightarrow> Err (Other ''submitblock task panicked'')
      | _ \<Rightarrow> obind a submit_answer)"
    using assms by (auto simp: try_submit_def submit_block_def Let_def split: prod.splits)
  have na: "node_answers view block_text v" if "a = Ok v" for v
    using call_with_refresh_answers [of "nv_url_ok view" ?f1 ?f2 "nv_cookie_file view" rpc v] c that
    by (auto simp: node_answers_def rpc_call_iff)
  have ne: "\<not> is_permanent_reject e" if "a = Err e" for e
    by (rule call_with_refresh_errors [of "nv_url_ok view" ?f1 ?f2 "nv_cookie_file view" rpc])
      (use c that in \<open>auto simp: rpc_call_iff is_permanent_reject_def\<close>)
  show "answer \<noteq> Panic" using ans by (auto split: outcome.splits)
  show "answer = Ok u \<Longrightarrow> node_has_block view block_text"
    using ans na by (cases a) (auto simp: node_has_block_def submit_answer_Ok_iff split: outcome.splits)
  show "answer = Err e \<Longrightarrow> is_permanent_reject e
           \<Longrightarrow> \<exists>reason. e = SubmitBlockRejected reason \<and> node_answers view block_text (JString reason)"
    using ans na ne submit_answer_rejected
    by (cases a) (fastforce simp: is_permanent_reject_def split: outcome.splits)+
qed

lemma submit_attempts_accepted:
  "submit_attempts views block_text ks l rpc = (InlineAccepted, rpc', slept)
     \<Longrightarrow> list_ex (\<lambda>k. node_has_block (views k) block_text) ks"
  by (induction ks arbitrary: l rpc rpc' slept)
    (auto simp: Let_def dest: try_submit_cases split: prod.splits outcome.splits if_splits)

lemma submit_attempts_rejected:
  "submit_attempts views block_text ks l rpc = (InlineRejected e, rpc', slept) \<Longrightarrow>
     \<exists>reason. e = SubmitBlockRejected reason \<and> list_ex (\<lambda>k. node_answers (views k) block_text (JString reason)) ks"
proof (induction ks arbitrary: l rpc rpc' slept)
  case (Cons k ks)
  obtain ans r where t: "try_submit (views k) block_text rpc = (ans, r)" by fastforce
  obtain x where x: "ans = Err x"
    using Cons.prems(1) t try_submit_cases(1) [OF t] by (cases ans) auto
  show ?case
  proof (cases "is_permanent_reject x")
    case True
    then show ?thesis using Cons.prems t x try_submit_cases(3) [OF t x True] by auto
  next
    case False
    then obtain s where "submit_attempts views block_text ks (Some x) r = (InlineRejected e, rpc', s)"
      using Cons.prems(1) t x by (auto split: prod.splits)
    then show ?thesis using Cons.IH by fastforce
  qed
qed simp

lemma submit_attempts_exhausted:
  "submit_attempts views block_text ks l rpc = (InlineExhausted l', rpc', slept)
     \<Longrightarrow> (\<And>x. l = Some x \<Longrightarrow> \<not> is_permanent_reject x) \<Longrightarrow> ks \<noteq> [] \<or> l \<noteq> None
     \<Longrightarrow> \<exists>x. l' = Some x \<and> \<not> is_permanent_reject x"
proof (induction ks arbitrary: l rpc rpc' slept)
  case (Cons k ks)
  obtain ans r where t: "try_submit (views k) block_text rpc = (ans, r)" by fastforce
  obtain e where e: "ans = Err e" "\<not> is_permanent_reject e"
    using Cons.prems(1) t try_submit_cases(1) [OF t] by (cases ans) (auto split: if_splits)
  obtain s where "submit_attempts views block_text ks (Some e) r = (InlineExhausted l', rpc', s)"
    using Cons.prems(1) t e by (auto split: prod.splits)
  then show ?case by (rule Cons.IH) (use e in auto)
qed auto

lemma submit_attempts_slept:
  "submit_attempts views block_text ks l rpc = (res, rpc', slept)
     \<Longrightarrow> slept \<le> sum_list (map (\<lambda>k. if k < SUBMIT_INLINE_ATTEMPTS then 500 * 2 ^ k else 0) ks)"
  by (induction ks arbitrary: l rpc rpc' slept res)
    (fastforce simp: Let_def split: prod.splits outcome.splits if_splits)+

lemma attempts_list: "[1..<Suc SUBMIT_INLINE_ATTEMPTS] = [1, 2, 3]"
  by (simp add: SUBMIT_INLINE_ATTEMPTS_def upt_rec)

lemma submit_found_block_eq:
  assumes "submit_attempts views block_text [1, 2, 3] None (en_rpc e) = (r, rpc', slept)"
  shows "submit_found_block views height hash_hex block_text worker e =
     (case r of
        InlineAccepted \<Rightarrow> (Ok (), e\<lparr>en_rpc := rpc'\<rparr>,
          [ArchiveBlock height hash_hex block_text, MarkSubmitted height hash_hex], slept)
      | InlineRejected err \<Rightarrow> (Err err, e\<lparr>en_rpc := rpc'\<rparr>, [ArchiveBlock height hash_hex block_text], slept)
      | InlineExhausted l \<Rightarrow>
          (Err (case l of Some err \<Rightarrow> err | None \<Rightarrow> Other ''submitblock never attempted''), e\<lparr>en_rpc := rpc'\<rparr>,
           [ArchiveBlock height hash_hex block_text, Resubmit height hash_hex block_text (Some worker)], slept))"
  unfolding submit_found_block_def attempts_list
  using assms by (cases r) (simp_all add: InflightSubmit_new_def InflightSubmit_drop_def del: submit_attempts.simps)

lemma resubmit_loop_terminates:
  assumes mono: "\<And>k. clock k + SUBMIT_RETRY_INTERVAL \<le> clock (Suc k)"
    and bound: "deadline \<le> clock (k + fuel)"
  shows "\<exists>res rpc' n. resubmit_loop (Suc fuel) clock views deadline height hash_hex block_text cr k rpc = Some (res, rpc', n)
     \<and> n \<le> k + fuel \<and> (res = GaveUp \<longrightarrow> deadline \<le> clock n)
     \<and> (\<forall>effs. res = ResubmitAccepted effs \<longrightarrow> effs = late_credit height hash_hex cr
          \<and> (\<exists>j<n. node_has_block (views j) block_text))"
  using bound
proof (induction fuel arbitrary: k rpc)
  case 0
  then show ?case by simp
next
  case (Suc fuel)
  show ?case
  proof (cases "clock k < deadline")
    case True
    obtain ans r where t: "try_submit (views k) block_text rpc = (ans, r)" by fastforce
    show ?thesis
    proof (cases ans)
      case (Ok u)
      then show ?thesis using True t try_submit_cases(2) [OF t] by (auto simp: Let_def)
    next
      case Panic
      then show ?thesis using try_submit_cases(1) [OF t] by simp
    next
      case (Err e)
      have "\<exists>res rpc' n. resubmit_loop (Suc fuel) clock views deadline height hash_hex block_text cr (Suc k) r = Some (res, rpc', n)
         \<and> n \<le> Suc k + fuel \<and> (res = GaveUp \<longrightarrow> deadline \<le> clock n)
         \<and> (\<forall>effs. res = ResubmitAccepted effs \<longrightarrow> effs = late_credit height hash_hex cr
              \<and> (\<exists>j<n. node_has_block (views j) block_text))"
        using Suc.IH [of "Suc k"] Suc.prems by simp
      then show ?thesis
        using True t Err by (simp only: resubmit_loop.simps(2) [of "Suc fuel"]) (auto simp: Let_def simp del: resubmit_loop.simps)
    qed
  next
    case False
    then show ?thesis by (auto simp: not_less)
  qed
qed

lemma clock_linear:
  assumes mono: "\<And>k. clock k + d \<le> clock (Suc k)"
  shows "clock 0 + n * d \<le> (clock n :: nat)"
proof (induction n)
  case (Suc n)
  then show ?case using mono [of n] by simp
qed simp

subsection \<open>Archive names\<close>

lemma fmt_dec_digits: "c \<in> set (fmt_dec n) \<Longrightarrow> \<exists>d<10. c = digit_char d"
proof (induction n rule: fmt_dec.induct)
  case (1 n)
  show ?case
  proof (cases "n < 10")
    case False
    then have "c \<in> set (fmt_dec (n div 10)) \<or> c = digit_char (n mod 10)"
      using "1.prems" fmt_dec.simps [of n] by auto
    then show ?thesis using "1.IH" [OF False] by (metis mod_less_divisor zero_less_numeral)
  qed (use "1.prems" fmt_dec.simps [of n] in auto)
qed

lemma fmt_dec_nonempty [simp]: "fmt_dec n \<noteq> []"
  by (subst fmt_dec.simps) simp

lemma radix_val_fmt_dec: "radix_val 10 0 (fmt_dec n) = Some n"
proof (induction n rule: fmt_dec.induct)
  case (1 n)
  show ?case
  proof (cases "n < 10")
    case True
    then show ?thesis by (subst fmt_dec.simps) (simp add: digit_val_char)
  next
    case False
    then show ?thesis
      using "1.IH" by (subst fmt_dec.simps) (simp add: radix_val_append digit_val_char)
  qed
qed

lemma parse_u64_fmt_dec: "parse_u64 (fmt_dec (unat h)) = Some h"
proof -
  obtain c cs where cs: "fmt_dec (unat h) = c # cs" by (cases "fmt_dec (unat h)") auto
  then obtain d where "d < 10" "c = digit_char d" using fmt_dec_digits [of c "unat h"] by auto
  then have "c \<noteq> CHR ''+''" using digit_char_neq_plus [of d] by simp
  then have "from_str_radix 64 10 (fmt_dec (unat h)) = Some (unat h)"
    using radix_val_fmt_dec [of "unat h"] unat_lt [of h] cs by (simp add: from_str_radix_def)
  then show ?thesis by (simp add: parse_u64_def)
qed

lemma split_once_append: "c \<notin> set xs \<Longrightarrow> split_once c (xs @ c # ys) = Some (xs, ys)"
  by (induction xs) auto

lemma strip_suffix_append [simp]: "strip_suffix p (xs @ p) = Some xs"
  by (simp add: strip_suffix_def strip_prefix_def)

lemma strip_prefix_append [simp]: "strip_prefix p (p @ xs) = Some xs"
  by (simp add: strip_prefix_def)

lemma underscore_not_digit: "CHR ''_'' \<notin> set (fmt_dec n)"
proof
  assume "CHR ''_'' \<in> set (fmt_dec n)"
  then obtain d where "d < 10" "digit_char d = CHR ''_''" using fmt_dec_digits by metis
  then show False using digit_val_char [of d] by (simp add: digit_val_def)
qed

lemma parse_archive_path:
  assumes "length hash = 64" and "list_all is_ascii_hexdigit hash"
  shows "parse_archive_name (archive_path dir height hash) = Some (height, hash)"
proof -
  have "archive_name height hash = (''block_'' @ fmt_dec (unat height) @ CHR ''_'' # hash) @ ''.hex''"
    by (simp add: archive_name_def)
  then have "strip_suffix ''.hex'' (archive_name height hash) = Some (''block_'' @ fmt_dec (unat height) @ CHR ''_'' # hash)"
    by (simp only: strip_suffix_append)
  then show ?thesis
    using assms by (simp add: parse_archive_name_def file_name_def archive_path_def
        strip_prefix_append [of "''block_''", simplified] split_once_append underscore_not_digit parse_u64_fmt_dec)
qed

lemma extension_archive_name: "extension (archive_name height hash) = Some ''hex''"
  by (simp add: extension_def archive_name_def)

lemma archived_name_iff:
  "archived_name dir x = Some name \<longleftrightarrow> fst x = [dir, name] \<and> extension name = Some ''hex''"
  by (cases x) (auto simp: archived_name_def split: list.splits if_splits)

lemma set_map_filter: "y \<in> set (List.map_filter f xs) \<longleftrightarrow> (\<exists>x \<in> set xs. f x = Some y)"
  by (induction xs) (auto simp: List.map_filter_def)

lemma list_archived_iff:
  "[dir, name] \<in> set (list_archived_blocks dir fs)
     \<longleftrightarrow> extension name = Some ''hex'' \<and> map_of fs [dir, name] \<noteq> None"
proof -
  have "[dir, name] \<in> set (list_archived_blocks dir fs) \<longleftrightarrow> name \<in> set (List.map_filter (archived_name dir) fs)"
    by (auto simp: list_archived_blocks_def)
  also have "\<dots> \<longleftrightarrow> extension name = Some ''hex'' \<and> [dir, name] \<in> fst ` set fs"
    unfolding set_map_filter archived_name_iff image_iff by metis
  finally show ?thesis by (auto simp: map_of_eq_None_iff)
qed

lemma archive_map_of:
  "map_of (archive_found_block True dir height hash block_text fs) p
     = (if p = archive_path dir height hash then Some block_text else map_of fs p)"
  by (simp add: archive_found_block_def update_conv')

lemma file_archived_map_of:
  assumes "map_of fs (dir # p) = Some content" "p \<noteq> []"
  shows "map_of (file_archived_block True dir (dir # p) bucket fs) q
     = (if q = [dir, bucket, last p] then Some content else if q = dir # p then None else map_of fs q)"
  using assms by (auto simp: file_archived_block_def file_name_def update_conv' delete_conv')

lemma distinct_archive:
  "distinct (map fst fs) \<Longrightarrow> distinct (map fst (archive_found_block io dir height hash block_text fs))"
  "distinct (map fst fs) \<Longrightarrow> distinct (map fst (file_archived_block io dir p bucket fs))"
  by (auto simp: archive_found_block_def file_archived_block_def distinct_update distinct_delete
      split: option.splits)

section \<open>Properties\<close>


text \<open>
  C18: Every job the engine ever holds was built for a payout address that parses and belongs to
  the network of the node's chain: without such an address no job is built, and a refresh
  changes neither the jobs nor sends anything to the sessions.
\<close>

theorem jobs_pay_a_validated_address:
  assumes "Settings_new C cfg chain = Ok s"
    and "e = fold (engine_step C millis) ops (TemplateEngine_new rpc cfg s counter)"
  shows "list_all (\<lambda>h. \<exists>millis counter gbt address.
          fst (build_job C millis counter gbt address (str_bytes (pc_coinbase_tag cfg))
                 (pc_extranonce1_size cfg) (pc_extranonce2_size cfg)) = Ok (je_job h)
          \<and> validate_address C address (rs_network s) = Ok ()) (en_job_history e)
     \<and> (valid_coinbase_address (en_settings e) = None \<longrightarrow>
         refresh C millis view ok_at created_at clean e
           = Ok (e\<lparr>en_last_template_error := Some PausedNoAddress\<rparr>, []))"
proof -
  have "engine_ok C cfg (rs_network s) e"
    using engines.run_inv [OF engine_new_ok [OF assms(1)], of millis ops] assms(2) by simp
  then show ?thesis by (simp add: engine_ok_def refresh_def note_template_failure_def)
qed

text \<open>
  C9: A found block is never dropped silently. It is always handed to the archive; the pool
  reports success only if the node answered one of three attempts with acceptance (or that it
  has the block), reports a permanent rejection only with the node's reason, and in every other
  case starts a background task holding the whole block. The count of running submissions is
  restored and at most three seconds are slept.
\<close>

theorem found_block_never_dropped:
  assumes "submit_found_block views height hash_hex block_text worker e = (res, e', tasks, slept)"
  shows "en_inflight_submits e' = en_inflight_submits e \<and> en_job_history e' = en_job_history e \<and> slept \<le> 3000
     \<and> ((res = Ok () \<and> tasks = [ArchiveBlock height hash_hex block_text, MarkSubmitted height hash_hex]
           \<and> list_ex (\<lambda>k. node_has_block (views k) block_text) [1, 2, 3])
        \<or> (\<exists>reason. res = Err (SubmitBlockRejected reason) \<and> tasks = [ArchiveBlock height hash_hex block_text]
           \<and> list_ex (\<lambda>k. node_answers (views k) block_text (JString reason)) [1, 2, 3])
        \<or> (\<exists>err. res = Err err \<and> \<not> is_permanent_reject err
           \<and> tasks = [ArchiveBlock height hash_hex block_text, Resubmit height hash_hex block_text (Some worker)]))"
proof -
  obtain r rpc' s where at: "submit_attempts views block_text [1, 2, 3] None (en_rpc e) = (r, rpc', s)"
    using prod_cases3 by blast
  note eq = submit_found_block_eq [OF at, of height hash_hex worker]
  have "s \<le> 3000" using submit_attempts_slept [OF at] by (simp add: SUBMIT_INLINE_ATTEMPTS_def)
  then show ?thesis
  proof (cases r)
    case InlineAccepted
    then show ?thesis
      using assms eq \<open>s \<le> 3000\<close> submit_attempts_accepted [OF at [unfolded InlineAccepted]] by auto
  next
    case (InlineRejected x)
    then show ?thesis
      using assms eq \<open>s \<le> 3000\<close> submit_attempts_rejected [OF at [unfolded InlineRejected]] by auto
  next
    case (InlineExhausted l)
    then show ?thesis
      using assms eq \<open>s \<le> 3000\<close> submit_attempts_exhausted [OF at [unfolded InlineExhausted]] by auto
  qed
qed

text \<open>
  C37: The background task ends: with a clock that advances by the ten-second pause in every
  round it makes at most 720 attempts, gives up only after two hours, and reports the block as
  accepted (crediting the worker once) only if the node answered an attempt that it has it.
\<close>

theorem background_submission_ends:
  assumes "started \<le> clock 0" and "\<And>k. clock k + SUBMIT_RETRY_INTERVAL \<le> clock (Suc k)"
  shows "\<exists>res rpc' n. spawn_resubmit_task 721 started clock views height hash_hex block_text cr rpc
       = Some (res, rpc', n)
     \<and> n \<le> 720 \<and> (res = GaveUp \<longrightarrow> started + SUBMIT_RETRY_DEADLINE \<le> clock n)
     \<and> (\<forall>effs. res = ResubmitAccepted effs \<longrightarrow> effs = late_credit height hash_hex cr
          \<and> (\<exists>j<n. node_has_block (views j) block_text))"
proof -
  have "started + SUBMIT_RETRY_DEADLINE \<le> clock (0 + 720)"
    using assms(1) clock_linear [of clock SUBMIT_RETRY_INTERVAL 720] assms(2)
    by (simp add: SUBMIT_RETRY_INTERVAL_def SUBMIT_RETRY_DEADLINE_def secs_def)
  from resubmit_loop_terminates [OF assms(2) this, of views height hash_hex block_text cr rpc]
  show ?thesis by (simp add: spawn_resubmit_task_def del: resubmit_loop.simps)
qed

text \<open>
  C30: A block that was archived is found again at the next boot, with its height, hash and
  contents, until its acceptance is confirmed; from then on it is kept under \<open>submitted/\<close> and not
  replayed.
\<close>

theorem archived_block_replayed_until_confirmed:
  assumes "length hash = 64" and "list_all is_ascii_hexdigit hash"
    and "p = archive_path dir height hash"
    and "fs1 = archive_found_block True dir height hash block_text fs"
    and "fs2 = mark_archived_submitted True dir height hash fs1"
  shows "parse_archive_name p = Some (height, hash) \<and> p \<in> set (list_archived_blocks dir fs1)
     \<and> map_of fs1 p = Some block_text \<and> p \<notin> set (list_archived_blocks dir fs2)
     \<and> map_of fs2 [dir, ''submitted'', archive_name height hash] = Some block_text"
proof -
  have m: "map_of fs1 [dir, archive_name height hash] = Some block_text"
    by (simp add: assms(4) archive_map_of archive_path_def)
  have f2: "map_of fs2 q = (if q = [dir, ''submitted'', archive_name height hash] then Some block_text
      else if q = [dir, archive_name height hash] then None else map_of fs1 q)" for q
    using m file_archived_map_of [of fs1 dir "[archive_name height hash]" block_text "''submitted''" q]
    by (simp add: assms(5) mark_archived_submitted_def archive_path_def)
  show ?thesis
    using m parse_archive_path [OF assms(1,2), of dir height]
    by (simp add: assms(3) list_archived_iff extension_archive_name f2 archive_path_def)
qed

subsection \<open>Instances\<close>

definition sample_view :: node_view where
  "sample_view = \<lparr>nv_url_ok = \<lambda>_. True,
     nv_first = \<lambda>_ meth _. if meth = ''getblocktemplate'' then Inr (template_json sample_crates sample_gbt)
                 else Inr (JString ''duplicate''),
     nv_second = \<lambda>_ _ _. Inr JNull, nv_cookie_file = None\<rparr>"

definition sample_settings :: runtime_settings where
  "sample_settings = \<lparr>rs_network = ''mainnet'', rs_state = \<lparr>as_address = ''bc1q'', as_valid = True\<rparr>\<rparr>"

lemma sample_settings_new: "Settings_new sample_crates sample_pool_config ''main'' = Ok sample_settings"
  by (simp add: Settings_new_def network_of_chain_def sample_pool_config_def validate_address_def
      network_of_name_def sample_crates_def sample_settings_def)

lemma sample_tag_bytes: "str_bytes (pc_coinbase_tag sample_pool_config) = sample_tag"
  by (simp add: str_bytes_def sample_pool_config_def sample_tag_def)

lemma sample_refresh:
  "\<exists>e' job effs. refresh sample_crates 5 sample_view t1 t2 clean
     (TemplateEngine_new sample_rpc sample_pool_config sample_settings 7) = Ok (e', effs)
   \<and> fst (build_job sample_crates 5 7 sample_gbt ''bc1q'' sample_tag 4 8) = Ok job
   \<and> en_rpc e' = sample_rpc
   \<and> en_current_job e' = Some job \<and> find_job (j_job_id job) e' = Some \<lparr>je_job = job, je_created_at = t2,
       je_clean = True, je_superseded_by_clean = False\<rparr>"
proof -
  obtain job where job: "fst (build_job sample_crates 5 7 sample_gbt ''bc1q'' sample_tag 4 8) = Ok job"
    using sample_job_built by blast
  have g: "get_block_template sample_crates (nv_url_ok sample_view) (nv_first sample_view) (nv_second sample_view)
      (nv_cookie_file sample_view) sample_rpc = (Ok sample_gbt, sample_rpc)"
    by (simp add: get_block_template_def call_with_refresh_def rpc_call_def sample_view_def parse_template_json)
  obtain c where b: "build_job sample_crates 5 7 sample_gbt ''bc1q'' sample_tag 4 8 = (Ok job, c)"
    using job by (metis prod.collapse)
  have ps: "pc_extranonce1_size sample_pool_config = 4" "pc_extranonce2_size sample_pool_config = 8"
    by (simp_all add: sample_pool_config_def)
  show ?thesis
    using b by (simp add: refresh_def TemplateEngine_new_def valid_coinbase_address_def sample_settings_def g
        sample_tag_bytes b ps tip_moved_def find_job_def push_history_def JOB_HISTORY_DEPTH_def nth_opt_def)
qed

abbreviation sample_engine :: template_engine where
  "sample_engine \<equiv> TemplateEngine_new sample_rpc sample_pool_config sample_settings 7"


theorem jobs_pay_witness:
  "en_job_history (fold (engine_step sample_crates 5) [Refresh sample_view 1 2 False] sample_engine) \<noteq> []
   \<and> list_all (\<lambda>h. \<exists>millis counter gbt address.
          fst (build_job sample_crates millis counter gbt address (str_bytes (pc_coinbase_tag sample_pool_config))
                 (pc_extranonce1_size sample_pool_config) (pc_extranonce2_size sample_pool_config)) = Ok (je_job h)
          \<and> validate_address sample_crates address (rs_network sample_settings) = Ok ())
       (en_job_history (fold (engine_step sample_crates 5) [Refresh sample_view 1 2 False] sample_engine))"
proof
  obtain e' job effs where r: "refresh sample_crates 5 sample_view 1 2 False sample_engine = Ok (e', effs)"
    "find_job (j_job_id job) e' = Some \<lparr>je_job = job, je_created_at = 2, je_clean = True, je_superseded_by_clean = False\<rparr>"
    using sample_refresh by blast
  show "en_job_history (fold (engine_step sample_crates 5) [Refresh sample_view 1 2 False] sample_engine) \<noteq> []"
    using r by (auto simp: engine_step_def find_job_def)
qed (rule jobs_pay_a_validated_address [OF sample_settings_new refl, THEN conjunct1])

theorem found_block_never_dropped_witness:
  "\<exists>e' slept. submit_found_block (\<lambda>_. sample_view) 840000 ''ab'' ''00'' ''w'' sample_engine
       = (Ok (), e', [ArchiveBlock 840000 ''ab'' ''00'', MarkSubmitted 840000 ''ab''], slept)
     \<and> en_inflight_submits e' = 0 \<and> slept \<le> 3000"
proof -
  have t: "try_submit sample_view ''00'' sample_rpc = (Ok (), sample_rpc)"
    by (simp add: try_submit_def submit_block_def call_with_refresh_def rpc_call_def sample_view_def submit_answer_def)
  have rpc: "en_rpc sample_engine = sample_rpc" by (simp add: TemplateEngine_new_def)
  have "submit_attempts (\<lambda>_. sample_view) ''00'' [1, 2, 3] None (en_rpc sample_engine) = (InlineAccepted, sample_rpc, 0)"
    by (simp add: t rpc)
  note eq = submit_found_block_eq [OF this, of 840000 "''ab''" "''w''", simplified]
  show ?thesis using found_block_never_dropped [OF eq] eq by (simp add: TemplateEngine_new_def)
qed

theorem background_submission_witness:
  "\<exists>res rpc' n. spawn_resubmit_task 721 5 (\<lambda>k. 5 + k * secs 10) (\<lambda>_. sample_view) 840000 ''ab'' ''00'' None sample_rpc
       = Some (res, rpc', n) \<and> n \<le> 720"
  using background_submission_ends [of 5 "\<lambda>k. 5 + k * secs 10" "\<lambda>_. sample_view" 840000 "''ab''" "''00''" None sample_rpc]
  by (auto simp: SUBMIT_RETRY_INTERVAL_def)

theorem archived_block_witness:
  "parse_archive_name (archive_path ''d'' 961633 (replicate 64 (CHR ''a''))) = Some (961633, replicate 64 (CHR ''a''))
   \<and> archive_path ''d'' 961633 (replicate 64 (CHR ''a''))
       \<in> set (list_archived_blocks ''d'' (archive_found_block True ''d'' 961633 (replicate 64 (CHR ''a'')) ''00'' []))"
proof -
  have "list_all is_ascii_hexdigit (replicate 64 (CHR ''a''))"
    by (simp add: list_all_iff is_ascii_hexdigit_def digit_val_def)
  from archived_block_replayed_until_confirmed [OF _ this refl refl refl, of "''d''" 961633 "''00''" "[]"]
  show ?thesis by simp
qed

end
