(* ===== verification/Sv1.thy ===== *)
theory Sv1
  imports Crates F64
begin

text \<open>
  \<^verbatim>\<open>src/src/protocol/sv1.rs\<close>: the Stratum V1 requests and responses. The text of a line is
  turned into a request by \<^verbatim>\<open>serde_json\<close>, which is not part of the repository, so the
  theory starts from the request value; responses are JSON values, the text being what
  the same crate prints for them. The lemmas say that a submission written in the pool's
  own hexadecimal forms is read back field by field and which errors a malformed request
  gives.
\<close>

section \<open>Requests\<close>

record stratum_request =
  rq_id :: json
  rq_method :: string
  rq_params :: json

definition jget :: "json list option \<Rightarrow> nat \<Rightarrow> json option" where
  "jget arr i = (case arr of None \<Rightarrow> None | Some xs \<Rightarrow> nth_opt xs i)"

definition opt_str :: "json option \<Rightarrow> string option" where
  "opt_str v = (case v of None \<Rightarrow> None | Some j \<Rightarrow> as_str j)"

fun as_f64 :: "json \<Rightarrow> f64 option" where
  "as_f64 (JNumber (PosInt n)) = Some (f64_of_u64 n)"
| "as_f64 (JNumber (NegInt i)) = Some (mk_f64 (real_of_int i))"
| "as_f64 (JNumber (Float x)) = Some (Fin x)"
| "as_f64 _ = None"

record subscribe_params =
  sub_user_agent :: "string option"
  sub_session_id :: "string option"

definition SubscribeParams_parse :: "json \<Rightarrow> subscribe_params result" where
  "SubscribeParams_parse params =
     Ok \<lparr>sub_user_agent = opt_str (jget (as_array params) 0),
         sub_session_id = opt_str (jget (as_array params) 1)\<rparr>"

record authorize_params =
  auth_worker :: string
  auth_password :: "string option"

definition AuthorizeParams_parse :: "json \<Rightarrow> authorize_params result" where
  "AuthorizeParams_parse params =
     obind (of_opt (InvalidParams ''mining.authorize'' ''params must be an array'') (as_array params)) (\<lambda>arr.
     obind (of_opt (InvalidParams ''mining.authorize'' ''missing worker name'')
              (opt_str (nth_opt arr 0))) (\<lambda>worker.
       Ok \<lparr>auth_worker = worker, auth_password = opt_str (nth_opt arr 1)\<rparr>))"

definition str_at :: "json list \<Rightarrow> nat \<Rightarrow> string \<Rightarrow> string \<Rightarrow> string result" where
  "str_at arr idx meth field =
     of_opt (InvalidParams meth (''missing or non-string field `'' @ field @ ''` at index '' @ fmt_dec idx))
       (opt_str (nth_opt arr idx))"

record submit_params =
  sm_worker :: string
  sm_job_id :: string
  sm_extranonce2 :: bytes
  sm_ntime :: u32
  sm_nonce :: u32
  sm_version_bits :: "u32 option"

definition submit_err :: "string \<Rightarrow> pool_error" where
  "submit_err detail = InvalidParams ''mining.submit'' detail"

definition SubmitParams_parse :: "crates \<Rightarrow> json \<Rightarrow> submit_params result" where
  "SubmitParams_parse C params =
     obind (of_opt (submit_err ''params must be an array'') (as_array params)) (\<lambda>arr.
     obind (str_at arr 0 ''mining.submit'' ''worker'') (\<lambda>worker.
     obind (str_at arr 1 ''mining.submit'' ''job_id'') (\<lambda>job_id.
     obind (str_at arr 2 ''mining.submit'' ''extranonce2'') (\<lambda>en2_hex.
     obind (str_at arr 3 ''mining.submit'' ''ntime'') (\<lambda>ntime_hex.
     obind (str_at arr 4 ''mining.submit'' ''nonce'') (\<lambda>nonce_hex.
     obind (of_opt (submit_err ''extranonce2 is not valid hex'') (hex_decode C en2_hex)) (\<lambda>extranonce2.
     obind (of_opt (submit_err ''ntime is not valid hex u32'') (u32_from_hex ntime_hex)) (\<lambda>ntime.
     obind (of_opt (submit_err ''nonce is not valid hex u32'') (u32_from_hex nonce_hex)) (\<lambda>nonce.
       Ok \<lparr>sm_worker = worker, sm_job_id = job_id, sm_extranonce2 = extranonce2, sm_ntime = ntime,
           sm_nonce = nonce,
           sm_version_bits = (case opt_str (nth_opt arr 5) of None \<Rightarrow> None | Some s \<Rightarrow> u32_from_hex s)\<rparr>)))))))))"

record configure_params =
  cp_version_rolling :: bool
  cp_version_rolling_mask :: "u32 option"
  cp_version_rolling_min_bit_count :: "u32 option"
  cp_minimum_difficulty :: "u64 option"
  cp_subscribe_extranonce :: bool

definition configure_default :: configure_params where
  "configure_default = \<lparr>cp_version_rolling = False, cp_version_rolling_mask = None,
     cp_version_rolling_min_bit_count = None, cp_minimum_difficulty = None,
     cp_subscribe_extranonce = False\<rparr>"

definition configure_ext :: "(string \<times> json) list \<Rightarrow> configure_params \<Rightarrow> json \<Rightarrow> configure_params" where
  "configure_ext ext_params r ext =
     (if as_str ext = Some ''version-rolling'' then
        let r1 = r\<lparr>cp_version_rolling := True\<rparr>;
            r2 = (case opt_str (map_of ext_params ''version-rolling.mask'') of
                    None \<Rightarrow> r1
                  | Some mask_str \<Rightarrow> r1\<lparr>cp_version_rolling_mask := u32_from_hex mask_str\<rparr>)
        in (case Option.bind (map_of ext_params ''version-rolling.min-bit-count'') as_u64 of
              None \<Rightarrow> r2
            | Some min_bits \<Rightarrow> r2\<lparr>cp_version_rolling_min_bit_count := Some (ucast min_bits)\<rparr>)
      else if as_str ext = Some ''minimum-difficulty'' then
        r\<lparr>cp_minimum_difficulty := Option.bind (map_of ext_params ''minimum-difficulty.value'') as_u64\<rparr>
      else if as_str ext = Some ''subscribe-extranonce'' then r\<lparr>cp_subscribe_extranonce := True\<rparr>
      else r)"

definition ConfigureParams_parse :: "json \<Rightarrow> configure_params result" where
  "ConfigureParams_parse params =
     (let extensions = (case Option.bind (jget (as_array params) 0) as_array of None \<Rightarrow> [] | Some xs \<Rightarrow> xs);
          ext_params = (case Option.bind (jget (as_array params) 1) as_object of None \<Rightarrow> [] | Some m \<Rightarrow> m)
      in Ok (foldl (configure_ext ext_params) configure_default extensions))"

definition SuggestDifficultyParams_parse :: "json \<Rightarrow> u64 result" where
  "SuggestDifficultyParams_parse params =
     obind (of_opt (InvalidParams ''mining.suggest_difficulty'' ''expected a numeric difficulty'')
              (as_f64 (case jget (as_array params) 0 of Some v \<Rightarrow> v | None \<Rightarrow> params))) (\<lambda>d.
       if \<not> f64_is_finite d \<or> f64_lt d (Fin 1)
       then Err (InvalidParams ''mining.suggest_difficulty'' ''difficulty must be a finite number >= 1'')
       else Ok (f64_to_u64 d))"

datatype client_message =
    Subscribe subscribe_params
  | Authorize authorize_params
  | Submit submit_params
  | Configure configure_params
  | SuggestDifficulty u64
  | Unknown string

definition from_request :: "crates \<Rightarrow> stratum_request \<Rightarrow> client_message result" where
  "from_request C req =
     (if rq_method req = ''mining.subscribe''
      then obind (SubscribeParams_parse (rq_params req)) (\<lambda>p. Ok (Subscribe p))
      else if rq_method req = ''mining.authorize''
      then obind (AuthorizeParams_parse (rq_params req)) (\<lambda>p. Ok (Authorize p))
      else if rq_method req = ''mining.submit''
      then obind (SubmitParams_parse C (rq_params req)) (\<lambda>p. Ok (Submit p))
      else if rq_method req = ''mining.configure''
      then obind (ConfigureParams_parse (rq_params req)) (\<lambda>p. Ok (Configure p))
      else if rq_method req = ''mining.suggest_difficulty''
      then obind (SuggestDifficultyParams_parse (rq_params req)) (\<lambda>d. Ok (SuggestDifficulty d))
      else Ok (Unknown (rq_method req)))"

section \<open>Responses\<close>

definition resp_ok :: "json \<Rightarrow> json \<Rightarrow> json" where
  "resp_ok id' res = JObject [(''id'', id'), (''result'', res), (''error'', JNull)]"

definition resp_err :: "json \<Rightarrow> json \<Rightarrow> json" where
  "resp_err id' err = JObject [(''id'', id'), (''result'', JNull), (''error'', err)]"

definition resp_subscribe :: "json \<Rightarrow> string \<Rightarrow> string \<Rightarrow> nat \<Rightarrow> json" where
  "resp_subscribe id' session_id extranonce1_hex extranonce2_size =
     resp_ok id' (JArray [
       JArray [JArray [JString ''mining.set_difficulty'', JString session_id],
               JArray [JString ''mining.notify'', JString session_id]],
       JString extranonce1_hex, jnat extranonce2_size])"

definition resp_configure :: "json \<Rightarrow> bool \<Rightarrow> u32 \<Rightarrow> u64 option \<Rightarrow> bool \<Rightarrow> json" where
  "resp_configure id' version_rolling our_mask min_difficulty subscribe_extranonce =
     resp_ok id' (JObject (
       (if version_rolling
        then [(''version-rolling'', JBool True),
              (''version-rolling.mask'', JString (fmt_hex 8 (unat our_mask)))] else [])
       @ (case min_difficulty of
            None \<Rightarrow> []
          | Some md \<Rightarrow> [(''minimum-difficulty'', JBool True),
                         (''minimum-difficulty.value'', JNumber (PosInt md))])
       @ (if subscribe_extranonce then [(''subscribe-extranonce'', JBool True)] else [])))"

definition notification :: "string \<Rightarrow> json list \<Rightarrow> json" where
  "notification meth params =
     JObject [(''id'', JNull), (''method'', JString meth), (''params'', JArray params)]"

definition resp_set_difficulty :: "u64 \<Rightarrow> json" where
  "resp_set_difficulty difficulty =
     notification ''mining.set_difficulty'' [JNumber (PosInt difficulty)]"

definition resp_notify ::
  "string \<Rightarrow> string \<Rightarrow> string \<Rightarrow> string \<Rightarrow> string list \<Rightarrow> u32 \<Rightarrow> string \<Rightarrow> u32 \<Rightarrow> bool \<Rightarrow> json" where
  "resp_notify job_id prev_hash coinbase1 coinbase2 merkle_branch version bits ntime clean_jobs =
     notification ''mining.notify'' [JString job_id, JString prev_hash, JString coinbase1,
       JString coinbase2, JArray (map JString merkle_branch), JString (fmt_hex 8 (unat version)),
       JString bits, JString (fmt_hex 8 (unat ntime)), JBool clean_jobs]"

definition resp_set_extranonce :: "string \<Rightarrow> nat \<Rightarrow> json" where
  "resp_set_extranonce extranonce1_hex extranonce2_size =
     notification ''mining.set_extranonce'' [JString extranonce1_hex, jnat extranonce2_size]"

section \<open>Lemmas\<close>

lemma str_at_Err: "str_at arr i meth f = Err e \<Longrightarrow> \<exists>d. e = InvalidParams meth d"
  by (auto simp: str_at_def of_opt_def split: option.splits)

lemma of_opt_Err: "of_opt e x = Err e' \<longleftrightarrow> x = None \<and> e' = e"
  by (auto simp: of_opt_def split: option.splits)

lemma str_at_not_Panic [simp]: "str_at arr i meth f \<noteq> Panic"
  by (simp add: str_at_def)

lemma SubmitParams_parse_Err:
  "SubmitParams_parse C params = Err e \<Longrightarrow> \<exists>d. e = InvalidParams ''mining.submit'' d"
  by (auto simp: SubmitParams_parse_def obind_Err_iff of_opt_Err submit_err_def dest: str_at_Err)

lemma from_request_total:
  "from_request C req \<noteq> Panic
   \<and> (\<forall>e. from_request C req = Err e \<longrightarrow> (\<exists>d. e = InvalidParams (rq_method req) d))"
  by (auto simp: from_request_def obind_Panic_iff obind_Err_iff of_opt_Err SubmitParams_parse_def
      SubscribeParams_parse_def AuthorizeParams_parse_def ConfigureParams_parse_def Let_def
      SuggestDifficultyParams_parse_def submit_err_def dest: str_at_Err)

section \<open>Properties\<close>

text \<open>
  A submission whose extranonce, time, nonce and version bits are written the way the pool
  writes them (hexadecimal, words in eight digits) is read back as exactly those values.
\<close>

theorem submit_params_roundtrip:
  assumes "hex_ok C"
  shows "SubmitParams_parse C (JArray [JString worker, JString job_id, JString (hex_encode C en2),
       JString (fmt_hex 8 (unat ntime)), JString (fmt_hex 8 (unat nonce)), JString (fmt_hex 8 (unat vbits))])
     = Ok \<lparr>sm_worker = worker, sm_job_id = job_id, sm_extranonce2 = en2, sm_ntime = ntime,
           sm_nonce = nonce, sm_version_bits = Some vbits\<rparr>"
  using assms
  by (simp add: SubmitParams_parse_def str_at_def nth_opt_def opt_str_def u32_from_hex_fmt hex_ok_def)

theorem submit_params_roundtrip_witness:
  "SubmitParams_parse sample_crates (JArray [JString ''w'', JString ''j'',
     JString (hex_encode sample_crates [1, 2]), JString (fmt_hex 8 (unat (5 :: u32))),
     JString (fmt_hex 8 (unat (6 :: u32))), JString (fmt_hex 8 (unat (0x2000 :: u32)))])
   = Ok \<lparr>sm_worker = ''w'', sm_job_id = ''j'', sm_extranonce2 = [1, 2], sm_ntime = 5, sm_nonce = 6,
         sm_version_bits = Some 0x2000\<rparr>"
  by (rule submit_params_roundtrip) simp

text \<open>
  Reading a request never panics, and every request that cannot be read is reported as
  invalid parameters of its own method.
\<close>

theorem request_errors_name_the_method:
  "from_request C req \<noteq> Panic
   \<and> (\<forall>e. from_request C req = Err e \<longrightarrow> (\<exists>d. e = InvalidParams (rq_method req) d))"
  by (rule from_request_total)

theorem request_errors_witness:
  "\<exists>d. from_request sample_crates \<lparr>rq_id = JNull, rq_method = ''mining.authorize'', rq_params = JNull\<rparr>
     = Err (InvalidParams ''mining.authorize'' d)"
proof -
  let ?rq = "\<lparr>rq_id = JNull, rq_method = ''mining.authorize'', rq_params = JNull\<rparr>"
  have "\<exists>e. from_request sample_crates ?rq = Err e"
    by (simp add: from_request_def AuthorizeParams_parse_def of_opt_def)
  then show ?thesis using request_errors_name_the_method [of sample_crates ?rq] by auto
qed

end
