(* ===== verification/Security.thy ===== *)
theory Security
  imports Errors Config "HOL-Library.AList"
begin

text \<open>
  \<^verbatim>\<open>src/src/security/mod.rs\<close>: the ban list, the per-address connection limiter, the
  worker-name check, the share-rate token bucket, the invalid-share counter and the
  per-session guard. Instants and durations are natural numbers of nanoseconds since
  boot; every call of \<open>Instant::now()\<close> is an argument, in the order the code makes them.
  The concurrent maps are association lists whose order stands for the map's iteration
  order; no statement depends on it.
\<close>

section \<open>Ban list\<close>

definition MAX_TRACKED_IPS :: nat where
  "MAX_TRACKED_IPS = 65536"

record ban_entry =
  be_until :: nat
  be_reason :: string

record 'ip ban_list =
  bl_entries :: "('ip \<times> ban_entry) list"
  bl_ban_duration :: nat
  bl_max_entries :: nat

definition BanList_with_capacity_limit :: "u64 \<Rightarrow> nat \<Rightarrow> 'ip ban_list" where
  "BanList_with_capacity_limit ban_duration_secs max_entries =
     \<lparr>bl_entries = [], bl_ban_duration = secs (unat ban_duration_secs), bl_max_entries = max_entries\<rparr>"

definition BanList_new :: "u64 \<Rightarrow> 'ip ban_list" where
  "BanList_new ban_duration_secs = BanList_with_capacity_limit ban_duration_secs MAX_TRACKED_IPS"

definition BanList_prune :: "nat \<Rightarrow> 'ip ban_list \<Rightarrow> 'ip ban_list" where
  "BanList_prune now bl = bl\<lparr>bl_entries := filter (\<lambda>(_, v). now < be_until v) (bl_entries bl)\<rparr>"

text \<open>\<open>iter().min_by_key(f)\<close>: the first of the elements with the least key.\<close>

fun min_by_key :: "('a \<Rightarrow> nat) \<Rightarrow> 'a list \<Rightarrow> 'a option" where
  "min_by_key f [] = None"
| "min_by_key f (x # xs) =
     (case min_by_key f xs of None \<Rightarrow> Some x
      | Some y \<Rightarrow> if f y < f x then Some y else Some x)"

definition BanList_make_room :: "nat \<Rightarrow> 'ip \<Rightarrow> 'ip ban_list \<Rightarrow> 'ip ban_list" where
  "BanList_make_room prune_now ip bl =
     (if bl_max_entries bl \<le> length (bl_entries bl) \<and> map_of (bl_entries bl) ip = None
      then
        let bl1 = BanList_prune prune_now bl
        in if bl_max_entries bl1 \<le> length (bl_entries bl1)
           then (case min_by_key (\<lambda>e. be_until (snd e)) (bl_entries bl1) of
                   None \<Rightarrow> bl1
                 | Some victim \<Rightarrow>
                     bl1\<lparr>bl_entries := AList.delete (fst victim) (bl_entries bl1)\<rparr>)
           else bl1
      else bl)"

definition BanList_ban :: "nat \<Rightarrow> nat \<Rightarrow> 'ip \<Rightarrow> string \<Rightarrow> 'ip ban_list \<Rightarrow> 'ip ban_list" where
  "BanList_ban prune_now now ip reason bl =
     (let bl1 = BanList_make_room prune_now ip bl
      in bl1\<lparr>bl_entries := AList.update ip
           \<lparr>be_until = now + bl_ban_duration bl1, be_reason = reason\<rparr> (bl_entries bl1)\<rparr>)"

definition BanList_is_banned :: "nat \<Rightarrow> nat \<Rightarrow> 'ip \<Rightarrow> 'ip ban_list \<Rightarrow> bool \<times> 'ip ban_list" where
  "BanList_is_banned now1 now2 ip bl =
     (case map_of (bl_entries bl) ip of
        None \<Rightarrow> (False, bl)
      | Some entry \<Rightarrow>
          if now1 < be_until entry then (True, bl)
          else if be_until entry \<le> now2
          then (False, bl\<lparr>bl_entries := AList.delete ip (bl_entries bl)\<rparr>)
          else (False, bl))"

section \<open>Connection rate limiter\<close>

record 'ip conn_limiter =
  cl_windows :: "('ip \<times> nat list) list"
  cl_max_per_minute :: u32
  cl_max_tracked :: nat

definition ConnLimiter_with_capacity_limit :: "u32 \<Rightarrow> nat \<Rightarrow> 'ip conn_limiter" where
  "ConnLimiter_with_capacity_limit max_per_minute max_tracked =
     \<lparr>cl_windows = [], cl_max_per_minute = max_per_minute, cl_max_tracked = max_tracked\<rparr>"

definition ConnLimiter_new :: "u32 \<Rightarrow> 'ip conn_limiter" where
  "ConnLimiter_new max_per_minute = ConnLimiter_with_capacity_limit max_per_minute MAX_TRACKED_IPS"

definition ConnLimiter_prune :: "nat \<Rightarrow> 'ip conn_limiter \<Rightarrow> 'ip conn_limiter" where
  "ConnLimiter_prune now cl =
     (case checked_sub_instant now (secs 60) of
        None \<Rightarrow> cl
      | Some one_minute_ago \<Rightarrow>
          cl\<lparr>cl_windows := filter (\<lambda>(_, times). \<exists>t \<in> set times. one_minute_ago < t) (cl_windows cl)\<rparr>)"

definition ConnLimiter_check_and_record ::
  "nat \<Rightarrow> nat \<Rightarrow> nat \<Rightarrow> 'ip \<Rightarrow> 'ip conn_limiter \<Rightarrow> bool \<times> 'ip conn_limiter" where
  "ConnLimiter_check_and_record now prune_now push_now ip cl =
     (let one_minute_ago = checked_sub_instant now (secs 60);
          full = cl_max_tracked cl \<le> length (cl_windows cl) \<and> map_of (cl_windows cl) ip = None;
          cl1 = (if full then ConnLimiter_prune prune_now cl else cl)
      in if full \<and> cl_max_tracked cl1 \<le> length (cl_windows cl1) then (False, cl1)
         else
           let entry = (case map_of (cl_windows cl1) ip of None \<Rightarrow> [] | Some ts \<Rightarrow> ts);
               kept = (case one_minute_ago of None \<Rightarrow> entry
                       | Some cutoff \<Rightarrow> filter (\<lambda>t. cutoff < t) entry)
           in if unat (cl_max_per_minute cl1) \<le> length kept
              then (False, cl1\<lparr>cl_windows := AList.update ip kept (cl_windows cl1)\<rparr>)
              else (True, cl1\<lparr>cl_windows := AList.update ip (kept @ [push_now]) (cl_windows cl1)\<rparr>))"

section \<open>Worker names\<close>

definition invalid_worker_name :: "string \<Rightarrow> pool_error" where
  "invalid_worker_name detail = InvalidParams ''worker name'' detail"

definition validate_worker_name :: "string \<Rightarrow> nat \<Rightarrow> unit result" where
  "validate_worker_name name max_len =
     (if name = [] then Err (invalid_worker_name ''worker name must not be empty'')
      else if length name > max_len then Err (invalid_worker_name ''worker name too long'')
      else if \<exists>c \<in> set (utf8_scalars (str_bytes name)). char_is_control c \<or> char_is_whitespace c
      then Err (invalid_worker_name
        ''worker name must not contain control or whitespace characters'')
      else Ok ())"

section \<open>Share rate limiter\<close>

record share_rate_limiter =
  sr_tokens :: f64
  sr_max_per_sec :: f64
  sr_last_refill :: nat

definition ShareRateLimiter_new :: "nat \<Rightarrow> u32 \<Rightarrow> share_rate_limiter" where
  "ShareRateLimiter_new now max_per_sec =
     (let rate = f64_of_u64 max_per_sec
      in \<lparr>sr_tokens = rate, sr_max_per_sec = rate, sr_last_refill = now\<rparr>)"

definition ShareRateLimiter_try_consume ::
  "nat \<Rightarrow> nat \<Rightarrow> share_rate_limiter \<Rightarrow> bool \<times> share_rate_limiter" where
  "ShareRateLimiter_try_consume now1 now2 s =
     (let elapsed = as_secs_f64 (now1 - sr_last_refill s);
          tokens = f64_min (f64_add (sr_tokens s) (f64_mul elapsed (sr_max_per_sec s))) (sr_max_per_sec s)
      in if f64_le (Fin 1) tokens
         then (True, s\<lparr>sr_tokens := f64_sub tokens (Fin 1), sr_last_refill := now2\<rparr>)
         else (False, s\<lparr>sr_tokens := tokens, sr_last_refill := now2\<rparr>))"

section \<open>Invalid-share counter\<close>

record invalid_share_counter =
  ic_count :: u32
  ic_max :: u32

definition InvalidShareCounter_new :: "u32 \<Rightarrow> invalid_share_counter" where
  "InvalidShareCounter_new m = \<lparr>ic_count = 0, ic_max = m\<rparr>"

definition InvalidShareCounter_record_invalid ::
  "invalid_share_counter \<Rightarrow> bool \<times> invalid_share_counter" where
  "InvalidShareCounter_record_invalid c =
     (if ic_max c = 0 then (False, c)
      else let c1 = c\<lparr>ic_count := ic_count c + 1\<rparr>
           in (ic_max c1 \<le> ic_count c1, c1))"

section \<open>Session guard\<close>

record session_guard =
  sg_share_rate :: share_rate_limiter
  sg_invalid_shares :: invalid_share_counter
  sg_max_message_bytes :: nat
  sg_max_worker_name_len :: nat
  sg_authorizations :: u32
  sg_max_authorizations :: u32

definition SessionGuard_new :: "nat \<Rightarrow> security_config \<Rightarrow> session_guard" where
  "SessionGuard_new now cfg =
     \<lparr>sg_share_rate = ShareRateLimiter_new now (sc_max_shares_per_sec cfg),
      sg_invalid_shares = InvalidShareCounter_new (sc_max_invalid_shares cfg),
      sg_max_message_bytes = sc_max_message_bytes cfg,
      sg_max_worker_name_len = sc_max_worker_name_len cfg,
      sg_authorizations = 0,
      sg_max_authorizations = sc_max_authorizations_per_session cfg\<rparr>"

definition SessionGuard_record_new_authorization :: "session_guard \<Rightarrow> bool \<times> session_guard" where
  "SessionGuard_record_new_authorization g =
     (if sg_max_authorizations g = 0 then (True, g)
      else let g1 = g\<lparr>sg_authorizations := sg_authorizations g + 1\<rparr>
           in (\<not> sg_max_authorizations g1 < sg_authorizations g1, g1))"

definition SessionGuard_check_message_size :: "session_guard \<Rightarrow> nat \<Rightarrow> unit result" where
  "SessionGuard_check_message_size g len =
     (if len > sg_max_message_bytes g then Err (MessageTooLarge len) else Ok ())"

definition SessionGuard_check_worker_name :: "session_guard \<Rightarrow> string \<Rightarrow> unit result" where
  "SessionGuard_check_worker_name g name = validate_worker_name name (sg_max_worker_name_len g)"

section \<open>Lemmas on the ban list\<close>

definition ban_list_ok :: "nat \<Rightarrow> 'ip ban_list \<Rightarrow> bool" where
  "ban_list_ok cap bl \<longleftrightarrow> distinct (map fst (bl_entries bl)) \<and> length (bl_entries bl) \<le> cap
     \<and> bl_max_entries bl = cap \<and> 0 < cap"

lemma distinct_keys_filter: "distinct (map fst xs) \<Longrightarrow> distinct (map fst (filter P xs))"
  by (induction xs) auto

lemma length_AList_delete: "x \<in> set xs \<Longrightarrow> length (AList.delete (fst x) xs) < length xs"
  unfolding AList.delete_eq by (rule length_filter_less [of x]) auto

lemma length_AList_update:
  "length (AList.update k v xs) = (if map_of xs k = None then Suc (length xs) else length xs)"
  by (induction xs) auto

lemma min_by_key_Some: "xs \<noteq> [] \<Longrightarrow> \<exists>y \<in> set xs. min_by_key f xs = Some y \<and> (\<forall>x \<in> set xs. f y \<le> f x)"
proof (induction xs)
  case (Cons x xs)
  show ?case
  proof (cases "xs = []")
    case False
    with Cons.IH obtain y where "y \<in> set xs" "min_by_key f xs = Some y" "\<forall>x \<in> set xs. f y \<le> f x" by blast
    then show ?thesis by (cases "f y < f x") (auto simp: not_less intro: order_trans less_imp_le)
  qed simp
qed simp

lemma BanList_prune_ok: "ban_list_ok cap bl \<Longrightarrow> ban_list_ok cap (BanList_prune now bl)"
  by (auto simp: ban_list_ok_def BanList_prune_def distinct_keys_filter intro: order_trans [OF length_filter_le])

lemma BanList_make_room_ok:
  fixes t :: nat and ip :: 'ip and bl :: "'ip ban_list"
  assumes "ban_list_ok cap bl"
  defines "bl' \<equiv> BanList_make_room t ip bl"
  shows "ban_list_ok cap bl' \<and> bl_ban_duration bl' = bl_ban_duration bl
     \<and> (map_of (bl_entries bl') ip = None \<longrightarrow> length (bl_entries bl') < cap)"
proof (cases "bl_max_entries bl \<le> length (bl_entries bl) \<and> map_of (bl_entries bl) ip = None")
  case False
  then show ?thesis using assms(1) by (auto simp: bl'_def BanList_make_room_def ban_list_ok_def)
next
  case full: True
  define bl1 where "bl1 = BanList_prune t bl"
  have ok1: "ban_list_ok cap bl1" using BanList_prune_ok [OF assms(1)] by (simp add: bl1_def)
  have d1: "bl_ban_duration bl1 = bl_ban_duration bl" by (simp add: bl1_def BanList_prune_def)
  show ?thesis
  proof (cases "bl_max_entries bl1 \<le> length (bl_entries bl1)")
    case False
    then have "bl' = bl1" using full by (simp add: bl'_def BanList_make_room_def bl1_def Let_def)
    then show ?thesis using ok1 d1 False by (auto simp: ban_list_ok_def)
  next
    case True
    then have "bl_entries bl1 \<noteq> []" using ok1 by (auto simp: ban_list_ok_def)
    then obtain v where v: "v \<in> set (bl_entries bl1)"
      "min_by_key (\<lambda>e. be_until (snd e)) (bl_entries bl1) = Some v"
      using min_by_key_Some [of "bl_entries bl1" "\<lambda>e. be_until (snd e)"] by blast
    then have b: "bl' = bl1\<lparr>bl_entries := AList.delete (fst v) (bl_entries bl1)\<rparr>"
      using full True by (simp add: bl'_def BanList_make_room_def bl1_def Let_def)
    have "length (AList.delete (fst v) (bl_entries bl1)) < length (bl_entries bl1)"
      using v(1) by (rule length_AList_delete)
    then show ?thesis using ok1 d1 b by (auto simp: ban_list_ok_def AList.distinct_delete)
  qed
qed

lemma BanList_ban_ok: "ban_list_ok cap bl \<Longrightarrow> ban_list_ok cap (BanList_ban tp now ip reason bl)"
  using BanList_make_room_ok [of cap bl tp ip]
  by (auto simp: BanList_ban_def Let_def ban_list_ok_def length_AList_update AList.distinct_update)

lemma BanList_is_banned_ok:
  "ban_list_ok cap bl \<Longrightarrow> ban_list_ok cap (snd (BanList_is_banned now1 now2 ip bl))"
  using length_filter_le [of "\<lambda>(k', _). ip \<noteq> k'" "bl_entries bl"]
  by (auto simp: BanList_is_banned_def ban_list_ok_def AList.distinct_delete AList.delete_eq distinct_keys_filter split: option.splits
      intro: order_trans [OF length_filter_le])

datatype 'ip ban_op = Ban nat nat 'ip string | IsBanned nat nat 'ip | Prune nat

fun ban_step :: "'ip ban_op \<Rightarrow> 'ip ban_list \<Rightarrow> 'ip ban_list" where
  "ban_step (Ban prune_now now ip reason) bl = BanList_ban prune_now now ip reason bl"
| "ban_step (IsBanned now1 now2 ip) bl = snd (BanList_is_banned now1 now2 ip bl)"
| "ban_step (Prune now) bl = BanList_prune now bl"

interpretation bans: bounded_store "ban_list_ok MAX_TRACKED_IPS" ban_step "\<lambda>bl. length (bl_entries bl)" MAX_TRACKED_IPS
proof unfold_locales
  fix bl :: "'ip ban_list" and a
  assume "ban_list_ok MAX_TRACKED_IPS bl"
  then show "ban_list_ok MAX_TRACKED_IPS (ban_step a bl)"
    by (cases a) (simp_all add: BanList_ban_ok BanList_is_banned_ok BanList_prune_ok)
qed (simp add: ban_list_ok_def)

lemma map_of_prune:
  "distinct (map fst (bl_entries bl)) \<Longrightarrow>
   map_of (bl_entries (BanList_prune now bl)) ip =
     (case map_of (bl_entries bl) ip of None \<Rightarrow> None | Some e \<Rightarrow> if now < be_until e then Some e else None)"
proof -
  have "distinct (map fst xs) \<Longrightarrow> map_of (filter (\<lambda>(_, v). now < be_until v) xs) ip =
     (case map_of xs ip of None \<Rightarrow> None | Some e \<Rightarrow> if now < be_until e then Some e else None)" for xs
    by (induction xs) (auto split: option.splits simp: map_of_eq_None_iff image_iff)
  then show "distinct (map fst (bl_entries bl)) \<Longrightarrow> ?thesis" by (simp add: BanList_prune_def)
qed

lemma BanList_ban_lookup:
  "map_of (bl_entries (BanList_ban tp now ip reason bl)) ip
     = Some \<lparr>be_until = now + bl_ban_duration (BanList_make_room tp ip bl), be_reason = reason\<rparr>"
  by (simp add: BanList_ban_def Let_def AList.update_conv')

text \<open>While an address is banned, no other operation before the ban ends removes it, except the
  eviction of the ban closest to expiry when the list is full of live bans.\<close>

lemma is_banned_other:
  "ip' \<noteq> ip \<Longrightarrow> map_of (bl_entries (snd (BanList_is_banned n1 n2 ip bl))) ip' = map_of (bl_entries bl) ip'"
  by (auto simp: BanList_is_banned_def AList.delete_conv' split: option.splits)


section \<open>Lemmas on the connection limiter\<close>

abbreviation recent :: "nat \<Rightarrow> nat \<Rightarrow> bool" where
  "recent now t \<equiv> now < t + secs 60"

definition window_of :: "'ip conn_limiter \<Rightarrow> 'ip \<Rightarrow> nat list" where
  "window_of cl ip = (case map_of (cl_windows cl) ip of None \<Rightarrow> [] | Some ts \<Rightarrow> ts)"

text \<open>
  A history of the limiter: the connections it was asked about and the sweeps of the background
  task, with the clock readings each made, and the log of the connections it allowed.
\<close>

datatype 'ip limiter_op = Connect 'ip nat nat nat | Sweep nat

fun limiter_step ::
  "'ip limiter_op \<Rightarrow> 'ip conn_limiter \<times> ('ip \<times> nat) list \<Rightarrow> 'ip conn_limiter \<times> ('ip \<times> nat) list" where
  "limiter_step (Connect ip now prune_now push_now) (cl, lg) =
     (let (allowed, cl') = ConnLimiter_check_and_record now prune_now push_now ip cl
      in (cl', if allowed then lg @ [(ip, push_now)] else lg))"
| "limiter_step (Sweep now) (cl, lg) = (ConnLimiter_prune now cl, lg)"

fun clock_ok :: "nat \<Rightarrow> 'ip limiter_op list \<Rightarrow> bool" where
  "clock_ok c [] = True"
| "clock_ok c (Connect ip now prune_now push_now # ops) =
     (c \<le> now \<and> now \<le> prune_now \<and> prune_now \<le> push_now \<and> clock_ok push_now ops)"
| "clock_ok c (Sweep now # ops) = (c \<le> now \<and> clock_ok now ops)"

definition allowed_times :: "('ip \<times> nat) list \<Rightarrow> 'ip \<Rightarrow> nat list" where
  "allowed_times lg ip = map snd (filter (\<lambda>e. fst e = ip) lg)"

definition limiter_inv :: "nat \<Rightarrow> u32 \<Rightarrow> 'ip conn_limiter \<times> ('ip \<times> nat) list \<Rightarrow> bool" where
  "limiter_inv c m st \<longleftrightarrow> distinct (map fst (cl_windows (fst st))) \<and> cl_max_per_minute (fst st) = m
     \<and> (\<forall>ip. filter (recent c) (allowed_times (snd st) ip) = filter (recent c) (window_of (fst st) ip))
     \<and> (\<forall>ip t. length (filter (\<lambda>u. recent t u \<and> u \<le> t) (allowed_times (snd st) ip)) \<le> unat m)"

lemma recent_later: "c \<le> c' \<Longrightarrow> filter (recent c') (filter (recent c) xs) = filter (recent c') xs"
  by (induction xs) auto

lemma recent_later_eq:
  "filter (recent c) xs = filter (recent c) ys \<Longrightarrow> c \<le> c' \<Longrightarrow> filter (recent c') xs = filter (recent c') ys"
  using recent_later [of c c' xs] recent_later [of c c' ys] by simp

lemma limiter_inv_later: "limiter_inv c m st \<Longrightarrow> c \<le> c' \<Longrightarrow> limiter_inv c' m st"
  unfolding limiter_inv_def by (blast intro: recent_later_eq)

lemma allowed_times_snoc:
  "allowed_times (lg @ [(ip, t)]) ip' = allowed_times lg ip' @ (if ip = ip' then [t] else [])"
  by (simp add: allowed_times_def)

lemma keep_recent:
  "(case checked_sub_instant now (secs 60) of None \<Rightarrow> ts | Some cutoff \<Rightarrow> filter (\<lambda>t. cutoff < t) ts)
     = filter (recent now) ts"
  by (auto simp: checked_sub_instant_def less_diff_conv2 intro!: filter_cong)

lemma length_filter_mono_aux: "(\<And>x. P x \<Longrightarrow> Q x) \<Longrightarrow> length (filter P xs) \<le> length (filter Q xs)"
  by (induction xs) (auto simp: le_SucI)

lemma filter_conv_all: "\<forall>x \<in> set xs. P x \<Longrightarrow> filter P xs = xs"
  by (induction xs) auto

lemma prune_windows:
  "distinct (map fst (cl_windows cl)) \<Longrightarrow>
     filter (recent now) (window_of (ConnLimiter_prune now cl) ip) = filter (recent now) (window_of cl ip)"
proof -
  have *: "distinct (map fst xs) \<Longrightarrow> map_of (filter (\<lambda>(_, times). P times) xs) ip =
     (case map_of xs ip of None \<Rightarrow> None | Some e \<Rightarrow> if P e then Some e else None)" for P xs
    by (induction xs) (auto split: option.splits simp: map_of_eq_None_iff image_iff)
  assume "distinct (map fst (cl_windows cl))"
  then show ?thesis
    by (auto simp: ConnLimiter_prune_def window_of_def checked_sub_instant_def * less_diff_conv2
        filter_empty_conv split: option.splits)
qed

lemma prune_frame:
  "distinct (map fst (cl_windows cl)) \<Longrightarrow> distinct (map fst (cl_windows (ConnLimiter_prune now cl)))"
  "cl_max_per_minute (ConnLimiter_prune now cl) = cl_max_per_minute cl"
  by (auto simp: ConnLimiter_prune_def distinct_keys_filter split: option.splits)

lemma limiter_inv_prune:
  "limiter_inv c m (cl, lg) \<Longrightarrow> c \<le> now \<Longrightarrow> limiter_inv now m (ConnLimiter_prune now cl, lg)"
  by (drule limiter_inv_later, assumption) (simp add: limiter_inv_def prune_windows prune_frame)

lemma window_of_update:
  "window_of (cl\<lparr>cl_windows := AList.update ip ts (cl_windows cl)\<rparr>) ip' = (if ip' = ip then ts else window_of cl ip')"
  by (simp add: window_of_def AList.update_conv')

lemma limiter_inv_record:
  assumes "limiter_inv c m (cl, lg)" and "c \<le> push_now" and "now \<le> push_now"
    and "filter (recent now) (allowed_times lg ip) = kept" and "length kept < unat m"
  shows "limiter_inv push_now m
     (cl\<lparr>cl_windows := AList.update ip (kept @ [push_now]) (cl_windows cl)\<rparr>, lg @ [(ip, push_now)])"
proof -
  have inv: "limiter_inv push_now m (cl, lg)" using assms(1,2) by (rule limiter_inv_later)
  have "filter (recent push_now) kept = filter (recent push_now) (allowed_times lg ip)"
    using recent_later [OF assms(3), of "allowed_times lg ip"] assms(4) by simp
  moreover have "length (filter (\<lambda>u. recent t u \<and> u \<le> t) (allowed_times lg ip @ [push_now])) \<le> unat m" for t
  proof (cases "push_now \<le> t")
    case True
    have "length (filter (\<lambda>u. recent t u \<and> u \<le> t) (allowed_times lg ip)) \<le> length kept"
      unfolding assms(4) [symmetric]
    proof (rule length_filter_mono_aux)
      show "recent now u" if "recent t u \<and> u \<le> t" for u using that True assms(3) by simp
    qed
    then show ?thesis using assms(5) by simp
  next
    case False
    then show ?thesis using inv by (simp add: limiter_inv_def)
  qed
  ultimately show ?thesis
    using inv by (simp add: limiter_inv_def allowed_times_snoc window_of_update AList.distinct_update)
qed


lemma limiter_inv_step:
  assumes "limiter_inv c m (cl, lg)" and "c \<le> now" "now \<le> prune_now" "prune_now \<le> push_now"
  shows "limiter_inv push_now m (limiter_step (Connect ip now prune_now push_now) (cl, lg))"
proof -
  define full where "full \<longleftrightarrow> cl_max_tracked cl \<le> length (cl_windows cl) \<and> map_of (cl_windows cl) ip = None"
  define cl1 where "cl1 = (if full then ConnLimiter_prune prune_now cl else cl)"
  define kept where "kept = filter (recent now) (window_of cl1 ip)"
  have inv_now: "limiter_inv now m (cl, lg)" using assms(1,2) by (rule limiter_inv_later)
  have inv1: "limiter_inv prune_now m (cl1, lg)"
    using limiter_inv_prune [OF inv_now assms(3)] limiter_inv_later [OF inv_now assms(3)] by (simp add: cl1_def)
  have m1: "cl_max_per_minute cl1 = m" using inv1 by (simp add: limiter_inv_def)
  have step: "limiter_step (Connect ip now prune_now push_now) (cl, lg) =
      (if full \<and> cl_max_tracked cl1 \<le> length (cl_windows cl1) then (cl1, lg)
       else if unat m \<le> length kept then (cl1\<lparr>cl_windows := AList.update ip kept (cl_windows cl1)\<rparr>, lg)
       else (cl1\<lparr>cl_windows := AList.update ip (kept @ [push_now]) (cl_windows cl1)\<rparr>, lg @ [(ip, push_now)]))"
    using m1 by (cases full) (simp_all add: ConnLimiter_check_and_record_def Let_def full_def [symmetric]
        cl1_def keep_recent kept_def window_of_def)
  have "filter (recent push_now) kept = filter (recent push_now) (window_of cl1 ip)"
    using assms recent_later [of now push_now "window_of cl1 ip"] by (simp add: kept_def)
  then have dead: "limiter_inv push_now m (cl1\<lparr>cl_windows := AList.update ip kept (cl_windows cl1)\<rparr>, lg)"
    using limiter_inv_later [OF inv1 assms(4)]
    by (simp add: limiter_inv_def window_of_update AList.distinct_update)
  have "window_of cl1 ip = window_of cl ip"
  proof (cases full)
    case True
    then have "ip \<notin> fst ` set (cl_windows cl)" by (simp add: full_def map_of_eq_None_iff)
    then have "ip \<notin> fst ` set (cl_windows cl1)"
      by (auto simp: cl1_def ConnLimiter_prune_def split: option.splits)
    then show ?thesis using \<open>ip \<notin> fst ` set (cl_windows cl)\<close>
      by (simp add: window_of_def map_of_eq_None_iff [THEN iffD2])
  qed (simp add: cl1_def)
  then have acc: "filter (recent now) (allowed_times lg ip) = kept"
    using inv_now by (simp add: limiter_inv_def kept_def)
  show ?thesis
    unfolding step
    using limiter_inv_later [OF inv1 assms(4)] dead
      limiter_inv_record [OF inv1 assms(4) order_trans [OF assms(3,4)] acc] by (simp add: not_le)
qed

lemma limiter_run_inv:
  "limiter_inv c m st \<Longrightarrow> clock_ok c ops \<Longrightarrow> \<exists>c'. limiter_inv c' m (fold limiter_step ops st)"
proof (induction ops arbitrary: c st)
  case (Cons a ops)
  obtain cl lg where st: "st = (cl, lg)" by (cases st)
  show ?case
  proof (cases a)
    case (Connect ip now prune_now push_now)
    then show ?thesis using Cons.IH [of push_now "limiter_step a st"] Cons.prems limiter_inv_step st by fastforce
  next
    case (Sweep now)
    then show ?thesis using Cons.IH [of now "limiter_step a st"] Cons.prems limiter_inv_prune st by fastforce
  qed
qed auto

lemma limiter_new_inv: "limiter_inv 0 m (ConnLimiter_new m, [])"
  by (simp add: limiter_inv_def ConnLimiter_new_def ConnLimiter_with_capacity_limit_def allowed_times_def
      window_of_def)

section \<open>Lemmas on the token bucket\<close>

definition bucket_ok :: "u32 \<Rightarrow> share_rate_limiter \<Rightarrow> bool" where
  "bucket_ok m s \<longleftrightarrow> sr_max_per_sec s = Fin (real (unat m))
     \<and> (\<exists>x. sr_tokens s = Fin x \<and> 0 \<le> x \<and> x \<le> real (unat m))"

lemma bucket_new_ok: "bucket_ok m (ShareRateLimiter_new now m)"
  by (simp add: bucket_ok_def ShareRateLimiter_new_def f64_of_u32 Let_def)


lemma refill_ok:
  assumes "nonneg_f64 e" and "0 \<le> x" and "x \<le> real (unat (m :: u32))"
  shows "\<exists>y. f64_min (f64_add (Fin x) (f64_mul e (Fin (real (unat m))))) (Fin (real (unat m))) = Fin y
     \<and> 0 \<le> y \<and> y \<le> real (unat m)"
proof -
  define p where "p = f64_mul e (Fin (real (unat m)))"
  have "p = NaN \<or> nonneg_f64 p"
    using assms(1) by (elim nonneg_f64_cases) (auto simp: p_def mk_f64_nonneg inf_of_sign_def sgn_if)
  then have "f64_add (Fin x) p = NaN \<or> nonneg_f64 (f64_add (Fin x) p)"
    using assms(2) f64_add_nonneg [of "Fin x" p] by auto
  then show ?thesis
    unfolding p_def [symmetric] by (auto simp: f64_min_def elim: nonneg_f64_cases)
qed

lemma try_consume_ok:
  assumes "bucket_ok m s" and "ShareRateLimiter_try_consume now1 now2 s = (ok, s')"
  shows "bucket_ok m s' \<and> sr_last_refill s' = now2"
proof -
  obtain x where x: "sr_tokens s = Fin x" "0 \<le> x" "x \<le> real (unat m)"
    and m: "sr_max_per_sec s = Fin (real (unat m))"
    using assms(1) by (auto simp: bucket_ok_def)
  define e where "e = as_secs_f64 (now1 - sr_last_refill s)"
  obtain y where y: "f64_min (f64_add (Fin x) (f64_mul e (Fin (real (unat m))))) (Fin (real (unat m))) = Fin y"
    "0 \<le> y" "y \<le> real (unat m)"
    using refill_ok [OF as_secs_nonneg x(2,3), of "now1 - sr_last_refill s"] by (auto simp: e_def)
  have "f64_sub (Fin y) (Fin 1) = Fin (fl (y - 1)) \<and> 0 \<le> fl (y - 1) \<and> fl (y - 1) \<le> real (unat m)" if "1 \<le> y"
  proof -
    have "y - 1 \<le> 2 ^ 200" using y(3) real_u32_le [of m] by simp
    then show ?thesis
      using that y(3) mk_f64_small [of "y - 1"] fl_le_nat [of "y - 1" "unat m"] u32_lt_53 [of m]
      by (simp add: f64_sub_def)
  qed
  then show ?thesis
    using assms(2) y m x(1)
    by (auto simp: ShareRateLimiter_try_consume_def Let_def bucket_ok_def simp flip: e_def split: if_splits)
qed

text \<open>With no time passing between attempts the bucket only drains, one token per success.\<close>

lemma as_secs_zero: "as_secs_f64 0 = Fin 0"
  using mk_f64_small [of 0] by (simp add: as_secs_f64_def)

lemma try_consume_drain:
  assumes "bucket_ok m s" and "sr_tokens s = Fin x" and "x \<le> real k" and "k \<le> unat m"
    and "ShareRateLimiter_try_consume (sr_last_refill s) now2 s = (ok, s')"
  shows "\<exists>x'. sr_tokens s' = Fin x' \<and> x' \<le> real (if ok then k - 1 else k) \<and> (ok \<longrightarrow> 0 < k)"
proof -
  have x: "0 \<le> x" "x \<le> real (unat m)" and m: "sr_max_per_sec s = Fin (real (unat m))"
    using assms(1,2) by (auto simp: bucket_ok_def)
  have k: "k < 2 ^ 53" using assms(4) u32_lt_53 [of m] by simp
  have big: "x \<le> 2 ^ 200" using x real_u32_le [of m] by simp
  define y where "y = fl x"
  have y: "0 \<le> y" "y \<le> real k" using x assms(3) k fl_le_nat by (auto simp: y_def)
  have t: "f64_min (f64_add (Fin x) (f64_mul (Fin 0) (Fin (real (unat m))))) (Fin (real (unat m))) = Fin y"
    using x big mk_f64_small [of x] mk_f64_small [of 0] fl_le_nat [OF x(2) u32_lt_53]
    by (auto simp: f64_min_def y_def)
  have s: "f64_sub (Fin y) (Fin 1) = Fin (fl (y - 1)) \<and> 0 < k \<and> fl (y - 1) \<le> real (k - 1)" if "1 \<le> y"
  proof -
    have "0 < k" using that y(2) by (cases k) auto
    moreover have "y - 1 \<le> real (k - 1)" using y(2) \<open>0 < k\<close> by (simp add: of_nat_diff)
    ultimately show ?thesis
      using that y(2) k assms(4) real_u32_le [of m] mk_f64_small [of "y - 1"] fl_le_nat [of "y - 1" "k - 1"]
      by (simp add: f64_sub_def)
  qed
  have "ShareRateLimiter_try_consume (sr_last_refill s) now2 s =
      (if 1 \<le> y then (True, s\<lparr>sr_tokens := f64_sub (Fin y) (Fin 1), sr_last_refill := now2\<rparr>)
       else (False, s\<lparr>sr_tokens := Fin y, sr_last_refill := now2\<rparr>))"
    unfolding ShareRateLimiter_try_consume_def Let_def diff_self_eq_0 as_secs_zero m assms(2) t by simp
  then show ?thesis using assms(5) y s by (auto split: if_splits)
qed

text \<open>Attempts made at one clock reading, and the number of them that succeed.\<close>

fun consume_at :: "nat \<Rightarrow> nat \<Rightarrow> share_rate_limiter \<Rightarrow> nat \<times> share_rate_limiter" where
  "consume_at t 0 s = (0, s)"
| "consume_at t (Suc n) s =
     (let (ok, s1) = ShareRateLimiter_try_consume t t s; (c, s2) = consume_at t n s1
      in ((if ok then Suc c else c), s2))"

lemma consume_at_bound:
  "bucket_ok m s \<Longrightarrow> sr_last_refill s = t \<Longrightarrow> sr_tokens s = Fin x \<Longrightarrow> x \<le> real k \<Longrightarrow> k \<le> unat m
     \<Longrightarrow> fst (consume_at t n s) \<le> k"
proof (induction n arbitrary: s x k)
  case (Suc n)
  obtain ok s1 where r: "ShareRateLimiter_try_consume t t s = (ok, s1)" by fastforce
  have "bucket_ok m s1 \<and> sr_last_refill s1 = t" using try_consume_ok [OF Suc.prems(1) r] .
  moreover obtain x' where x': "sr_tokens s1 = Fin x'" "x' \<le> real (if ok then k - 1 else k)" "ok \<longrightarrow> 0 < k"
    using try_consume_drain [OF Suc.prems(1,3,4,5)] r Suc.prems(2) by blast
  moreover have "(if ok then k - 1 else k) \<le> unat m" using Suc.prems(5) by auto
  ultimately have "fst (consume_at t n s1) \<le> (if ok then k - 1 else k)" using Suc.IH by blast
  then show ?case using r x'(3) by (auto split: prod.splits if_splits)
qed simp

section \<open>Lemmas on the counters\<close>

text \<open>The counter reports from the \<open>max\<close>-th recorded invalid share on.\<close>

lemma record_invalid_run:
  assumes "ic_max c \<noteq> 0" and "unat (ic_count c) + n < 2 ^ 32"
  shows "unat (ic_count (((\<lambda>c. snd (InvalidShareCounter_record_invalid c)) ^^ n) c)) = unat (ic_count c) + n
     \<and> ic_max (((\<lambda>c. snd (InvalidShareCounter_record_invalid c)) ^^ n) c) = ic_max c"
  using assms(2)
proof (induction n)
  case (Suc n)
  then show ?case using assms(1) by (simp add: InvalidShareCounter_record_invalid_def Let_def unat_word_ariths)
qed simp

lemma record_authorization_run:
  assumes "sg_max_authorizations g \<noteq> 0" and "unat (sg_authorizations g) + n < 2 ^ 32"
  shows "unat (sg_authorizations (((\<lambda>g. snd (SessionGuard_record_new_authorization g)) ^^ n) g))
       = unat (sg_authorizations g) + n
     \<and> sg_max_authorizations (((\<lambda>g. snd (SessionGuard_record_new_authorization g)) ^^ n) g) = sg_max_authorizations g"
  using assms(2)
proof (induction n)
  case (Suc n)
  then show ?case using assms(1) by (simp add: SessionGuard_record_new_authorization_def Let_def unat_word_ariths)
qed simp

section \<open>Bounds on the tracked addresses\<close>

definition limiter_ok :: "nat \<Rightarrow> 'ip conn_limiter \<times> ('ip \<times> nat) list \<Rightarrow> bool" where
  "limiter_ok cap st \<longleftrightarrow> distinct (map fst (cl_windows (fst st))) \<and> length (cl_windows (fst st)) \<le> cap
     \<and> cl_max_tracked (fst st) = cap"

lemma limiter_prune_ok: "limiter_ok cap (cl, lg) \<Longrightarrow> limiter_ok cap (ConnLimiter_prune now cl, lg)"
  by (auto simp: limiter_ok_def ConnLimiter_prune_def distinct_keys_filter split: option.splits
      intro: order_trans [OF length_filter_le])

lemma limiter_update_ok:
  "limiter_ok cap (cl, lg) \<Longrightarrow> map_of (cl_windows cl) ip \<noteq> None \<or> length (cl_windows cl) < cap \<Longrightarrow>
     limiter_ok cap (cl\<lparr>cl_windows := AList.update ip ts (cl_windows cl)\<rparr>, lg')"
  by (auto simp: limiter_ok_def length_AList_update AList.distinct_update)

lemma limiter_step_ok: "limiter_ok cap st \<Longrightarrow> limiter_ok cap (limiter_step a st)"
proof (cases a)
  case (Connect ip now prune_now push_now)
  obtain cl lg where st: "st = (cl, lg)" by (cases st)
  define full where "full \<longleftrightarrow> cl_max_tracked cl \<le> length (cl_windows cl) \<and> map_of (cl_windows cl) ip = None"
  define cl1 where "cl1 = (if full then ConnLimiter_prune prune_now cl else cl)"
  assume ok: "limiter_ok cap st"
  then have ok1: "limiter_ok cap (cl1, lg')" for lg'
    using limiter_prune_ok [of cap cl lg'] by (simp add: cl1_def st limiter_ok_def)
  have c: "cl_max_tracked cl1 = cap" "cl_max_tracked cl = cap" using ok ok1 by (simp_all add: limiter_ok_def st)
  have r: "map_of (cl_windows cl1) ip \<noteq> None \<or> length (cl_windows cl1) < cap"
    if "\<not> (full \<and> cl_max_tracked cl1 \<le> length (cl_windows cl1))"
    using that c by (cases full) (auto simp: cl1_def full_def)
  show ?thesis
    unfolding Connect st limiter_step.simps ConnLimiter_check_and_record_def Let_def
      full_def [symmetric] cl1_def [symmetric]
    using ok1 r limiter_update_ok [OF ok1] by auto
qed (cases st, simp add: limiter_prune_ok)

interpretation conns: bounded_store "limiter_ok MAX_TRACKED_IPS" limiter_step "\<lambda>st. length (cl_windows (fst st))" MAX_TRACKED_IPS
  by (unfold_locales, erule limiter_step_ok, simp add: limiter_ok_def)

lemma ascii_scalar:
  "utf8_valid bs \<Longrightarrow> b \<in> set bs \<Longrightarrow> b < 0x80 \<Longrightarrow> unat b \<in> set (utf8_scalars bs)"
proof (induction bs rule: utf8_scalars.induct)
  case (2 a s)
  define n where "n = utf8_width a - 1"
  have v: "n \<le> length s" "list_all cont_byte (take n s)" "utf8_valid (drop n s)"
    using "2.prems"(1) by (simp_all add: n_def Let_def)
  have "b = a \<or> b \<in> set (take n s) \<or> b \<in> set (drop n s)"
    using "2.prems"(2) by (metis append_take_drop_id Un_iff set_ConsD set_append)
  moreover have "b \<notin> set (take n s)"
    using v(2) "2.prems"(3) by (auto simp: list_all_iff cont_byte_def)
  moreover have "n = 0" if "b = a" using that "2.prems"(3) by (simp add: n_def utf8_width_def)
  moreover have "unat b \<in> set (utf8_scalars (drop n s))" if "b \<in> set (drop n s)"
    using "2.IH" [OF n_def refl v(3) that "2.prems"(3)] .
  moreover have "set (utf8_scalars (drop n s)) \<subseteq> set (utf8_scalars (a # s))"
    by (auto simp: n_def Let_def)
  moreover have "utf8_scalars (a # s) = unat a # utf8_scalars s" if "n = 0"
    using that by (simp add: n_def Let_def)
  ultimately show ?case by fastforce
qed simp

text \<open>The counter after a number of recorded invalid shares.\<close>

definition invalid_recorded :: "nat \<Rightarrow> u32 \<Rightarrow> invalid_share_counter" where
  "invalid_recorded n m = ((\<lambda>c. snd (InvalidShareCounter_record_invalid c)) ^^ n) (InvalidShareCounter_new m)"

section \<open>Properties\<close>

text \<open>
  The connection limiter. Whatever addresses connect and whenever the background task
  sweeps, with a clock that does not go back, no address is allowed more than the configured
  number of connections in any period of sixty seconds.
\<close>

theorem connections_rate_limited:
  assumes "clock_ok 0 ops" and "fold limiter_step ops (ConnLimiter_new m, []) = (cl, lg)"
  shows "\<forall>ip t. length (filter (\<lambda>u. t < u + secs 60 \<and> u \<le> t) (allowed_times lg ip)) \<le> unat m"
  using limiter_run_inv [OF limiter_new_inv assms(1), of m] assms(2) by (simp add: limiter_inv_def)

theorem connections_rate_limited_witness:
  "\<exists>cl lg. fold limiter_step [Connect (1::nat) 5 5 6, Connect 1 7 7 8, Sweep 9] (ConnLimiter_new 1, []) = (cl, lg)
     \<and> allowed_times lg 1 = [6]
     \<and> length (filter (\<lambda>u. 8 < u + secs 60 \<and> u \<le> 8) (allowed_times lg 1)) \<le> 1"
proof -
  let ?ops = "[Connect (1::nat) 5 5 6, Connect 1 7 7 8, Sweep 9]"
  obtain cl lg where r: "fold limiter_step ?ops (ConnLimiter_new 1, []) = (cl, lg)" by fastforce
  have "clock_ok 0 ?ops" by simp
  from connections_rate_limited [OF this r] have
    "length (filter (\<lambda>u. 8 < u + secs 60 \<and> u \<le> 8) (allowed_times lg 1)) \<le> 1" by simp
  moreover have "allowed_times lg 1 = [6]"
    using r by (auto simp: ConnLimiter_new_def ConnLimiter_with_capacity_limit_def
        ConnLimiter_check_and_record_def ConnLimiter_prune_def checked_sub_instant_def secs_def
        MAX_TRACKED_IPS_def allowed_times_def Let_def)
  ultimately show ?thesis using r by blast
qed



text \<open>
  Memory bound. Under any sequence of operations the ban list and the connection limiter
  each track at most 65536 addresses.
\<close>

theorem tracked_addresses_bounded:
  "length (bl_entries (fold ban_step bops (BanList_new d))) \<le> 65536
   \<and> length (cl_windows (fst (fold limiter_step cops (ConnLimiter_new m, [])))) \<le> 65536"
proof -
  have "ban_list_ok MAX_TRACKED_IPS (BanList_new d)"
    by (simp add: ban_list_ok_def BanList_new_def BanList_with_capacity_limit_def MAX_TRACKED_IPS_def)
  moreover have "limiter_ok MAX_TRACKED_IPS (ConnLimiter_new m, [])"
    by (simp add: limiter_ok_def ConnLimiter_new_def ConnLimiter_with_capacity_limit_def)
  ultimately show ?thesis
    using bans.run_bound conns.run_bound unfolding MAX_TRACKED_IPS_def by blast
qed

text \<open>
  The share rate limiter never holds a negative number of tokens or more than one second's
  worth, through any attempt at any clock reading, and of any number of attempts made at one
  clock reading at most the per-second limit succeed.
\<close>

theorem share_burst_bounded:
  assumes "bucket_ok m s"
  shows "bucket_ok m (snd (ShareRateLimiter_try_consume t1 t2 s))
     \<and> fst (consume_at (sr_last_refill s) n s) \<le> unat m"
proof -
  obtain x where "sr_tokens s = Fin x" "x \<le> real (unat m)" using assms by (auto simp: bucket_ok_def)
  then show ?thesis
    using consume_at_bound [OF assms refl] try_consume_ok [OF assms, of t1 t2]
    by (metis order_refl prod.collapse)
qed

theorem share_burst_witness:
  "fst (consume_at 100 5 (ShareRateLimiter_new 100 2)) \<le> 2"
proof -
  have "bucket_ok 2 (ShareRateLimiter_new 100 2)" by (rule bucket_new_ok)
  from share_burst_bounded [OF this, of 0 0 5] show ?thesis
    by (simp add: ShareRateLimiter_new_def Let_def)
qed

text \<open>
  The invalid-share counter asks for a disconnect exactly from the configured number of
  recorded invalid shares on, and never when the limit is zero.
\<close>

theorem invalid_share_disconnect:
  assumes "n + 1 < 2 ^ 32"
  shows "fst (InvalidShareCounter_record_invalid (invalid_recorded n m)) \<longleftrightarrow> m \<noteq> 0 \<and> unat m \<le> n + 1"
proof (cases "m = 0")
  case True
  have "invalid_recorded n 0 = InvalidShareCounter_new 0"
    unfolding invalid_recorded_def
    by (induction n) (simp_all add: InvalidShareCounter_new_def InvalidShareCounter_record_invalid_def)
  then show ?thesis using True by (simp add: InvalidShareCounter_new_def InvalidShareCounter_record_invalid_def)
next
  case False
  then have "unat (ic_count (invalid_recorded n m)) = n" "ic_max (invalid_recorded n m) = m"
    using record_invalid_run [of "InvalidShareCounter_new m" n] assms(1)
    by (simp_all add: invalid_recorded_def InvalidShareCounter_new_def)
  then show ?thesis
    using False assms(1)
    by (simp add: InvalidShareCounter_record_invalid_def Let_def word_le_nat_alt unat_word_ariths)
qed

theorem invalid_share_disconnect_witness:
  "\<not> fst (InvalidShareCounter_record_invalid (InvalidShareCounter_new 2))
   \<and> fst (InvalidShareCounter_record_invalid (snd (InvalidShareCounter_record_invalid (InvalidShareCounter_new 2))))"
  using invalid_share_disconnect [of 0 2] invalid_share_disconnect [of 1 2]
  by (simp add: invalid_recorded_def)

text \<open>
  An accepted worker name is not empty, is at most the configured number of bytes long, and
  contains no control character and no space: no byte below 0x21 and no DEL.
\<close>

theorem worker_name_is_printable:
  assumes "utf8_valid (str_bytes name)" and "validate_worker_name name max_len = Ok ()"
  shows "name \<noteq> [] \<and> length name \<le> max_len
     \<and> (\<forall>b \<in> set (str_bytes name). 0x21 \<le> unat b \<and> unat b \<noteq> 0x7F)"
proof -
  have ok: "name \<noteq> []" "length name \<le> max_len"
    "\<forall>c \<in> set (utf8_scalars (str_bytes name)). \<not> char_is_control c \<and> \<not> char_is_whitespace c"
    using assms(2) by (auto simp: validate_worker_name_def split: if_splits)
  have "0x21 \<le> unat b \<and> unat b \<noteq> 0x7F" if b: "b \<in> set (str_bytes name)" for b
  proof (cases "b < 0x80")
    case True
    then have "\<not> char_is_control (unat b) \<and> \<not> char_is_whitespace (unat b)"
      using ascii_scalar [OF assms(1) b True] ok(3) by blast
    then show ?thesis by (auto simp: char_is_control_def char_is_whitespace_def)
  qed (simp add: word_less_nat_alt)
  then show ?thesis using ok by blast
qed

theorem worker_name_witness:
  "validate_worker_name ''a.b'' 128 = Ok () \<and> list_all (\<lambda>b. 0x21 \<le> unat b) (str_bytes ''a.b'')"
proof -
  have "utf8_valid (str_bytes ''a.b'')" "validate_worker_name ''a.b'' 128 = Ok ()"
    by (simp_all add: validate_worker_name_def str_bytes_def utf8_width_def char_is_control_def
        char_is_whitespace_def Let_def)
  then show ?thesis using worker_name_is_printable [of "''a.b''" 128] by (simp add: list_all_iff)
qed

end
