(* ===== verification/Vardiff.thy ===== *)
theory Vardiff
  imports Config
begin

text \<open>
  \<^verbatim>\<open>src/src/mining/vardiff.rs\<close>: the per-session difficulty controller and its hashrate
  estimate. Instants are nanoseconds; each clock reading of a method is an argument, in
  the order the method takes them. Arithmetic in \<open>f64\<close> is that of \<open>F64\<close>; a \<open>clamp\<close>
  with an inverted range panics. The lemmas show that a validated configuration rules
  the panics out, keep the difficulty inside the configured range under every operation,
  bound one retarget by the configured factor, and give its direction.
\<close>

section \<open>Definitions\<close>

definition SHARE_RETENTION :: nat where
  "SHARE_RETENTION = secs 86400"

definition MIN_OBSERVATION :: nat where
  "MIN_OBSERVATION = secs 30"

definition RETARGET_HYSTERESIS :: f64 where
  "RETARGET_HYSTERESIS = Fin (3 / 2)"

definition RETARGET_WINDOW_SHARES :: u64 where
  "RETARGET_WINDOW_SHARES = 20"

definition FULL_STEP_BEYOND :: f64 where
  "FULL_STEP_BEYOND = Fin 3"

record share_history =
  sh_share_times :: "(nat \<times> u64) list"
  sh_started_at :: nat

record vardiff =
  v_cfg :: vardiff_config
  v_share_times :: "(nat \<times> u64) list"
  v_last_retarget :: nat
  v_current :: u64
  v_previous :: u64
  v_started_at :: nat
  v_suggest_applied :: bool

text \<open>\<open>from_unix_rows\<close>: rows of (unix time, difficulty); an age beyond the clock's origin is skipped.\<close>

definition from_unix_rows :: "nat \<Rightarrow> (u64 \<times> u64) list \<Rightarrow> u64 \<Rightarrow> share_history option" where
  "from_unix_rows now rows now_unix =
     (let share_times = List.map_filter (\<lambda>(ts, diff).
            let age = secs (unat (sat_sub now_unix ts))
            in if age > SHARE_RETENTION then None
               else map_option (\<lambda>instant. (instant, diff)) (checked_sub_instant now age)) rows
      in case share_times of
           [] \<Rightarrow> None
         | (started_at, _) # _ \<Rightarrow> Some \<lparr>sh_share_times = share_times, sh_started_at = started_at\<rparr>)"

definition Vardiff_new :: "nat \<Rightarrow> nat \<Rightarrow> vardiff_config \<Rightarrow> u64 \<Rightarrow> vardiff" where
  "Vardiff_new now1 now2 cfg initial_difficulty =
     \<lparr>v_cfg = cfg, v_share_times = [], v_last_retarget = now1, v_current = initial_difficulty,
      v_previous = initial_difficulty, v_started_at = now2, v_suggest_applied = False\<rparr>"

definition set_current :: "u64 \<Rightarrow> vardiff \<Rightarrow> vardiff" where
  "set_current difficulty v =
     (if difficulty \<noteq> v_current v
      then v\<lparr>v_previous := v_current v, v_current := difficulty\<rparr> else v)"

definition Vardiff_suggest :: "nat \<Rightarrow> u64 \<Rightarrow> vardiff \<Rightarrow> (u64 \<times> vardiff) result" where
  "Vardiff_suggest now difficulty v =
     obind (clamp_u64 (vc_min_difficulty (v_cfg v)) (vc_max_difficulty (v_cfg v)) difficulty) (\<lambda>clamped.
       let v1 = set_current clamped v;
           v2 = (if \<not> v_suggest_applied v1
                 then v1\<lparr>v_suggest_applied := True, v_last_retarget := now\<rparr> else v1)
       in Ok (clamped, v2))"

definition credit_for :: "vardiff \<Rightarrow> u64 \<Rightarrow> u64" where
  "credit_for v hash_difficulty =
     (if hash_difficulty \<ge> v_current v then v_current v
      else if hash_difficulty \<ge> v_previous v then v_previous v
      else vc_min_difficulty (v_cfg v))"

definition record_share :: "nat \<Rightarrow> u64 \<Rightarrow> vardiff \<Rightarrow> vardiff" where
  "record_share now assigned_difficulty v =
     v\<lparr>v_share_times := dropWhile (\<lambda>(t, _). now - t > SHARE_RETENTION)
         (v_share_times v @ [(now, assigned_difficulty)])\<rparr>"

definition take_share_history :: "nat \<Rightarrow> vardiff \<Rightarrow> share_history \<times> vardiff" where
  "take_share_history now v =
     (\<lparr>sh_share_times = v_share_times v, sh_started_at = v_started_at v\<rparr>,
      v\<lparr>v_share_times := [], v_started_at := now\<rparr>)"

definition restore_share_history :: "nat \<Rightarrow> share_history \<Rightarrow> vardiff \<Rightarrow> vardiff" where
  "restore_share_history now history v =
     (let merged = filter (\<lambda>(t, _). now - t \<le> SHARE_RETENTION) (sh_share_times history)
      in v\<lparr>v_share_times := merged @ v_share_times v,
           v_started_at := min (v_started_at v) (sh_started_at history)\<rparr>)"

definition retarget_interval :: "vardiff \<Rightarrow> nat" where
  "retarget_interval v = secs (unat (vc_retarget_interval_secs (v_cfg v)))"

definition retarget_due :: "vardiff \<Rightarrow> nat" where
  "retarget_due v = v_last_retarget v + retarget_interval v"

definition work_in_window :: "nat \<Rightarrow> nat \<Rightarrow> vardiff \<Rightarrow> u64 \<times> nat" where
  "work_in_window now window v =
     (foldl (\<lambda>sum (_, diff). sat_add sum diff) 0
        (filter (\<lambda>(ts, _). now - ts \<le> window) (v_share_times v)),
      min (now - v_started_at v) window)"

text \<open>\<open>(1.0 / bound ..= bound).contains(&ratio)\<close>\<close>

definition within_ratio :: "f64 \<Rightarrow> f64 \<Rightarrow> bool" where
  "within_ratio bound ratio \<longleftrightarrow> f64_le (f64_div (Fin 1) bound) ratio \<and> f64_le ratio bound"

definition retarget_step :: "f64 \<Rightarrow> f64" where
  "retarget_step ratio = (if within_ratio FULL_STEP_BEYOND ratio then f64_sqrt ratio else ratio)"

definition retarget_ratio :: "vardiff \<Rightarrow> u64 \<Rightarrow> f64 \<Rightarrow> f64" where
  "retarget_ratio v work observed =
     (let target_sps = f64_of_u64 (vc_target_share_time_secs (v_cfg v));
          proven = (if work = 0 then f64_of_u64 (v_current v) else f64_of_u64 work);
          ideal = f64_div (f64_mul proven target_sps) observed
      in f64_div ideal (f64_of_u64 (v_current v)))"

definition retarget_to :: "vardiff \<Rightarrow> f64 \<Rightarrow> u64 result" where
  "retarget_to v ratio =
     (let factor = vc_max_retarget_factor (v_cfg v)
      in obind (f64_clamp (f64_div (Fin 1) factor) factor (retarget_step ratio)) (\<lambda>step.
           let new_diff_f = f64_mul (f64_of_u64 (v_current v)) step
           in clamp_u64 (vc_min_difficulty (v_cfg v)) (vc_max_difficulty (v_cfg v))
                (f64_to_u64 (f64_round new_diff_f))))"

definition check_retarget :: "nat \<Rightarrow> nat \<Rightarrow> nat \<Rightarrow> vardiff \<Rightarrow> (u64 option \<times> vardiff) result" where
  "check_retarget now1 now2 now3 v =
     (if now1 - v_last_retarget v < retarget_interval v then Ok (None, v)
      else
        let v1 = v\<lparr>v_last_retarget := now2\<rparr>;
            lookback = max (secs (unat (sat_mul (vc_target_share_time_secs (v_cfg v1))
                              RETARGET_WINDOW_SHARES)))
                         (retarget_interval v1);
            (work, observed_ns) = work_in_window now3 lookback v1;
            observed = as_secs_f64 observed_ns
        in if f64_le observed (Fin 0) then Ok (None, v1)
           else
             let ratio = retarget_ratio v1 work observed
             in if within_ratio RETARGET_HYSTERESIS ratio then Ok (None, v1)
                else obind (retarget_to v1 ratio) (\<lambda>new_diff.
                  if new_diff = v_current v1 then Ok (None, v1)
                  else Ok (Some new_diff, set_current new_diff v1)))"

definition estimated_hashrate_in_window :: "nat \<Rightarrow> nat \<Rightarrow> vardiff \<Rightarrow> f64" where
  "estimated_hashrate_in_window now window v =
     (let (sum_diff, observed) = work_in_window now window v
      in if observed < min MIN_OBSERVATION window then Fin 0
         else if sum_diff = 0 then Fin 0
         else f64_div (f64_mul (f64_of_u64 sum_diff) (Fin 4294967296)) (as_secs_f64 observed))"

section \<open>Lemmas\<close>

lemma inverse_factor:
  assumes "1 \<le> x"
  shows "f64_div (Fin 1) (Fin x) = Fin (fl (1 / x)) \<and> 0 \<le> fl (1 / x) \<and> fl (1 / x) \<le> 1"
proof -
  have "1 / x \<le> 1" using assms by simp
  then have "fl (1 / x) \<le> 1" using fl_mono [of "1 / x" 1] by simp
  moreover have "1 / x \<le> 2 ^ 200" using \<open>1 / x \<le> 1\<close> by (rule order_trans) simp
  then have "mk_f64 (1 / x) = Fin (fl (1 / x))" using assms by (intro mk_f64_small) simp_all
  ultimately show ?thesis using assms by simp
qed

lemma retarget_to_total:
  assumes "vardiff_config_ok (v_cfg v)"
  shows "\<exists>d. retarget_to v ratio = Ok d \<and> vc_min_difficulty (v_cfg v) \<le> d \<and> d \<le> vc_max_difficulty (v_cfg v)"
proof -
  obtain x where x: "vc_max_retarget_factor (v_cfg v) = Fin x" "1 \<le> x"
    and r: "vc_min_difficulty (v_cfg v) \<le> vc_max_difficulty (v_cfg v)"
    using assms by (auto simp: vardiff_config_ok_def)
  have "\<exists>step. f64_clamp (f64_div (Fin 1) (Fin x)) (Fin x) (retarget_step ratio) = (Ok step :: f64 result)"
    using inverse_factor [OF x(2)] x(2) by (simp add: f64_clamp_def)
  then show ?thesis
    using clamp_u64_total [OF r] x by (auto simp: retarget_to_def Let_def)
qed

lemma set_current_fields [simp]:
  "v_current (set_current d v) = d" "v_cfg (set_current d v) = v_cfg v"
  "v_last_retarget (set_current d v) = v_last_retarget v"
  "v_suggest_applied (set_current d v) = v_suggest_applied v"
  "v_share_times (set_current d v) = v_share_times v" "v_started_at (set_current d v) = v_started_at v"
  by (simp_all add: set_current_def)

lemma check_retarget_cases:
  assumes "vardiff_config_ok (v_cfg v)"
  obtains (early) "now1 < retarget_due v" "check_retarget now1 now2 now3 v = Ok (None, v)"
  | (same) "retarget_due v \<le> now1" "check_retarget now1 now2 now3 v = Ok (None, v\<lparr>v_last_retarget := now2\<rparr>)"
  | (changed) d ratio where "retarget_due v \<le> now1" "retarget_to (v\<lparr>v_last_retarget := now2\<rparr>) ratio = Ok d"
      "\<not> within_ratio RETARGET_HYSTERESIS ratio" "d \<noteq> v_current v"
      "check_retarget now1 now2 now3 v = Ok (Some d, set_current d (v\<lparr>v_last_retarget := now2\<rparr>))"
proof -
  let ?v1 = "v\<lparr>v_last_retarget := now2\<rparr>"
  have ok1: "vardiff_config_ok (v_cfg ?v1)" using assms by simp
  have i: "0 < retarget_interval v"
    using assms by (auto simp: vardiff_config_ok_def retarget_interval_def secs_def word_le_nat_alt)
  show thesis
  proof (cases "now1 < retarget_due v")
    case True
    then have "now1 - v_last_retarget v < retarget_interval v"
      using i by (auto simp: retarget_due_def)
    then show thesis using early True by (simp add: check_retarget_def)
  next
    case False
    then have ge: "\<not> now1 - v_last_retarget v < retarget_interval v" by (simp add: retarget_due_def)
    obtain work ob where w: "work_in_window now3 (max (secs (unat (sat_mul (vc_target_share_time_secs (v_cfg v)) RETARGET_WINDOW_SHARES)))
        (retarget_interval ?v1)) ?v1 = (work, ob)" by fastforce
    define ratio where "ratio = retarget_ratio ?v1 work (as_secs_f64 ob)"
    obtain d where d: "retarget_to ?v1 ratio = Ok d" using retarget_to_total [OF ok1] by blast
    have eq: "check_retarget now1 now2 now3 v =
        (if f64_le (as_secs_f64 ob) (Fin 0) then Ok (None, ?v1)
         else if within_ratio RETARGET_HYSTERESIS ratio then Ok (None, ?v1)
         else if d = v_current v then Ok (None, ?v1) else Ok (Some d, set_current d ?v1))"
      using ge w d by (simp add: check_retarget_def ratio_def)
    show thesis
      using False eq d same changed [of ratio d] by (auto split: if_splits)
  qed
qed

definition vardiff_ok :: "vardiff \<Rightarrow> bool" where
  "vardiff_ok v \<longleftrightarrow> vardiff_config_ok (v_cfg v)
     \<and> vc_min_difficulty (v_cfg v) \<le> v_current v \<and> v_current v \<le> vc_max_difficulty (v_cfg v)"

lemma check_retarget_ok:
  assumes "vardiff_ok v"
  shows "\<exists>r v'. check_retarget now1 now2 now3 v = Ok (r, v') \<and> vardiff_ok v' \<and> v_cfg v' = v_cfg v"
proof -
  have cfg: "vardiff_config_ok (v_cfg v)" using assms by (simp add: vardiff_ok_def)
  show ?thesis
  proof (rule check_retarget_cases [OF cfg, of now1 now2 now3], goal_cases)
    case (3 d ratio)
    then show ?thesis
      using retarget_to_total [of "v\<lparr>v_last_retarget := now2\<rparr>" ratio] cfg by (auto simp: vardiff_ok_def)
  qed (use assms in \<open>auto simp: vardiff_ok_def\<close>)
qed

lemma suggest_ok:
  assumes "vardiff_config_ok (v_cfg v)"
  shows "\<exists>c v'. Vardiff_suggest now d v = Ok (c, v') \<and> vardiff_ok v' \<and> v_cfg v' = v_cfg v
     \<and> v_current v' = c \<and> v_suggest_applied v'
     \<and> v_last_retarget v' = (if v_suggest_applied v then v_last_retarget v else now)"
proof -
  have r: "vc_min_difficulty (v_cfg v) \<le> vc_max_difficulty (v_cfg v)"
    using assms by (simp add: vardiff_config_ok_def)
  obtain c where "clamp_u64 (vc_min_difficulty (v_cfg v)) (vc_max_difficulty (v_cfg v)) d = (Ok c :: u64 result)"
    "vc_min_difficulty (v_cfg v) \<le> c" "c \<le> vc_max_difficulty (v_cfg v)"
    using clamp_u64_total [OF r] by blast
  then show ?thesis using assms by (simp add: Vardiff_suggest_def Let_def vardiff_ok_def)
qed

text \<open>The operations a session performs on its controller.\<close>

datatype vardiff_op =
    Suggest nat u64
  | Retarget nat nat nat
  | RecordShare nat u64
  | TakeHistory nat
  | RestoreHistory nat share_history

fun vardiff_step :: "vardiff_op \<Rightarrow> vardiff \<Rightarrow> vardiff" where
  "vardiff_step (Suggest now d) v = (case Vardiff_suggest now d v of Ok (_, v') \<Rightarrow> v' | _ \<Rightarrow> v)"
| "vardiff_step (Retarget now1 now2 now3) v =
     (case check_retarget now1 now2 now3 v of Ok (_, v') \<Rightarrow> v' | _ \<Rightarrow> v)"
| "vardiff_step (RecordShare now d) v = record_share now d v"
| "vardiff_step (TakeHistory now) v = snd (take_share_history now v)"
| "vardiff_step (RestoreHistory now h) v = restore_share_history now h v"

lemma vardiff_step_ok: "vardiff_ok v \<Longrightarrow> vardiff_ok (vardiff_step a v) \<and> v_cfg (vardiff_step a v) = v_cfg v"
proof (cases a)
  case (Suggest now d)
  assume "vardiff_ok v"
  then show ?thesis using suggest_ok [of v now d] Suggest by (auto simp: vardiff_ok_def)
next
  case (Retarget now1 now2 now3)
  assume "vardiff_ok v"
  then show ?thesis using check_retarget_ok [of v now1 now2 now3] Retarget by auto
qed (auto simp: vardiff_ok_def record_share_def take_share_history_def restore_share_history_def Let_def)

interpretation controller: preserved "\<lambda>v. vardiff_ok v \<and> v_cfg v = cfg" vardiff_step for cfg
  by unfold_locales (use vardiff_step_ok in blast)


lemma real_u64_le: "real (unat (m :: u64)) \<le> 2 ^ 64"
proof -
  have "unat m \<le> 2 ^ 64" using unat_lt [of m] by simp
  then have "real (unat m) \<le> real (2 ^ 64)" by (simp only: of_nat_le_iff)
  then show ?thesis by simp
qed

lemma f64_of_u64_fin: "f64_of_u64 (m :: u64) = Fin (fl (real (unat m)))"
  using mk_f64_small [of "real (unat m)"] real_u64_le [of m] by (simp add: f64_of_u64_def)

text \<open>Rounding a product to an integer difficulty is monotone.\<close>

definition to_difficulty :: "real \<Rightarrow> u64" where
  "to_difficulty y = f64_to_u64 (f64_round (mk_f64 y))"

lemma unat_to_u64_int:
  "0 \<le> n \<Longrightarrow> unat (f64_to_u64 (Fin (of_int n))) = min (nat n) (2 ^ 64 - 1)"
proof -
  assume n: "0 \<le> n"
  consider "n = 0" | "0 < n" "n < 2 ^ 64" | "2 ^ 64 \<le> n" using n by linarith
  then show ?thesis
  proof cases
    case 2
    have "\<not> (2::real) ^ 64 \<le> of_int n" using 2(2) by (simp add: not_le)
    then have "f64_to_u64 (Fin (of_int n)) = of_nat (nat n)" using 2 by simp
    moreover have "nat n < 2 ^ 64" using 2 by (simp add: nat_less_iff)
    ultimately show ?thesis by (simp add: unat_of_nat)
  next
    case 3
    have "(2::real) ^ 64 \<le> of_int n" using 3 by (metis of_int_le_iff of_int_numeral of_int_power)
    moreover have "2 ^ 64 \<le> nat n" using 3 by simp
    ultimately show ?thesis using 3 by (simp add: unat_max_word)
  qed simp
qed

lemma to_difficulty_fin:
  assumes "0 \<le> y"
  shows "mk_f64 y = Inf \<and> to_difficulty y = - 1
     \<or> mk_f64 y = Fin (fl y) \<and> unat (to_difficulty y) = min (nat \<lfloor>fl y + 1 / 2\<rfloor>) (2 ^ 64 - 1)"
proof -
  have f: "0 \<le> fl y" using assms by simp
  then have "mk_f64 y = Inf \<or> mk_f64 y = Fin (fl y)"
    using mk_f64_nonneg [OF assms] by (auto simp: mk_f64_def Let_def nonneg_f64_def split: if_splits)
  then show ?thesis
    using f unat_to_u64_int [of "\<lfloor>fl y + 1 / 2\<rfloor>"] by (auto simp: to_difficulty_def)
qed

lemma to_difficulty_mono:
  assumes "0 \<le> x" "x \<le> y"
  shows "to_difficulty x \<le> to_difficulty y"
proof -
  have le: "fl x \<le> fl y" using assms(2) by (rule fl_mono)
  then have "mk_f64 x = Inf \<Longrightarrow> mk_f64 y = Inf"
    by (auto simp: mk_f64_def Let_def split: if_splits)
  moreover have "nat \<lfloor>fl x + 1 / 2\<rfloor> \<le> nat \<lfloor>fl y + 1 / 2\<rfloor>" using le by (intro nat_mono floor_mono) simp
  ultimately show ?thesis
    using to_difficulty_fin [of x] to_difficulty_fin [of y] assms
    by (auto simp: word_le_nat_alt min_def unat_max_word split: if_splits)
qed

lemma to_difficulty_nat: "n < 2 ^ 53 \<Longrightarrow> unat (to_difficulty (real n)) = n"
  using to_difficulty_fin [of "real n"] mk_f64_small [of "real n"] by (auto simp: min_def)


lemma retarget_step_clamped:
  assumes "f64_clamp (Fin lo) (Fin hi) s = (Ok t :: f64 result)"
  shows "t = NaN \<and> s = NaN \<or> (\<exists>r. t = Fin r \<and> lo \<le> r \<and> r \<le> hi)"
  using assms by (cases s) (auto simp: f64_clamp_def split: if_splits)

lemma retarget_to_clamped:
  assumes "vc_max_retarget_factor (v_cfg v) = Fin x" and "1 \<le> x" and "retarget_to v ratio = Ok d"
  defines "c \<equiv> fl (real (unat (v_current v)))"
  shows "\<exists>u. clamp_u64 (vc_min_difficulty (v_cfg v)) (vc_max_difficulty (v_cfg v)) u = (Ok d :: u64 result)
     \<and> (u = 0 \<and> retarget_step ratio = NaN
        \<or> (\<exists>r. f64_clamp (Fin (fl (1 / x))) (Fin x) (retarget_step ratio) = (Ok (Fin r) :: f64 result)
             \<and> fl (1 / x) \<le> r \<and> r \<le> x \<and> u = to_difficulty (c * r)))"
proof -
  obtain t where t: "f64_clamp (Fin (fl (1 / x))) (Fin x) (retarget_step ratio) = (Ok t :: f64 result)"
    and d: "clamp_u64 (vc_min_difficulty (v_cfg v)) (vc_max_difficulty (v_cfg v))
        (f64_to_u64 (f64_round (f64_mul (f64_of_u64 (v_current v)) t))) = (Ok d :: u64 result)"
    using assms(1,3) inverse_factor [OF assms(2)] by (auto simp: retarget_to_def Let_def)
  show ?thesis
    using retarget_step_clamped [OF t] t d
    by (intro exI [of _ "f64_to_u64 (f64_round (f64_mul (f64_of_u64 (v_current v)) t))"])
      (auto simp: f64_of_u64_fin to_difficulty_def c_def)
qed

lemma clamp_le_max: "clamp_u64 lo hi u = Ok d \<Longrightarrow> d \<le> max lo u"
  by (auto simp: clamp_u64_def max_def split: if_splits)

lemma clamp_ge: "clamp_u64 lo hi u = Ok d \<Longrightarrow> k \<le> u \<Longrightarrow> k \<le> hi \<Longrightarrow> k \<le> d"
  by (auto simp: clamp_u64_def split: if_splits)

lemma clamp_le: "clamp_u64 lo hi u = Ok d \<Longrightarrow> u \<le> k \<Longrightarrow> lo \<le> k \<Longrightarrow> d \<le> k"
  by (auto simp: clamp_u64_def split: if_splits)

lemma f64_sqrt_ge_1: "1 \<le> r \<Longrightarrow> f64_le (Fin 1) (f64_sqrt (Fin r))"
proof -
  assume r: "1 \<le> r"
  then have "1 \<le> fl (sqrt r)" using fl_mono [of 1 "sqrt r"] by simp
  then show ?thesis using r by (auto simp: mk_f64_def Let_def)
qed

lemma f64_sqrt_le_1: "0 \<le> r \<Longrightarrow> r \<le> 1 \<Longrightarrow> \<exists>y. f64_sqrt (Fin r) = Fin y \<and> y \<le> 1"
proof -
  assume r: "0 \<le> r" "r \<le> 1"
  then have "sqrt r \<le> 1" by simp
  moreover from this have "sqrt r \<le> 2 ^ 200" by (rule order_trans) simp
  ultimately show ?thesis
    using r fl_mono [of "sqrt r" 1] mk_f64_small [of "sqrt r"] by simp
qed

lemma retarget_step_up: "f64_le (Fin 1) ratio \<Longrightarrow> f64_le (Fin 1) (retarget_step ratio)"
  by (cases ratio) (auto simp: retarget_step_def f64_sqrt_ge_1 simp del: f64_sqrt.simps(1))

lemma retarget_step_down:
  "ratio = Fin r \<Longrightarrow> 0 \<le> r \<Longrightarrow> r \<le> 1 \<Longrightarrow> \<exists>y. retarget_step ratio = Fin y \<and> y \<le> 1"
  using f64_sqrt_le_1 [of r] by (auto simp: retarget_step_def simp del: f64_sqrt.simps(1))

lemma clamp_up:
  assumes "f64_le (Fin 1) s" and "1 \<le> x" and "l \<le> 1" and "f64_clamp (Fin l) (Fin x) s = (Ok (Fin r) :: f64 result)"
  shows "1 \<le> r"
  using assms by (cases s) (auto simp: f64_clamp_def split: if_splits)

lemma clamp_down:
  assumes "y \<le> 1" and "1 \<le> x" and "l \<le> 1" and "f64_clamp (Fin l) (Fin x) (Fin y) = (Ok (Fin r) :: f64 result)"
  shows "r \<le> 1"
  using assms by (auto simp: f64_clamp_def split: if_splits)

lemma fl_u64_nat: "unat (w :: u64) < 2 ^ 53 \<Longrightarrow> to_difficulty (fl (real (unat w))) = w"
  using to_difficulty_nat [of "unat w"] by (simp add: word_unat_eq_iff)

lemma retarget_to_up:
  assumes "vardiff_ok v" and "f64_le (Fin 1) ratio" and "retarget_to v ratio = Ok d"
    and "unat (v_current v) < 2 ^ 53"
  shows "v_current v \<le> d"
proof -
  obtain x where x: "vc_max_retarget_factor (v_cfg v) = Fin x" "1 \<le> x"
    using assms(1) by (auto simp: vardiff_ok_def vardiff_config_ok_def)
  note f = inverse_factor [OF x(2)]
  obtain u where u: "clamp_u64 (vc_min_difficulty (v_cfg v)) (vc_max_difficulty (v_cfg v)) u = (Ok d :: u64 result)"
    and "u = 0 \<and> retarget_step ratio = NaN
        \<or> (\<exists>r. f64_clamp (Fin (fl (1 / x))) (Fin x) (retarget_step ratio) = (Ok (Fin r) :: f64 result)
             \<and> u = to_difficulty (fl (real (unat (v_current v))) * r))"
    using retarget_to_clamped [OF x assms(3)] by blast
  then obtain r where r: "f64_clamp (Fin (fl (1 / x))) (Fin x) (retarget_step ratio) = (Ok (Fin r) :: f64 result)"
    "u = to_difficulty (fl (real (unat (v_current v))) * r)"
    using retarget_step_up [OF assms(2)] by auto
  have "1 \<le> r" using clamp_up [OF retarget_step_up [OF assms(2)] x(2) _ r(1)] f by simp
  then have "fl (real (unat (v_current v))) \<le> fl (real (unat (v_current v))) * r"
    using mult_left_mono [of 1 r "fl (real (unat (v_current v)))"] by simp
  then have "v_current v \<le> u"
    using to_difficulty_mono [of "fl (real (unat (v_current v)))"] fl_u64_nat [OF assms(4)] r(2) by simp
  then show ?thesis using clamp_ge [OF u] assms(1) by (simp add: vardiff_ok_def)
qed

lemma retarget_to_down:
  assumes "vardiff_ok v" and "ratio = Fin q" "0 \<le> q" "q \<le> 1" and "retarget_to v ratio = Ok d"
    and "unat (v_current v) < 2 ^ 53"
  shows "d \<le> v_current v"
proof -
  obtain x where x: "vc_max_retarget_factor (v_cfg v) = Fin x" "1 \<le> x"
    using assms(1) by (auto simp: vardiff_ok_def vardiff_config_ok_def)
  note f = inverse_factor [OF x(2)]
  obtain y where y: "retarget_step ratio = Fin y" "y \<le> 1" using retarget_step_down [OF assms(2-4)] by blast
  obtain u r where u: "clamp_u64 (vc_min_difficulty (v_cfg v)) (vc_max_difficulty (v_cfg v)) u = (Ok d :: u64 result)"
    and r: "f64_clamp (Fin (fl (1 / x))) (Fin x) (Fin y) = (Ok (Fin r) :: f64 result)" "fl (1 / x) \<le> r"
      "u = to_difficulty (fl (real (unat (v_current v))) * r)"
    using retarget_to_clamped [OF x assms(5)] y by auto
  have "r \<le> 1" using clamp_down [OF y(2) x(2) _ r(1)] f by simp
  moreover have "0 \<le> r" using f r(2) by linarith
  ultimately have "fl (real (unat (v_current v))) * r \<le> fl (real (unat (v_current v)))" "0 \<le> fl (real (unat (v_current v))) * r"
    by (simp_all add: mult_left_le)
  then have "u \<le> v_current v"
    using to_difficulty_mono fl_u64_nat [OF assms(6)] r(3) by metis
  then show ?thesis using clamp_le [OF u] assms(1) by (simp add: vardiff_ok_def)
qed


text \<open>The observed share rate over the target one, as a retarget judges it.\<close>

definition observed_ratio :: "nat \<Rightarrow> vardiff \<Rightarrow> f64" where
  "observed_ratio now v =
     (let lookback = max (secs (unat (sat_mul (vc_target_share_time_secs (v_cfg v)) RETARGET_WINDOW_SHARES)))
            (retarget_interval v);
          (work, observed) = work_in_window now lookback v
      in retarget_ratio v work (as_secs_f64 observed))"

lemma check_retarget_changed:
  assumes "check_retarget now1 now2 now3 v = Ok (Some d, v')"
  shows "retarget_to v (observed_ratio now3 v) = Ok d \<and> d \<noteq> v_current v
     \<and> \<not> within_ratio RETARGET_HYSTERESIS (observed_ratio now3 v)
     \<and> v_current v' = d \<and> v_previous v' = v_current v \<and> v_last_retarget v' = now2"
proof -
  let ?v1 = "v\<lparr>v_last_retarget := now2\<rparr>"
  have same: "retarget_to ?v1 r = retarget_to v r" "retarget_ratio ?v1 w ob = retarget_ratio v w ob"
    "work_in_window now3 l ?v1 = work_in_window now3 l v" "retarget_interval ?v1 = retarget_interval v" for r w ob l
    by (simp_all add: retarget_to_def retarget_ratio_def work_in_window_def retarget_interval_def)
  show ?thesis
    using assms unfolding check_retarget_def Let_def same
    by (auto simp: observed_ratio_def set_current_def split: if_splits prod.splits)
qed

lemma f64_div_nonneg:
  assumes "nonneg_f64 a" and "0 < b"
  shows "nonneg_f64 (f64_div a (Fin b))"
  using assms by (elim nonneg_f64_cases) (simp_all add: mk_f64_nonneg inf_of_sign_def)

lemma retarget_ratio_nonneg:
  assumes "1 \<le> v_current v" and "nonneg_f64 ob" and "\<not> f64_le ob (Fin 0)"
  shows "nonneg_f64 (retarget_ratio v work ob)"
proof -
  define c where "c = fl (real (unat (v_current v)))"
  have "1 \<le> unat (v_current v)" using assms(1) by (simp add: word_le_nat_alt)
  then have "1 \<le> c" using fl_mono [of 1 "real (unat (v_current v))"] by (simp add: c_def)
  have u: "0 \<le> fl (real (unat w)) \<and> fl (real (unat w)) \<le> 2 ^ 64" for w :: u64
    using fl_mono [OF real_u64_le, of w] by (simp only: fl_power2) simp
  have "\<exists>r \<ge> 0. f64_mul (f64_of_u64 a) (f64_of_u64 b) = Fin r" for a b :: u64
  proof -
    let ?x = "fl (real (unat a))" and ?y = "fl (real (unat b))"
    have "?x * ?y \<le> 2 ^ 64 * 2 ^ 64" using u [of a] u [of b] by (intro mult_mono) auto
    also have "\<dots> \<le> (2::real) ^ 200" by simp
    finally have "mk_f64 (?x * ?y) = Fin (fl (?x * ?y))" using u by (intro mk_f64_small) auto
    then show ?thesis using u by (simp add: f64_of_u64_fin)
  qed
  then obtain r where r: "0 \<le> r" "f64_mul (if work = 0 then f64_of_u64 (v_current v) else f64_of_u64 work)
      (f64_of_u64 (vc_target_share_time_secs (v_cfg v))) = Fin r"
    by (cases "work = 0") force+
  have "nonneg_f64 (f64_div (Fin r) ob)"
    using assms(2,3) r(1) by (elim nonneg_f64_cases) (auto simp: mk_f64_nonneg)
  then have "nonneg_f64 (f64_div (f64_div (Fin r) ob) (Fin c))"
    using \<open>1 \<le> c\<close> by (intro f64_div_nonneg) simp_all
  then show ?thesis unfolding retarget_ratio_def Let_def r(2) by (simp add: f64_of_u64_fin c_def)
qed

lemma check_retarget_observed:
  assumes "check_retarget now1 now2 now3 v = Ok (Some d, v')" and "1 \<le> v_current v"
  shows "nonneg_f64 (observed_ratio now3 v)"
proof -
  let ?v1 = "v\<lparr>v_last_retarget := now2\<rparr>"
  have same: "work_in_window now3 l ?v1 = work_in_window now3 l v" "retarget_interval ?v1 = retarget_interval v" for l
    by (simp_all add: work_in_window_def retarget_interval_def)
  obtain work ob where w: "work_in_window now3 (max (secs (unat (sat_mul (vc_target_share_time_secs (v_cfg v)) RETARGET_WINDOW_SHARES)))
        (retarget_interval v)) v = (work, ob)" by fastforce
  have "\<not> f64_le (as_secs_f64 ob) (Fin 0)"
    using assms(1) w unfolding check_retarget_def Let_def same by (auto split: if_splits)
  then show ?thesis
    using retarget_ratio_nonneg [OF assms(2) as_secs_nonneg] w by (simp add: observed_ratio_def)
qed

section \<open>Properties\<close>


definition sample_vardiff_config :: vardiff_config where
  "sample_vardiff_config = \<lparr>vc_target_share_time_secs = 15, vc_retarget_interval_secs = 90,
     vc_min_difficulty = 1000, vc_max_difficulty = 1000000, vc_max_retarget_factor = Fin 4\<rparr>"

lemma sample_vardiff_ok: "vardiff_ok (Vardiff_new 0 0 sample_vardiff_config 2000)"
  by (simp add: vardiff_ok_def vardiff_config_ok_def sample_vardiff_config_def Vardiff_new_def)




lemma mk_f64_nat [simp]: "n < 2 ^ 53 \<Longrightarrow> mk_f64 (real n) = Fin (real n)"
  using mk_f64_small [of "real n"] by simp

lemma mk_f64_numeral [simp]: "(numeral k :: nat) < 2 ^ 53 \<Longrightarrow> mk_f64 (numeral k) = Fin (numeral k)"
  using mk_f64_nat [of "numeral k"] by simp

lemma mk_f64_0 [simp]: "mk_f64 0 = Fin 0"
  using mk_f64_nat [of 0] by simp

lemma as_secs_whole: "n < 2 ^ 53 \<Longrightarrow> as_secs_f64 (secs n) = Fin (real n)"
  by (simp add: as_secs_f64_def secs_def)

definition sample_busy :: vardiff where
  "sample_busy = record_share (secs 200) 160000 (Vardiff_new 0 0 sample_vardiff_config 2000)"

lemma sample_busy_fields:
  "v_cfg sample_busy = sample_vardiff_config" "v_share_times sample_busy = [(secs 200, 160000)]"
  "v_current sample_busy = 2000" "v_started_at sample_busy = 0" "v_last_retarget sample_busy = 0"
  by (simp_all add: sample_busy_def record_share_def Vardiff_new_def SHARE_RETENTION_def)

lemma sample_retarget:
  "check_retarget (secs 300) (secs 300) (secs 300) sample_busy
     = Ok (Some 8000, set_current 8000 (sample_busy\<lparr>v_last_retarget := secs 300\<rparr>))"
proof -
  let ?v1 = "sample_busy\<lparr>v_last_retarget := secs 300\<rparr>"
  have i: "retarget_interval sample_busy = secs 90" "retarget_interval ?v1 = secs 90"
    by (simp_all add: retarget_interval_def sample_busy_fields sample_vardiff_config_def)
  have sm: "sat_mul (15 :: u64) RETARGET_WINDOW_SHARES = 300"
    by (simp add: sat_mul_def RETARGET_WINDOW_SHARES_def)
  have w: "work_in_window (secs 300) (max (secs (unat (sat_mul (15 :: u64) RETARGET_WINDOW_SHARES))) (secs 90)) ?v1
      = (160000, secs 300)"
    by (simp add: work_in_window_def sm sample_busy_fields secs_def sat_add_def)
  have r: "retarget_ratio ?v1 160000 (Fin 300) = Fin 4"
    by (simp add: retarget_ratio_def sample_busy_fields sample_vardiff_config_def f64_of_u64_def Let_def)
  have f: "f64_div (Fin 1) (Fin 4) = Fin (fl (1 / 4))" "fl (1 / 4) \<le> 1" using inverse_factor [of 4] by simp_all
  have t: "retarget_to ?v1 (Fin 4) = Ok 8000"
    using f by (simp add: retarget_to_def sample_busy_fields sample_vardiff_config_def f64_of_u64_def Let_def
        retarget_step_def within_ratio_def FULL_STEP_BEYOND_def f64_clamp_def clamp_u64_def)
  have s300: "as_secs_f64 (secs 300) = Fin 300" using as_secs_whole [of 300] by simp
  show ?thesis
    unfolding check_retarget_def i Let_def
    by (simp add: sample_busy_fields sample_vardiff_config_def w s300 r t within_ratio_def RETARGET_HYSTERESIS_def i)
      (simp add: secs_def)
qed


text \<open>
  Suggestions cannot hold off retargeting. Once one suggestion has been applied, any number
  of further suggestions leaves the time of the next retarget unchanged, while each still sets
  the difficulty to the suggested value clamped to the configured range.
\<close>

theorem suggestions_do_not_postpone_retarget:
  assumes "vardiff_ok v" and "v_suggest_applied v"
  shows "retarget_due (fold (\<lambda>(now, d). vardiff_step (Suggest now d)) ss v) = retarget_due v"
  using assms
proof (induction ss arbitrary: v)
  case (Cons a ss)
  obtain now d where a: "a = (now, d)" by (cases a)
  obtain c v' where s: "Vardiff_suggest now d v = Ok (c, v')" "vardiff_ok v'" "v_cfg v' = v_cfg v"
    "v_suggest_applied v'" "v_last_retarget v' = v_last_retarget v"
    using suggest_ok [of v now d] Cons.prems by (auto simp: vardiff_ok_def)
  then have "retarget_due v' = retarget_due v" by (simp add: retarget_due_def retarget_interval_def)
  then show ?case using Cons.IH [OF s(2,4)] s(1) a by simp
qed simp

theorem suggestions_do_not_postpone_witness:
  "retarget_due (fold (\<lambda>(now, d). vardiff_step (Suggest now d)) [(secs 50, 5), (secs 80, 6)]
     (sample_busy\<lparr>v_suggest_applied := True\<rparr>)) = secs 90"
proof -
  have ok: "vardiff_ok (sample_busy\<lparr>v_suggest_applied := True\<rparr>)"
    by (simp add: vardiff_ok_def vardiff_config_ok_def sample_busy_fields sample_vardiff_config_def)
  have "retarget_due (sample_busy\<lparr>v_suggest_applied := True\<rparr>) = secs 90"
    by (simp add: retarget_due_def retarget_interval_def sample_busy_fields sample_vardiff_config_def)
  then show ?thesis
    using suggestions_do_not_postpone_retarget [OF ok, of "[(secs 50, 5), (secs 80, 6)]"] by simp
qed

text \<open>
  A share is credited only with a difficulty it was assigned and its hash reached, or with
  the pool's floor: the credit is the current or the previous difficulty when the reported hash
  difficulty is at least that much, and the configured minimum otherwise.
\<close>

theorem credit_is_proven_or_floor:
  "credit_for v h = vc_min_difficulty (v_cfg v)
   \<or> credit_for v h \<le> h \<and> credit_for v h \<in> {v_current v, v_previous v}"
  by (simp add: credit_for_def)

end
