(* ===== verification/Session.thy ===== *)
theory Session
  imports Engine Sv1 Security Vardiff
begin

text \<open>
  \<^verbatim>\<open>src/src/network/session.rs\<close>: one miner connection over Stratum V1. A session is a
  record; a line from the miner, the retarget timer and a job broadcast are the three arms
  of its loop. A handler returns the messages to send or the reason to disconnect, the new
  session, the engine (a block found changes it) and the list of calls it makes on the
  statistics and metrics. What a handler reads from outside (clocks, the stored share
  history of a worker, the node's answers to a submission) is the record \<open>line_io\<close>; the
  JSON parser is the parameter \<open>parse\<close>.
\<close>

section \<open>State\<close>

record session =
  se_peer :: string
  se_worker :: "string option"
  se_user_agent :: "string option"
  se_session_id :: string
  se_subscribed :: bool
  se_authorized :: bool
  se_version_rolling_enabled :: bool
  se_version_rolling_mask :: u32
  se_version_rolling_min_bit_count :: "u32 option"
  se_extranonce1 :: bytes
  se_extranonce2_size :: nat
  se_current_job :: "stratum_job option"
  se_difficulty :: u64
  se_vardiff :: vardiff
  se_vardiff_cfg :: vardiff_config
  se_share_set :: share_set
  se_guard :: session_guard
  se_shares_accepted :: u64
  se_shares_rejected :: u64
  se_connect_time :: nat

text \<open>\<open>now1\<close> to \<open>now4\<close> are the clock readings, \<open>rnd\<close> the random number of the session id.\<close>

definition Session_new ::
  "nat \<Rightarrow> nat \<Rightarrow> nat \<Rightarrow> nat \<Rightarrow> u64 \<Rightarrow> string \<Rightarrow> config \<Rightarrow> bytes \<Rightarrow> session" where
  "Session_new now1 now2 now3 now4 rnd peer cfg extranonce1 =
     (let initial_diff = pc_initial_difficulty (c_pool cfg)
      in \<lparr>se_peer = peer, se_worker = None, se_user_agent = None,
          se_session_id = fmt_hex 16 (unat rnd),
          se_subscribed = False, se_authorized = False, se_version_rolling_enabled = False,
          se_version_rolling_mask = VERSION_ROLLING_MASK, se_version_rolling_min_bit_count = None,
          se_extranonce1 = extranonce1, se_extranonce2_size = pc_extranonce2_size (c_pool cfg),
          se_current_job = None, se_difficulty = initial_diff,
          se_vardiff = Vardiff_new now1 now2 (c_vardiff cfg) initial_diff,
          se_vardiff_cfg = c_vardiff cfg, se_share_set = ShareSet_new,
          se_guard = SessionGuard_new now3 (c_security cfg),
          se_shares_accepted = 0, se_shares_rejected = 0, se_connect_time = now4\<rparr>)"

text \<open>The calls on \<open>metrics\<close> and on the shared statistics, in the order they are made.\<close>

datatype session_effect =
    MShareRejected string string
  | SShareRejected
  | SWorkerShareRejected string string
  | SMarkWorkerOffline string
  | SStashShareHistory string share_history
  | SMarkWorkerOnline string u64
  | SSetWorkerProtocol string string
  | STakeShareHistory string
  | SLogShare string u64
  | MShareAccepted u64 string
  | SShareAccepted u64 u64
  | SWorkerShareAccepted string u64
  | SMarkWorkerSubmit string
  | MBlockFound
  | MBlockSubmissionSuccess
  | SBlockFound string string u64
  | MBlockSubmissionFailure string
  | MVardiffRetarget string u64 u64
  | SUpdateWorkerVardiff string u64
  | Spawned block_task

datatype handle_result = Messages "json list" | Disconnect string

record line_io =
  io_rate1 :: nat
  io_rate2 :: nat
  io_now :: nat
  io_restore :: nat
  io_stored :: "share_history option"
  io_views :: "nat \<Rightarrow> node_view"

type_synonym handled = "handle_result \<times> session \<times> template_engine \<times> session_effect list"

section \<open>Extranonces\<close>

text \<open>The static counter's \<open>fetch_add\<close> returns the old value and wraps.\<close>

definition generate_extranonce1 :: "nat \<Rightarrow> u64 \<Rightarrow> bytes \<times> u64" where
  "generate_extranonce1 sz n =
     (let counter = u64_to_be_bytes n
      in (if sz \<le> length counter then drop (length counter - sz) counter
          else replicate (sz - length counter) 0 @ counter,
          n + 1))"

section \<open>The bounded line reader\<close>

text \<open>
  The chunks are what \<open>fill_buf\<close> makes available one after the other; no more chunks is the
  end of the stream. The result carries the accumulator and the unread chunks.
\<close>

datatype read_result = LineRead nat | EndOfFile | LineTooLong

fun read_line_bounded :: "nat \<Rightarrow> bytes \<Rightarrow> bytes list \<Rightarrow> read_result \<times> bytes \<times> bytes list" where
  "read_line_bounded m buf [] = (if buf = [] then EndOfFile else LineRead (length buf), buf, [])"
| "read_line_bounded m buf (available # rest) =
     (if available = [] then (if buf = [] then EndOfFile else LineRead (length buf), buf, available # rest)
      else if 10 \<in> set available then
        let line = takeWhile (\<lambda>b. b \<noteq> 10) available;
            left = drop (length line + 1) available;
            chunks = (if left = [] then rest else left # rest);
            buf1 = buf @ line;
            buf2 = (if buf1 \<noteq> [] \<and> last buf1 = 13 then butlast buf1 else buf1)
        in (if length buf2 > m then LineTooLong else LineRead (length buf2), buf2, chunks)
      else
        let buf1 = buf @ available
        in if length buf1 > m then (LineTooLong, buf1, rest) else read_line_bounded m buf1 rest)"

section \<open>Handlers\<close>

text \<open>\<open>count_ones\<close>\<close>

definition count_ones :: "u32 \<Rightarrow> u32" where
  "count_ones w = of_nat (length (filter (bit w) [0..<32]))"

definition handle_configure :: "stratum_request \<Rightarrow> configure_params \<Rightarrow> session \<Rightarrow> handle_result \<times> session" where
  "handle_configure req params s =
     (let s1 =
        (if cp_version_rolling params then
           let negotiated = (case cp_version_rolling_mask params of
                               Some m \<Rightarrow> m AND se_version_rolling_mask s
                             | None \<Rightarrow> se_version_rolling_mask s);
               negotiated_bits = count_ones negotiated;
               min_bits_ok = (case cp_version_rolling_min_bit_count params of
                                Some min_bits \<Rightarrow> negotiated_bits \<ge> min_bits
                              | None \<Rightarrow> True)
           in s\<lparr>se_version_rolling_enabled := min_bits_ok \<and> negotiated \<noteq> 0,
                se_version_rolling_mask := negotiated,
                se_version_rolling_min_bit_count := cp_version_rolling_min_bit_count params\<rparr>
         else s)
      in (Messages [resp_configure (rq_id req) (se_version_rolling_enabled s1) (se_version_rolling_mask s1)
            (Some (se_difficulty s1)) (cp_subscribe_extranonce params)], s1))"

definition handle_suggest_difficulty ::
  "nat \<Rightarrow> stratum_request \<Rightarrow> u64 \<Rightarrow> session \<Rightarrow> (handle_result \<times> session) result" where
  "handle_suggest_difficulty now req difficulty s =
     obind (Vardiff_suggest now difficulty (se_vardiff s)) (\<lambda>(applied, v).
       let s1 = s\<lparr>se_vardiff := v, se_difficulty := applied\<rparr>
       in Ok (Messages (resp_ok (rq_id req) (JBool True)
                # (if se_subscribed s1 then [resp_set_difficulty applied] else [])), s1))"

definition handle_subscribe :: "crates \<Rightarrow> stratum_request \<Rightarrow> subscribe_params \<Rightarrow> session \<Rightarrow> handle_result \<times> session" where
  "handle_subscribe C req params s =
     (let s1 = s\<lparr>se_subscribed := True, se_user_agent := sub_user_agent params\<rparr>
      in (Messages [resp_subscribe (rq_id req) (se_session_id s1) (hex_encode C (se_extranonce1 s1))
            (se_extranonce2_size s1)], s1))"

definition build_notify :: "crates \<Rightarrow> stratum_job \<Rightarrow> bool \<Rightarrow> json" where
  "build_notify C job clean =
     resp_notify (j_job_id job) (j_prev_hash job) (hex_encode C (j_coinbase1 job))
       (hex_encode C (j_coinbase2 job)) (j_merkle_branch job) (j_version job) (j_bits job)
       (j_cur_time job) clean"

text \<open>The change of identity inside \<open>handle_authorize\<close>, once the guard has allowed it.\<close>

definition switch_worker :: "line_io \<Rightarrow> string \<Rightarrow> session \<Rightarrow> session \<times> session_effect list" where
  "switch_worker io worker s =
     (let (s1, left) =
        (case se_worker s of
           None \<Rightarrow> (s, [])
         | Some prev \<Rightarrow>
             (let (history, v) = take_share_history (io_now io) (se_vardiff s)
              in (s\<lparr>se_worker := None, se_vardiff := v\<rparr>,
                  [SMarkWorkerOffline prev, SStashShareHistory prev history])));
        joined = [SMarkWorkerOnline worker (se_difficulty s1), SSetWorkerProtocol worker ''sv1'',
                  STakeShareHistory worker];
        s2 = (case io_stored io of
                None \<Rightarrow> s1
              | Some history \<Rightarrow> s1\<lparr>se_vardiff := restore_share_history (io_restore io) history (se_vardiff s1)\<rparr>)
      in (s2, left @ joined))"

definition handle_authorize ::
  "crates \<Rightarrow> line_io \<Rightarrow> stratum_request \<Rightarrow> authorize_params \<Rightarrow> template_engine \<Rightarrow> session
     \<Rightarrow> handle_result \<times> session \<times> session_effect list" where
  "handle_authorize C io req params e s =
     (if \<not> se_subscribed s then (Messages [resp_err (rq_id req) (to_stratum_error NotSubscribed)], s, [])
      else case SessionGuard_check_worker_name (se_guard s) (auth_worker params) of
        Err err \<Rightarrow> (Messages [resp_err (rq_id req) (to_stratum_error err)], s, [])
      | _ \<Rightarrow>
          (let is_new = (se_worker s \<noteq> Some (auth_worker params));
               (allowed, g) = (if is_new then SessionGuard_record_new_authorization (se_guard s)
                               else (True, se_guard s));
               s1 = s\<lparr>se_guard := g\<rparr>
           in if \<not> allowed then (Disconnect ''too many worker identities'', s1, [])
              else
                let (s2, effs) = (if is_new then switch_worker io (auth_worker params) s1 else (s1, []));
                    s3 = s2\<lparr>se_authorized := True, se_worker := Some (auth_worker params)\<rparr>;
                    job = (case se_current_job s3 of Some j \<Rightarrow> Some j | None \<Rightarrow> en_current_job e);
                    greeting = [resp_ok (rq_id req) (JBool True), resp_set_difficulty (se_difficulty s3)]
                in (case job of
                      Some j \<Rightarrow> (Messages (greeting @ [build_notify C j True]), s3\<lparr>se_current_job := Some j\<rparr>, effs)
                    | None \<Rightarrow> (Messages greeting, s3, effs))))"

definition worker_label :: "session \<Rightarrow> string" where
  "worker_label s = (case se_worker s of Some w \<Rightarrow> w | None \<Rightarrow> ''?'')"

definition share_params_of :: "session \<Rightarrow> submit_params \<Rightarrow> share_params" where
  "share_params_of s params =
     \<lparr>sp_worker = worker_label s, sp_job_id = sm_job_id params, sp_extranonce2 = sm_extranonce2 params,
      sp_ntime = sm_ntime params, sp_nonce = sm_nonce params,
      sp_version_bits = (if se_version_rolling_enabled s then sm_version_bits params else None),
      sp_version_rolling_mask =
        (if se_version_rolling_enabled s then Some (se_version_rolling_mask s) else None)\<rparr>"

definition reject_reason :: "pool_error \<Rightarrow> string" where
  "reject_reason e =
     (case e of StaleJob _ \<Rightarrow> ''stale'' | DuplicateShare \<Rightarrow> ''duplicate'' | LowDifficulty \<Rightarrow> ''low_difficulty''
              | _ \<Rightarrow> ''invalid'')"

definition is_malicious :: "pool_error \<Rightarrow> bool" where
  "is_malicious e = (case e of LowDifficulty \<Rightarrow> False | StaleJob _ \<Rightarrow> False | _ \<Rightarrow> True)"

text \<open>An invalid share: counted by the guard, which may ask for a disconnect.\<close>

definition count_invalid :: "json \<Rightarrow> pool_error \<Rightarrow> session \<Rightarrow> handle_result \<times> session" where
  "count_invalid req_id e s =
     (let (fire, c) = InvalidShareCounter_record_invalid (sg_invalid_shares (se_guard s));
          s1 = s\<lparr>se_guard := (se_guard s)\<lparr>sg_invalid_shares := c\<rparr>\<rparr>
      in (if fire then Disconnect ''too many invalid shares''
          else Messages [resp_err req_id (to_stratum_error e)], s1))"

definition credit_share :: "nat \<Rightarrow> u64 \<Rightarrow> session \<Rightarrow> u64 \<times> session" where
  "credit_share now hash_diff s =
     (let credited = credit_for (se_vardiff s) hash_diff
      in (credited, s\<lparr>se_shares_accepted := se_shares_accepted s + 1,
            se_vardiff := record_share now credited (se_vardiff s)\<rparr>))"

text \<open>What follows the verdict of validation and duplicate check: credit, block submission, rejection.\<close>

definition settle_share ::
  "crates \<Rightarrow> line_io \<Rightarrow> json \<Rightarrow> job_entry \<Rightarrow> share_result result \<Rightarrow> template_engine \<Rightarrow> session \<Rightarrow> handled" where
  "settle_share C io req_id entry verdict e s =
     (let worker = worker_label s
      in case verdict of
           Panic \<Rightarrow> (Disconnect ''internal error'', s, e, [])
         | Ok (Valid assigned hash_diff hash) \<Rightarrow>
             (let (credited, s2) = credit_share (io_now io) hash_diff s
              in (Messages [resp_ok req_id (JBool True)], s2, e,
                  [SLogShare worker credited, MShareAccepted credited worker,
                   SShareAccepted hash_diff credited, SWorkerShareAccepted worker hash_diff,
                   SMarkWorkerSubmit worker]))
         | Ok (Block hash_diff block_text hash) \<Rightarrow>
             (let hash_text = hash_display_hex C hash;
                  height = j_height (je_job entry);
                  (submitted, e1, tasks, slept) =
                    submit_found_block (io_views io) height hash_text block_text worker e
              in case submitted of
                   Ok _ \<Rightarrow>
                     (let (credited, s2) = credit_share (io_now io) hash_diff s
                      in (Messages [resp_ok req_id (JBool True)], s2, e1,
                          map Spawned tasks @
                          [MBlockFound, MBlockSubmissionSuccess, SBlockFound worker hash_text height,
                           SLogShare worker credited, SShareAccepted hash_diff credited,
                           SWorkerShareAccepted worker hash_diff, SMarkWorkerSubmit worker]))
                 | Err err \<Rightarrow>
                     (Messages [resp_err req_id (to_stratum_error err)], s, e1,
                      map Spawned tasks @ [MBlockSubmissionFailure (submit_failure_label err)])
                 | Panic \<Rightarrow> (Disconnect ''internal error'', s, e1, map Spawned tasks))
         | Err err \<Rightarrow>
             (let s2 = s\<lparr>se_shares_rejected := se_shares_rejected s + 1\<rparr>;
                  (res, s3) = (if is_malicious err then count_invalid req_id err s2
                               else (Messages [resp_err req_id (to_stratum_error err)], s2))
              in (res, s3, e,
                  [MShareRejected (reject_reason err) worker, SShareRejected,
                   SWorkerShareRejected worker (reject_reason err)])))"

definition handle_submit ::
  "crates \<Rightarrow> line_io \<Rightarrow> stratum_request \<Rightarrow> submit_params \<Rightarrow> template_engine \<Rightarrow> session \<Rightarrow> handled" where
  "handle_submit C io req params e s =
     (let worker = worker_label s
      in if \<not> se_authorized s then
           (Messages [resp_err (rq_id req) (to_stratum_error NotAuthorized)], s, e,
            [MShareRejected ''unauthorized'' worker, SShareRejected])
         else if length (sm_extranonce2 params) \<noteq> se_extranonce2_size s then
           (let (res, s1) = count_invalid (rq_id req)
                  (BadExtranonceSize (length (sm_extranonce2 params)) (se_extranonce2_size s)) s
            in (res, s1, e, [MShareRejected ''bad_extranonce'' worker, SShareRejected,
                             SWorkerShareRejected worker ''bad_extranonce'']))
         else case find_job (sm_job_id params) e of
           None \<Rightarrow>
             (Messages [resp_err (rq_id req) (to_stratum_error (StaleJob (sm_job_id params)))], s, e,
              [MShareRejected ''job_not_found'' worker, SShareRejected,
               SWorkerShareRejected worker ''job_not_found''])
         | Some entry \<Rightarrow>
             (let validation = validate_share_no_dedup C (share_params_of s params) (je_job entry) entry
                    (se_extranonce1 s) (vc_min_difficulty (se_vardiff_cfg s));
                  (verdict, tracker) = ShareSet_dedup (se_share_set s) validation
              in settle_share C io (rq_id req) entry verdict e (s\<lparr>se_share_set := tracker\<rparr>)))"

definition dispatch ::
  "crates \<Rightarrow> line_io \<Rightarrow> stratum_request \<Rightarrow> client_message \<Rightarrow> template_engine \<Rightarrow> session \<Rightarrow> handled result" where
  "dispatch C io req msg e s =
     (case msg of
        Configure params \<Rightarrow> (let (res, s') = handle_configure req params s in Ok (res, s', e, []))
      | Subscribe params \<Rightarrow> (let (res, s') = handle_subscribe C req params s in Ok (res, s', e, []))
      | Authorize params \<Rightarrow>
          (let (res, s', effs) = handle_authorize C io req params e s in Ok (res, s', e, effs))
      | Submit params \<Rightarrow> Ok (handle_submit C io req params e s)
      | SuggestDifficulty d \<Rightarrow>
          obind (handle_suggest_difficulty (io_now io) req d s) (\<lambda>(res, s'). Ok (res, s', e, []))
      | Unknown meth \<Rightarrow>
          Ok (Messages [resp_err (rq_id req) (to_stratum_error (UnknownMethod meth))], s, e, []))"

definition handle_line ::
  "crates \<Rightarrow> (string \<Rightarrow> stratum_request option) \<Rightarrow> line_io \<Rightarrow> string \<Rightarrow> template_engine \<Rightarrow> session \<Rightarrow> handled result" where
  "handle_line C parse io line e s =
     (if str_trim line = [] then Ok (Messages [], s, e, [])
      else
        let (allowed, bucket) = ShareRateLimiter_try_consume (io_rate1 io) (io_rate2 io) (sg_share_rate (se_guard s));
            s1 = s\<lparr>se_guard := (se_guard s)\<lparr>sg_share_rate := bucket\<rparr>\<rparr>
        in if \<not> allowed
           then Ok (Disconnect ''rate limited'', s1, e, [MShareRejected ''rate_limited'' (worker_label s1)])
           else case parse line of
             None \<Rightarrow> Ok (Disconnect ''parse error'', s1, e, [])
           | Some req \<Rightarrow>
               (case from_request C req of
                  Panic \<Rightarrow> Panic
                | Err err \<Rightarrow> Ok (Messages [resp_err (rq_id req) (to_stratum_error err)], s1, e, [])
                | Ok msg \<Rightarrow> dispatch C io req msg e s1))"

section \<open>The other arms of the session loop\<close>

text \<open>The retarget timer, enabled only once the session is subscribed and authorized.\<close>

definition on_retarget_timer ::
  "nat \<Rightarrow> nat \<Rightarrow> nat \<Rightarrow> session \<Rightarrow> (json list \<times> session \<times> session_effect list) result" where
  "on_retarget_timer now1 now2 now3 s =
     (if \<not> (se_subscribed s \<and> se_authorized s) then Ok ([], s, [])
      else obind (check_retarget now1 now2 now3 (se_vardiff s)) (\<lambda>(change, v).
        let s1 = s\<lparr>se_vardiff := v\<rparr>
        in case change of
             None \<Rightarrow> Ok ([], s1, [])
           | Some new_diff \<Rightarrow>
               Ok ([resp_set_difficulty new_diff], s1\<lparr>se_difficulty := new_diff\<rparr>,
                   (case se_worker s1 of
                      None \<Rightarrow> []
                    | Some worker \<Rightarrow> [MVardiffRetarget worker (se_difficulty s1) new_diff,
                                      SUpdateWorkerVardiff worker new_diff]))))"

definition on_job_broadcast :: "crates \<Rightarrow> job_broadcast \<Rightarrow> session \<Rightarrow> json list \<times> session" where
  "on_job_broadcast C b s =
     (let s1 = (if jb_clean b then s\<lparr>se_share_set := ShareSet_clear (se_share_set s)\<rparr> else s);
          s2 = s1\<lparr>se_current_job := Some (jb_job b)\<rparr>
      in (if se_subscribed s1 \<and> se_authorized s1
          then [resp_set_difficulty (se_difficulty s1), build_notify C (jb_job b) (jb_clean b)] else [], s2))"

text \<open>The end of the session, after the loop.\<close>

definition close_session :: "nat \<Rightarrow> session \<Rightarrow> session_effect list" where
  "close_session now s =
     (case se_worker s of
        None \<Rightarrow> []
      | Some worker \<Rightarrow> [SMarkWorkerOffline worker,
          SStashShareHistory worker (fst (take_share_history now (se_vardiff s)))])"

section \<open>Lemmas on the extranonce and the reader\<close>

lemma length_extranonce1: "length (fst (generate_extranonce1 sz n)) = sz"
  by (simp add: generate_extranonce1_def Let_def u64_to_be_bytes_def)

lemma be_val_extranonce1:
  "be_val (fst (generate_extranonce1 sz n)) = unat n mod 256 ^ min sz 8"
proof (cases "sz \<le> 8")
  case True
  define b where "b = u64_to_be_bytes n"
  have len: "length b = 8" by (simp add: b_def u64_to_be_bytes_def)
  have "be_val b = be_val (take (8 - sz) b) * 256 ^ sz + be_val (drop (8 - sz) b)"
    using be_val_append [of "take (8 - sz) b" "drop (8 - sz) b"] True len by simp
  moreover have "be_val (drop (8 - sz) b) < 256 ^ sz"
    using be_val_less [of "drop (8 - sz) b"] True len by simp
  ultimately have "be_val (drop (8 - sz) b) = be_val b mod 256 ^ sz" by simp
  then show ?thesis
    using True len by (simp add: generate_extranonce1_def Let_def b_def [symmetric] min_absorb1)
      (simp add: b_def be_val_u64)
next
  case False
  have "unat n < 256 ^ 8" using unat_lt [of n] by simp
  then show ?thesis
    using False by (simp add: generate_extranonce1_def Let_def be_val_append be_val_u64)
qed

definition strip_cr :: "bytes \<Rightarrow> bytes" where
  "strip_cr line = (if line \<noteq> [] \<and> last line = 13 then butlast line else line)"

lemma first_newline:
  "xs @ (10 :: byte) # ys = zs @ 10 # ws \<Longrightarrow> 10 \<notin> set xs \<Longrightarrow> 10 \<notin> set zs \<Longrightarrow> xs = zs \<and> ys = ws"
proof (induction xs arbitrary: zs)
  case Nil
  then show ?case by (cases zs) auto
next
  case (Cons x xs)
  then show ?case by (cases zs) auto
qed

lemma split_at_newline:
  "10 \<in> set (a :: bytes) \<Longrightarrow> a = takeWhile (\<lambda>b. b \<noteq> 10) a @ 10 # drop (length (takeWhile (\<lambda>b. b \<noteq> 10) a) + 1) a"
  by (induction a) auto

lemma newline_split:
  assumes "10 \<in> set (a :: bytes)" and "buf @ a @ z = line @ 10 # rest" and "10 \<notin> set buf" and "10 \<notin> set line"
  shows "buf @ takeWhile (\<lambda>b. b \<noteq> 10) a = line
     \<and> drop (length (takeWhile (\<lambda>b. b \<noteq> 10) a) + 1) a @ z = rest"
proof -
  define tw where "tw = takeWhile (\<lambda>b. b \<noteq> 10) a"
  define left where "left = drop (length tw + 1) a"
  have a: "a = tw @ 10 # left" using split_at_newline [OF assms(1)] by (simp add: tw_def left_def)
  have "10 \<notin> set (buf @ tw)" using assms(3) by (auto simp: tw_def dest: set_takeWhileD)
  moreover have "(buf @ tw) @ 10 # (left @ z) = buf @ (tw @ 10 # left) @ z" by simp
  ultimately show ?thesis
    using first_newline [of "buf @ tw" "left @ z" line rest] assms(2,4)
    by (simp only: a [symmetric] tw_def [symmetric] left_def [symmetric] simp_thms)
qed

lemma newline_chunk:
  assumes "10 \<in> set a" and "10 \<notin> set buf"
  shows "read_line_bounded m buf (a # cs) =
    (let line = buf @ takeWhile (\<lambda>b. b \<noteq> 10) a; left = drop (length (takeWhile (\<lambda>b. b \<noteq> 10) a) + 1) a
     in (if length (strip_cr line) > m then LineTooLong else LineRead (length (strip_cr line)), strip_cr line,
         if left = [] then cs else left # cs))"
  using assms by (auto simp: Let_def strip_cr_def)

lemma prefix_of_line:
  assumes "x @ y = line @ (10 :: byte) # rest" and "10 \<notin> set x" and "10 \<notin> set line"
  shows "length x \<le> length line"
proof -
  have "takeWhile (\<lambda>b. b \<noteq> 10) (x @ y) = line" using assms(1,3) by (auto simp: takeWhile_append)
  moreover have "takeWhile (\<lambda>b. b \<noteq> 10) (x @ y) = x @ takeWhile (\<lambda>b. b \<noteq> 10) y"
    using assms(2) by (intro takeWhile_append2) auto
  ultimately show ?thesis by (metis length_append le_add1)
qed

lemma read_line_whole:
  assumes "buf @ concat cs = line @ 10 # rest" and "10 \<notin> set line" and "10 \<notin> set buf" and "[] \<notin> set cs"
    and "length line \<le> m"
  shows "\<exists>cs'. read_line_bounded m buf cs = (LineRead (length (strip_cr line)), strip_cr line, cs')
     \<and> concat cs' = rest \<and> [] \<notin> set cs'"
  using assms
proof (induction cs arbitrary: buf)
  case Nil
  then show ?case by auto
next
  case (Cons a cs)
  show ?case
  proof (cases "10 \<in> set a")
    case True
    have "length (strip_cr line) \<le> m" using Cons.prems(5) by (auto simp: strip_cr_def)
    then show ?thesis
      using newline_split [OF True, of buf "concat cs" line rest] newline_chunk [OF True Cons.prems(3), of m cs]
        Cons.prems(1-4)
      by (auto simp: Let_def simp del: read_line_bounded.simps)
  next
    case False
    have "length (buf @ a) \<le> length line"
      by (rule prefix_of_line [of _ "concat cs" _ rest]) (use Cons.prems False in auto)
    moreover have "\<exists>cs'. read_line_bounded m (buf @ a) cs = (LineRead (length (strip_cr line)), strip_cr line, cs')
       \<and> concat cs' = rest \<and> [] \<notin> set cs'"
      by (rule Cons.IH) (use Cons.prems False in auto)
    ultimately show ?thesis using False Cons.prems(4,5) by auto
  qed
qed

lemma read_line_overlong:
  assumes "buf @ concat cs = line @ 10 # rest" and "10 \<notin> set line" and "10 \<notin> set buf" and "[] \<notin> set cs"
    and "m < length (strip_cr line)"
  shows "fst (read_line_bounded m buf cs) = LineTooLong"
  using assms
proof (induction cs arbitrary: buf)
  case Nil
  then show ?case by auto
next
  case (Cons a cs)
  show ?case
  proof (cases "10 \<in> set a")
    case True
    show ?thesis
      using newline_split [OF True, of buf "concat cs" line rest] newline_chunk [OF True Cons.prems(3), of m cs]
        Cons.prems(1-3,5)
      by (simp add: Let_def)
  next
    case False
    have "fst (read_line_bounded m (buf @ a) cs) = LineTooLong"
      by (rule Cons.IH) (use Cons.prems False in auto)
    then show ?thesis using False Cons.prems(4) by (auto simp: Let_def)
  qed
qed

lemma read_line_cap:
  "length buf \<le> m \<Longrightarrow> read_line_bounded m buf cs = (LineRead n, buf', cs') \<Longrightarrow> n = length buf' \<and> n \<le> m"
  by (induction m buf cs rule: read_line_bounded.induct) (auto simp: Let_def split: if_splits)

text \<open>
  At the limit the answer depends on how the bytes arrive: a line of exactly the permitted
  length that ends in a carriage return is read when its newline is in the same chunk, and
  refused (with a ban of the address) when the newline comes in the next one.
\<close>

lemma crlf_at_the_limit:
  assumes "line \<noteq> []" and "10 \<notin> set line"
  shows "fst (read_line_bounded (length line) [] [line @ [13, 10]]) = LineRead (length line)
     \<and> fst (read_line_bounded (length line) [] [line @ [13], [10]]) = LineTooLong"
  using assms by (simp add: Let_def takeWhile_append)

section \<open>The session invariant\<close>

definition session_ok :: "config \<Rightarrow> session \<Rightarrow> bool" where
  "session_ok cfg s \<longleftrightarrow>
     se_version_rolling_mask s AND NOT VERSION_ROLLING_MASK = 0
     \<and> (se_version_rolling_enabled s \<longrightarrow> se_version_rolling_mask s \<noteq> 0)
     \<and> (se_authorized s \<longrightarrow> se_subscribed s \<and> se_worker s \<noteq> None)
     \<and> share_set_ok 4096 (se_share_set s)
     \<and> vardiff_ok (se_vardiff s) \<and> v_cfg (se_vardiff s) = c_vardiff cfg \<and> se_vardiff_cfg s = c_vardiff cfg
     \<and> se_difficulty s = v_current (se_vardiff s)
     \<and> se_extranonce2_size s = pc_extranonce2_size (c_pool cfg)"

definition initial_difficulty_ok :: "config \<Rightarrow> bool" where
  "initial_difficulty_ok cfg \<longleftrightarrow> vc_min_difficulty (c_vardiff cfg) \<le> pc_initial_difficulty (c_pool cfg)
     \<and> pc_initial_difficulty (c_pool cfg) \<le> vc_max_difficulty (c_vardiff cfg)"

lemma Session_new_ok:
  assumes "validate cfg = Ok ()" and "initial_difficulty_ok cfg"
  shows "session_ok cfg (Session_new now1 now2 now3 now4 rnd peer cfg extranonce1)"
  using validate_pool [OF assms(1)] assms(2)
  by (simp add: session_ok_def Session_new_def Let_def ShareSet_new_ok vardiff_ok_def Vardiff_new_def
      initial_difficulty_ok_def)

lemma mask_and: "m AND NOT v = (0 :: u32) \<Longrightarrow> (x AND m) AND NOT v = 0"
  by (simp add: and.assoc)

lemma handle_configure_ok:
  "session_ok cfg s \<Longrightarrow> handle_configure req params s = (res, s') \<Longrightarrow> session_ok cfg s'"
  by (auto simp: handle_configure_def session_ok_def Let_def mask_and split: option.splits if_splits)

lemma handle_subscribe_ok:
  "session_ok cfg s \<Longrightarrow> handle_subscribe C req params s = (res, s') \<Longrightarrow> session_ok cfg s'"
  by (auto simp: handle_subscribe_def session_ok_def Let_def)

lemma handle_suggest_ok:
  assumes "session_ok cfg s" and "handle_suggest_difficulty now req d s = Ok (res, s')"
  shows "session_ok cfg s'"
  using assms suggest_ok [of "se_vardiff s" now d]
  by (auto simp: handle_suggest_difficulty_def session_ok_def vardiff_ok_def Let_def)

lemmas history_defs = restore_share_history_def take_share_history_def record_share_def vardiff_ok_def

lemma switch_worker_ok:
  assumes "session_ok cfg s" and "switch_worker io worker s = (s', effs)"
  shows "session_ok cfg (s'\<lparr>se_worker := Some w\<rparr>) \<and> se_subscribed s' = se_subscribed s"
  using assms
  by (auto simp: switch_worker_def session_ok_def Let_def history_defs split: option.splits)

lemma session_ok_frame [simp]:
  "session_ok cfg (s\<lparr>se_guard := g\<rparr>) = session_ok cfg s"
  "session_ok cfg (s\<lparr>se_current_job := j\<rparr>) = session_ok cfg s"
  "session_ok cfg (s\<lparr>se_shares_rejected := n\<rparr>) = session_ok cfg s"
  "session_ok cfg (s\<lparr>se_shares_accepted := n\<rparr>) = session_ok cfg s"
  by (simp_all add: session_ok_def)

lemma session_ok_authorized:
  "session_ok cfg (s\<lparr>se_worker := Some w\<rparr>) \<Longrightarrow> se_subscribed s \<Longrightarrow>
     session_ok cfg (s\<lparr>se_authorized := True, se_worker := Some w\<rparr>)"
  by (simp add: session_ok_def)

lemma session_ok_worker: "session_ok cfg s \<Longrightarrow> session_ok cfg (s\<lparr>se_worker := Some w\<rparr>)"
  by (simp add: session_ok_def)

lemma handle_authorize_ok:
  assumes inv: "session_ok cfg s" and h: "handle_authorize C io req params e s = (res, s', effs)"
  shows "session_ok cfg s'"
proof (cases "se_subscribed s \<and> (\<forall>err. SessionGuard_check_worker_name (se_guard s) (auth_worker params) \<noteq> Err err)")
  case True
  define is_new where "is_new = (se_worker s \<noteq> Some (auth_worker params))"
  obtain allowed g where g: "(if is_new then SessionGuard_record_new_authorization (se_guard s)
      else (True, se_guard s)) = (allowed, g)" by fastforce
  define s1 where "s1 = s\<lparr>se_guard := g\<rparr>"
  obtain s2 effs2 where s2: "(if is_new then switch_worker io (auth_worker params) s1 else (s1, [])) = (s2, effs2)"
    by fastforce
  have ok1: "session_ok cfg s1" "se_subscribed s1" using inv True by (simp_all add: s1_def)
  have ok2: "session_ok cfg (s2\<lparr>se_worker := Some (auth_worker params)\<rparr>)" "se_subscribed s2"
    using ok1 s2 switch_worker_ok [OF ok1(1)] session_ok_worker [OF ok1(1)] by (auto split: if_splits)
  note ok3 = session_ok_authorized [OF ok2]
  show ?thesis
    using h True g s2 ok1(1) ok3
    by (auto simp: handle_authorize_def Let_def is_new_def [symmetric] s1_def [symmetric]
        split: outcome.splits option.splits if_splits)
next
  case False
  then show ?thesis using h inv by (auto simp: handle_authorize_def split: outcome.splits if_splits)
qed

lemma count_invalid_ok: "session_ok cfg s \<Longrightarrow> count_invalid i e s = (res, s') \<Longrightarrow> session_ok cfg s'"
  by (auto simp: count_invalid_def Let_def split: prod.splits)

lemma credit_share_ok: "session_ok cfg s \<Longrightarrow> credit_share now d s = (c, s') \<Longrightarrow> session_ok cfg s'"
  by (auto simp: credit_share_def session_ok_def Let_def history_defs)

lemma dedup_ok:
  "share_set_ok 4096 t \<Longrightarrow> ShareSet_dedup t v = (r, t') \<Longrightarrow> share_set_ok 4096 t'"
  by (cases v) (auto simp: ShareSet_insert_ok split: if_splits)

text \<open>The validation of the share of a request, as the session asks for it.\<close>

definition share_verdict ::
  "crates \<Rightarrow> submit_params \<Rightarrow> job_entry \<Rightarrow> session \<Rightarrow> share_result result" where
  "share_verdict C params entry s = validate_share_no_dedup C (share_params_of s params) (je_job entry) entry
     (se_extranonce1 s) (vc_min_difficulty (se_vardiff_cfg s))"

text \<open>A submission is refused before validation, or settled by the verdict on the share.\<close>

lemma handle_submit_cases:
  assumes h: "handle_submit C io req params e s = (res, s', e', effs)"
  obtains
    (refused) "e' = e" "s' = s" "\<And>w d. SLogShare w d \<notin> set effs"
  | (bad_width) err where "count_invalid (rq_id req) err s = (res, s')" "e' = e" "\<And>w d. SLogShare w d \<notin> set effs"
  | (judged) entry verdict tracker where "se_authorized s" "length (sm_extranonce2 params) = se_extranonce2_size s"
      "find_job (sm_job_id params) e = Some entry"
      "ShareSet_dedup (se_share_set s) (share_verdict C params entry s) = (verdict, tracker)"
      "settle_share C io (rq_id req) entry verdict e (s\<lparr>se_share_set := tracker\<rparr>) = (res, s', e', effs)"
proof (cases "se_authorized s \<and> length (sm_extranonce2 params) = se_extranonce2_size s")
  case False
  show ?thesis
  proof (cases "se_authorized s")
    case True
    with False h show ?thesis
      by (intro bad_width) (auto simp: handle_submit_def Let_def split: prod.splits)
  next
    case False
    with h show ?thesis by (intro refused) (auto simp: handle_submit_def Let_def)
  qed
next
  case True
  show ?thesis
  proof (cases "find_job (sm_job_id params) e")
    case None
    then show ?thesis using h True by (intro refused) (auto simp: handle_submit_def Let_def)
  next
    case (Some entry)
    obtain verdict tracker where "ShareSet_dedup (se_share_set s) (share_verdict C params entry s) = (verdict, tracker)"
      by fastforce
    with h True Some show ?thesis
      by (intro judged [of entry verdict tracker]) (auto simp: handle_submit_def Let_def share_verdict_def)
  qed
qed

lemma settle_share_ok:
  assumes "session_ok cfg s" and "settle_share C io i entry verdict e s = (res, s', e', effs)"
  shows "session_ok cfg s'"
proof -
  have c: "session_ok cfg (snd (credit_share now d s))" for now d
    using credit_share_ok [OF assms(1), of now d "fst (credit_share now d s)"] by simp
  have i: "session_ok cfg (snd (count_invalid i err (s\<lparr>se_shares_rejected := n\<rparr>)))" for err n
    using count_invalid_ok [of cfg "s\<lparr>se_shares_rejected := n\<rparr>" i err] assms(1) by (metis prod.collapse session_ok_frame(3))
  show ?thesis
    using assms(2) assms(1) c i
    by (auto simp: settle_share_def Let_def split_beta split: outcome.splits share_result.splits if_splits)
qed

lemma handle_submit_ok:
  assumes inv: "session_ok cfg s" and h: "handle_submit C io req params e s = (res, s', e', effs)"
  shows "session_ok cfg s'"
  using h
proof (cases rule: handle_submit_cases)
  case refused
  then show ?thesis using inv by simp
next
  case (bad_width err)
  then show ?thesis using inv count_invalid_ok by blast
next
  case (judged entry verdict tracker)
  have "share_set_ok 4096 tracker" using dedup_ok [OF _ judged(4)] inv by (simp add: session_ok_def)
  then have "session_ok cfg (s\<lparr>se_share_set := tracker\<rparr>)" using inv by (simp add: session_ok_def)
  then show ?thesis using settle_share_ok judged(5) by blast
qed

lemma settle_share_credits:
  assumes "settle_share C io i entry verdict e s = (res, s', e', effs)" and "SLogShare w d \<in> set effs"
  shows "\<exists>r. verdict = Ok r \<and> w = worker_label s \<and> d = credit_for (se_vardiff s) (hash_difficulty r)
     \<and> se_shares_accepted s' = se_shares_accepted s + 1 \<and> se_share_set s' = se_share_set s
     \<and> res = Messages [resp_ok i (JBool True)]"
  using assms
  by (auto simp: settle_share_def Let_def split_beta credit_share_def
      split: outcome.splits share_result.splits if_splits)

lemma dispatch_ok:
  assumes ok: "session_ok cfg s" and "dispatch C io req msg e s = Ok (res, s', e', effs)"
  shows "session_ok cfg s'"
  using assms(2) ok handle_configure_ok [OF ok] handle_subscribe_ok [OF ok] handle_authorize_ok [OF ok]
    handle_submit_ok [OF ok] handle_suggest_ok [OF ok]
  by (auto simp: dispatch_def split: client_message.splits prod.splits)

lemma dispatch_not_Panic:
  assumes "session_ok cfg s"
  shows "dispatch C io req msg e s \<noteq> Panic"
proof -
  have "handle_suggest_difficulty (io_now io) req d s \<noteq> Panic" for d
    using suggest_ok [of "se_vardiff s" "io_now io" d] assms
    by (auto simp: session_ok_def vardiff_ok_def handle_suggest_difficulty_def obind_Panic_iff Let_def)
  then show ?thesis
    by (auto simp: dispatch_def obind_Panic_iff split: client_message.splits prod.splits)
qed

text \<open>A line is answered without reading it as a request, or dispatched after drawing a token.\<close>

lemma handle_line_cases:
  obtains (answered) res g effs where "handle_line C parse io line e s = Ok (res, s\<lparr>se_guard := g\<rparr>, e, effs)"
      "\<And>w d. SLogShare w d \<notin> set effs"
    | (dispatched) req msg g where "parse line = Some req" "from_request C req = Ok msg"
      "handle_line C parse io line e s = dispatch C io req msg e (s\<lparr>se_guard := g\<rparr>)"
proof -
  obtain allowed bucket where b: "ShareRateLimiter_try_consume (io_rate1 io) (io_rate2 io) (sg_share_rate (se_guard s))
      = (allowed, bucket)" by fastforce
  define g where "g = (se_guard s)\<lparr>sg_share_rate := bucket\<rparr>"
  show thesis
  proof (cases "str_trim line = []")
    case True
    then show thesis by (intro answered [of "Messages []" "se_guard s" "[]"]) (simp_all add: handle_line_def)
  next
    case False
    note def = handle_line_def [of C parse io line e s, unfolded Let_def, simplified False b, folded g_def, simplified]
    show thesis
    proof (cases "allowed \<and> parse line \<noteq> None")
      case True
      then obtain req where req: "parse line = Some req" by auto
      show thesis
      proof (cases "from_request C req")
        case (Ok msg)
        then show thesis using def True req False by (intro dispatched [of req msg g]) (simp_all add: g_def)
      next
        case (Err err)
        then show thesis using def True req False by (intro answered [of _ g "[]"]) (simp_all add: g_def)
      next
        case Panic
        then show thesis using from_request_total by blast
      qed
    next
      case no: False
      then show thesis using def False
        by (intro answered [of "if allowed then Disconnect ''parse error'' else Disconnect ''rate limited''" g
              "if allowed then [] else [MShareRejected ''rate_limited'' (worker_label (s\<lparr>se_guard := g\<rparr>))]"])
          (auto simp: g_def)
    qed
  qed
qed

lemma handle_line_ok:
  assumes inv: "session_ok cfg s" and h: "handle_line C parse io line e s = Ok (res, s', e', effs)"
  shows "session_ok cfg s'"
proof (rule handle_line_cases [of C parse io line e s])
  fix req msg g
  assume "handle_line C parse io line e s = dispatch C io req msg e (s\<lparr>se_guard := g\<rparr>)"
  then show ?thesis using h inv dispatch_ok [of cfg "s\<lparr>se_guard := g\<rparr>" C io req msg e res s' e' effs] by simp
qed (use h inv in auto)

lemma handle_line_not_Panic: "session_ok cfg s \<Longrightarrow> handle_line C parse io line e s \<noteq> Panic"
  by (rule handle_line_cases [of C parse io line e s])
    (use dispatch_not_Panic [of cfg "s\<lparr>se_guard := _\<rparr>"] in auto)

lemma on_retarget_ok:
  assumes "session_ok cfg s" and "on_retarget_timer now1 now2 now3 s = Ok (msgs, s', effs)"
  shows "session_ok cfg s'"
proof -
  obtain r v where r: "check_retarget now1 now2 now3 (se_vardiff s) = Ok (r, v)" "vardiff_ok v"
    "v_cfg v = v_cfg (se_vardiff s)"
    using check_retarget_ok [of "se_vardiff s" now1 now2 now3] assms(1) by (auto simp: session_ok_def)
  have "v_current v = (case r of None \<Rightarrow> v_current (se_vardiff s) | Some d \<Rightarrow> d)"
    using r(1) by (auto simp: check_retarget_def Let_def split: if_splits prod.splits option.splits)
  then show ?thesis
    using assms r by (auto simp: on_retarget_timer_def session_ok_def Let_def split: if_splits option.splits)
qed

lemma on_job_broadcast_ok:
  "session_ok cfg s \<Longrightarrow> on_job_broadcast C b s = (msgs, s') \<Longrightarrow> session_ok cfg s'"
  by (auto simp: on_job_broadcast_def session_ok_def Let_def ShareSet_clear_ok split: if_splits)

text \<open>
  The runs of a session: any interleaving of lines from the miner, retarget ticks, job
  broadcasts and changes of the engine made elsewhere, with the effects so far. A line that
  ends the session has no successor.
\<close>

inductive session_run ::
  "crates \<Rightarrow> (string \<Rightarrow> stratum_request option) \<Rightarrow> session \<Rightarrow> session \<Rightarrow> template_engine \<Rightarrow> session_effect list \<Rightarrow> bool"
  for C :: crates and parse :: "string \<Rightarrow> stratum_request option" and s0 :: session where
  start: "session_run C parse s0 s0 e []"
| line: "session_run C parse s0 s e effs \<Longrightarrow> handle_line C parse io text e s = Ok (Messages ms, s', e', effs')
    \<Longrightarrow> session_run C parse s0 s' e' (effs @ effs')"
| timer: "session_run C parse s0 s e effs \<Longrightarrow> on_retarget_timer now1 now2 now3 s = Ok (ms, s', effs')
    \<Longrightarrow> session_run C parse s0 s' e (effs @ effs')"
| job: "session_run C parse s0 s e effs \<Longrightarrow> on_job_broadcast C b s = (ms, s')
    \<Longrightarrow> session_run C parse s0 s' e effs"
| engine: "session_run C parse s0 s e effs \<Longrightarrow> session_run C parse s0 s e' effs"

lemma session_run_ok: "session_run C parse s0 s e effs \<Longrightarrow> session_ok cfg s0 \<Longrightarrow> session_ok cfg s"
  by (induction rule: session_run.induct)
    (auto intro: handle_line_ok on_retarget_ok on_job_broadcast_ok)

lemma dispatch_credits:
  assumes "dispatch C io req msg e s = Ok (res, s', e', effs)" and "SLogShare w d \<in> set effs"
  shows "\<exists>params. msg = Submit params \<and> handle_submit C io req params e s = (res, s', e', effs)"
proof -
  have "SLogShare w d \<notin> set effs'" if "handle_authorize C io req params e s = (r, s2, effs')" for params r s2 effs'
    using that by (auto simp: handle_authorize_def switch_worker_def Let_def split_beta split: outcome.splits option.splits if_splits)
  with assms show ?thesis
    by (cases msg) (auto simp: dispatch_def split: prod.splits)
qed

text \<open>A credited share was a submission of an authorized session, validated and not seen before.\<close>

lemma handle_line_credits:
  assumes h: "handle_line C parse io line e s = Ok (res, s', e', effs)" and c: "SLogShare w d \<in> set effs"
  obtains req params entry r where "parse line = Some req" "from_request C req = Ok (Submit params)"
    "se_authorized s" "length (sm_extranonce2 params) = se_extranonce2_size s"
    "find_job (sm_job_id params) e = Some entry" "share_verdict C params entry s = Ok r"
    "share_hash r \<notin> ss_seen (se_share_set s)" "se_share_set s' = ShareSet_insert (se_share_set s) (share_hash r)"
    "w = worker_label s" "d = credit_for (se_vardiff s) (hash_difficulty r)"
    "se_shares_accepted s' = se_shares_accepted s + 1"
proof (rule handle_line_cases [of C parse io line e s])
  fix req msg g
  assume req: "parse line = Some req" "from_request C req = Ok msg"
    and "handle_line C parse io line e s = dispatch C io req msg e (s\<lparr>se_guard := g\<rparr>)"
  then obtain params where params: "msg = Submit params"
    "handle_submit C io req params e (s\<lparr>se_guard := g\<rparr>) = (res, s', e', effs)"
    using dispatch_credits c h by metis
  show thesis
    using params(2)
  proof (cases rule: handle_submit_cases)
    case (judged entry verdict tracker)
    have v: "share_verdict C params entry (s\<lparr>se_guard := g\<rparr>) = share_verdict C params entry s"
      by (simp add: share_verdict_def share_params_of_def worker_label_def)
    obtain r where r: "verdict = Ok r" "w = worker_label s" "d = credit_for (se_vardiff s) (hash_difficulty r)"
      "se_shares_accepted s' = se_shares_accepted s + 1" "se_share_set s' = tracker"
      using settle_share_credits [OF judged(5) c] by (auto simp: worker_label_def)
    then have "share_verdict C params entry s = Ok r" "share_hash r \<notin> ss_seen (se_share_set s)"
      "tracker = ShareSet_insert (se_share_set s) (share_hash r)"
      using judged(4) by (cases "share_verdict C params entry s"; auto simp: v ShareSet_contains_def split: if_splits)+
    then show thesis using that [of req params entry r] req params judged r by auto
  qed (use c in auto)
qed (use h c in auto)

section \<open>Properties\<close>


text \<open>
  C3: A share is credited only when the line was a submission of an authorized session, with the
  extranonce width of the session, for a job the engine still knows, whose validation succeeded
  with a header hash the session has not accepted before; the hash is then remembered, the
  session's own worker is credited, and the amount is what the difficulty controller grants for
  the hash.
\<close>

theorem credited_share_is_valid:
  assumes "handle_line C parse io line e s = Ok (res, s', e', effs)" and "SLogShare w d \<in> set effs"
  shows "\<exists>req params entry r. parse line = Some req \<and> from_request C req = Ok (Submit params)
     \<and> se_authorized s \<and> length (sm_extranonce2 params) = se_extranonce2_size s
     \<and> find_job (sm_job_id params) e = Some entry \<and> share_verdict C params entry s = Ok r
     \<and> share_hash r \<notin> ss_seen (se_share_set s) \<and> share_hash r \<in> ss_seen (se_share_set s')
     \<and> w = worker_label s \<and> d = credit_for (se_vardiff s) (hash_difficulty r)
     \<and> se_shares_accepted s' = se_shares_accepted s + 1"
proof -
  have "key \<in> ss_seen (ShareSet_insert t key)" for t key
    by (auto simp: ShareSet_insert_def Let_def)
  then show ?thesis using handle_line_credits [OF assms] by metis
qed


text \<open>
  C39: Every session gets an extranonce of the configured width, and two sessions get the same one
  only when a whole cycle of the counter (at least 256 to the width, up to eight bytes) lies
  between them.
\<close>

theorem extranonce1_distinct:
  assumes "i < j" and "j < i + 256 ^ min sz 8" and "j < 2 ^ 64"
  shows "length (fst (generate_extranonce1 sz (of_nat i))) = sz
     \<and> snd (generate_extranonce1 sz (of_nat i)) = of_nat (i + 1)
     \<and> fst (generate_extranonce1 sz (of_nat i)) \<noteq> fst (generate_extranonce1 sz (of_nat j))"
proof -
  have "i mod 256 ^ min sz 8 \<noteq> j mod 256 ^ min sz 8"
  proof
    assume "i mod 256 ^ min sz 8 = j mod 256 ^ min sz 8"
    then have "256 ^ min sz 8 dvd j - i" using assms(1) by (metis less_imp_le mod_eq_dvd_iff_nat)
    then have "256 ^ min sz 8 \<le> j - i" using assms(1) by (intro dvd_imp_le) auto
    then show False using assms(1,2) by simp
  qed
  moreover have "unat (of_nat i :: u64) = i" "unat (of_nat j :: u64) = j"
    using assms(1,3) by (simp_all add: unat_of_nat)
  ultimately have "be_val (fst (generate_extranonce1 sz (of_nat i))) \<noteq> be_val (fst (generate_extranonce1 sz (of_nat j)))"
    by (simp add: be_val_extranonce1)
  then show ?thesis by (auto simp: length_extranonce1 generate_extranonce1_def Let_def add.commute)
qed

text \<open>
  The line reader returns each line whole, however its bytes were split on the way and
  wherever an earlier read was interrupted, provided the line (with its carriage return) fits
  the limit; a line longer than the limit is always refused; and nothing longer than the limit is
  ever returned.
\<close>

theorem line_reader_is_exact_and_bounded:
  assumes "buf @ concat chunks = line @ 10 # rest" and "10 \<notin> set line" and "10 \<notin> set buf"
    and "[] \<notin> set chunks"
  shows "(length line \<le> m \<longrightarrow> (\<exists>chunks'. read_line_bounded m buf chunks
            = (LineRead (length (strip_cr line)), strip_cr line, chunks') \<and> concat chunks' = rest))
     \<and> (m < length (strip_cr line) \<longrightarrow> fst (read_line_bounded m buf chunks) = LineTooLong)
     \<and> (\<forall>n out left. length buf \<le> m \<and> read_line_bounded m buf chunks = (LineRead n, out, left) \<longrightarrow>
          n = length out \<and> n \<le> m)"
  using read_line_whole [OF assms] read_line_overlong [OF assms] read_line_cap by blast

subsection \<open>Instances\<close>

definition sample_config :: config where
  "sample_config = \<lparr>c_pool = sample_pool_config, c_bitcoin_rpc = sample_rpc_config, c_vardiff = sample_vardiff_config,
     c_security = \<lparr>sc_max_connections_per_ip = 10, sc_max_shares_per_sec = 50, sc_ban_duration_secs = 600,
       sc_max_invalid_shares = 5, sc_max_message_bytes = 16384, sc_max_worker_name_len = 128,
       sc_max_authorizations_per_session = 8\<rparr>,
     c_metrics = \<lparr>mc_prometheus_addr = ''0.0.0.0:9090'', mc_stats_db_path = None,
       mc_allow_runtime_settings = True, mc_allowed_hosts = []\<rparr>,
     c_logging = \<lparr>lc_level = ''info'', lc_json = False, lc_log_dir = None, lc_log_max_files = 14\<rparr>,
     c_sv2 = sv2_default\<lparr>s2_enabled := False\<rparr>\<rparr>"

lemma sample_config_valid: "validate sample_config = Ok ()" "initial_difficulty_ok sample_config"
  by (simp_all add: validate_def sample_config_def sample_pool_config_def sample_vardiff_config_def Let_def
      HEIGHT_PUSH_MAX_def MAX_SCRIPT_SIG_def validate_vardiff_def initial_difficulty_ok_def)

definition sample_session :: session where
  "sample_session = (Session_new 0 0 0 0 1 ''peer'' sample_config (replicate 4 1))
     \<lparr>se_subscribed := True, se_authorized := True, se_worker := Some ''w''\<rparr>"

definition sample_submit :: "string \<Rightarrow> submit_params" where
  "sample_submit job_id = \<lparr>sm_worker = ''w'', sm_job_id = job_id, sm_extranonce2 = replicate 8 2,
     sm_ntime = 1700000000, sm_nonce = 42, sm_version_bits = Some 0\<rparr>"

definition sample_request :: "string \<Rightarrow> stratum_request" where
  "sample_request job_id = \<lparr>rq_id = JNull, rq_method = ''mining.submit'',
     rq_params = JArray [JString ''w'', JString job_id, JString (hex_encode sample_crates (replicate 8 2)),
       JString (fmt_hex 8 (unat (1700000000 :: u32))), JString (fmt_hex 8 (unat (42 :: u32))),
       JString (fmt_hex 8 (unat (0 :: u32)))]\<rparr>"

definition sample_io :: line_io where
  "sample_io = \<lparr>io_rate1 = 0, io_rate2 = 0, io_now = 0, io_restore = 0, io_stored = None,
     io_views = \<lambda>_. sample_view\<rparr>"

lemma share_verdict_guard: "share_verdict C params entry (s\<lparr>se_guard := g\<rparr>) = share_verdict C params entry s"
  by (simp add: share_verdict_def share_params_of_def worker_label_def)

lemma block_verdict_any_difficulty:
  assumes "validate_share_no_dedup C p job entry x d = Ok (Block a b c)"
  shows "validate_share_no_dedup C (p\<lparr>sp_worker := w, sp_job_id := i\<rparr>) job entry x d' = Ok (Block a b c)"
  using assms by (auto simp: validate_share_no_dedup_def Let_def split: if_splits)

text \<open>The engine after one refresh, and the verdict on the sample share for its job.\<close>

lemma sample_block_submission:
  obtains e job diff block hash where
    "en_rpc e = sample_rpc" "en_inflight_submits e = 0"
    "find_job (j_job_id job) e = Some (sample_entry job)"
    "share_verdict sample_crates (sample_submit (j_job_id job)) (sample_entry job) sample_session
       = Ok (Block diff block hash)"
proof -
  obtain e job effs where r: "refresh sample_crates 5 sample_view 0 0 False sample_engine = Ok (e, effs)"
    "fst (build_job sample_crates 5 7 sample_gbt ''bc1q'' sample_tag 4 8) = Ok job"
    "en_rpc e = sample_rpc" "find_job (j_job_id job) e = Some (sample_entry job)"
    using sample_refresh [of 0 0 False] by (auto simp: sample_entry_def)
  have "en_inflight_submits e = 0"
    using r(1) by (rule refresh_cases) (simp_all add: TemplateEngine_new_def)
  moreover obtain diff block hash where
    "validate_share_no_dedup sample_crates sample_params job (sample_entry job) (replicate 4 1) 1 = Ok (Block diff block hash)"
    using sample_share_is_block [OF r(2)] .
  moreover have "share_params_of sample_session (sample_submit (j_job_id job))
      = sample_params\<lparr>sp_worker := ''w'', sp_job_id := j_job_id job\<rparr>" "se_extranonce1 sample_session = replicate 4 1"
    by (simp_all add: share_params_of_def sample_session_def Session_new_def Let_def sample_submit_def
        sample_params_def worker_label_def)
  moreover have "je_job (sample_entry job) = job" by (simp add: sample_entry_def)
  ultimately show thesis
    using that [OF r(3) _ r(4), of diff block hash] block_verdict_any_difficulty by (simp add: share_verdict_def)
qed



theorem extranonce1_witness:
  "fst (generate_extranonce1 4 (of_nat 1)) \<noteq> fst (generate_extranonce1 4 (of_nat 2))"
  using extranonce1_distinct [of 1 2 4] by simp

theorem line_reader_witness:
  "read_line_bounded 8 [104] [[105], [13, 10, 120]] = (LineRead 2, [104, 105], [[120]])
   \<and> (\<exists>chunks'. read_line_bounded 8 [104] [[105], [13, 10, 120]]
        = (LineRead (length (strip_cr [104, 105, 13])), strip_cr [104, 105, 13], chunks') \<and> concat chunks' = [120])"
  using line_reader_is_exact_and_bounded [of "[104]" "[[105], [13, 10, 120]]" "[104, 105, 13]" "[120]" 8]
  by (simp add: strip_cr_def)

lemma sample_token:
  "ShareRateLimiter_try_consume 0 0 (sg_share_rate (se_guard sample_session))
     = (True, \<lparr>sr_tokens = Fin 49, sr_max_per_sec = Fin 50, sr_last_refill = 0\<rparr>)"
  by (simp add: sample_session_def Session_new_def Let_def sample_config_def SessionGuard_new_def
      ShareRateLimiter_new_def ShareRateLimiter_try_consume_def as_secs_zero f64_of_u64_def f64_min_def f64_sub_def)

lemma sample_request_read: "from_request sample_crates (sample_request job_id) = Ok (Submit (sample_submit job_id))"
proof -
  have "hex_decode sample_crates (hex_encode sample_crates b) = Some b" for b
    using sample_crates_ok(2) by (simp add: hex_ok_def)
  moreover have "u32_from_hex (fmt_hex 8 1700000000) = Some 1700000000" "u32_from_hex (fmt_hex 8 42) = Some 42"
    "u32_from_hex (fmt_hex 8 0) = Some 0"
    using u32_from_hex_fmt [of 1700000000] u32_from_hex_fmt [of 42] u32_from_hex_fmt [of 0] by simp_all
  ultimately have "SubmitParams_parse sample_crates (rq_params (sample_request job_id)) = Ok (sample_submit job_id)"
    by (simp add: sample_request_def sample_submit_def SubmitParams_parse_def str_at_def nth_opt_def opt_str_def)
  then show ?thesis by (simp add: from_request_def) (simp add: sample_request_def)
qed

theorem credited_share_witness:
  "\<exists>e (job :: stratum_job) res s' e' effs d.
     handle_line sample_crates (\<lambda>_. Some (sample_request (j_job_id job))) sample_io ''x'' e sample_session
       = Ok (res, s', e', effs)
     \<and> SLogShare ''w'' d \<in> set effs \<and> se_shares_accepted s' = 1"
proof -
  obtain e job diff block hash where x: "en_rpc e = sample_rpc"
    "find_job (j_job_id job) e = Some (sample_entry job)"
    "share_verdict sample_crates (sample_submit (j_job_id job)) (sample_entry job) sample_session
       = Ok (Block diff block hash)"
    using sample_block_submission by metis
  define s1 where "s1 = sample_session\<lparr>se_guard := (se_guard sample_session)
     \<lparr>sg_share_rate := \<lparr>sr_tokens = Fin 49, sr_max_per_sec = Fin 50, sr_last_refill = 0\<rparr>\<rparr>\<rparr>"
  have line: "handle_line sample_crates (\<lambda>_. Some (sample_request (j_job_id job))) sample_io ''x'' e sample_session
      = Ok (handle_submit sample_crates sample_io (sample_request (j_job_id job)) (sample_submit (j_job_id job)) e s1)"
  proof -
    have "str_trim ''x'' \<noteq> []" by (simp add: text_eval)
    then show ?thesis
      using sample_token sample_request_read [of "j_job_id job"]
      by (simp add: handle_line_def s1_def dispatch_def sample_io_def)
  qed
  have s: "se_authorized s1"
    "length (sm_extranonce2 (sample_submit (j_job_id job))) = se_extranonce2_size s1"
    "se_share_set s1 = ShareSet_new" "worker_label s1 = ''w''" "se_shares_accepted s1 = 0"
    by (simp_all add: s1_def sample_session_def Session_new_def Let_def sample_submit_def sample_config_def
        sample_pool_config_def worker_label_def)
  have v: "share_verdict sample_crates (sample_submit (j_job_id job)) (sample_entry job) s1 = Ok (Block diff block hash)"
    using x(3) by (simp only: s1_def share_verdict_guard)
  have t: "try_submit sample_view block sample_rpc = (Ok (), sample_rpc)"
    by (simp add: try_submit_def submit_block_def call_with_refresh_def rpc_call_def sample_view_def submit_answer_def)
  have "submit_attempts (\<lambda>_. sample_view) block [1, 2, 3] None (en_rpc e) = (InlineAccepted, sample_rpc, 0)"
    by (simp add: t x(1))
  note eq = submit_found_block_eq [OF this, of "j_height job" "hash_display_hex sample_crates hash" "''w''", simplified]
  obtain res s' e' effs where h: "handle_submit sample_crates sample_io (sample_request (j_job_id job))
      (sample_submit (j_job_id job)) e s1 = (res, s', e', effs)" using prod_cases4 by blast
  have wl: "worker_label (s1\<lparr>se_share_set := y\<rparr>) = ''w''" for y using s(4) by (simp add: worker_label_def)
  have entry: "je_job (sample_entry job) = job" "io_views sample_io = (\<lambda>_. sample_view)"
    by (simp_all add: sample_entry_def sample_io_def)
  have "\<exists>d. SLogShare ''w'' d \<in> set effs"
  proof -
    have j: "sm_job_id (sample_submit (j_job_id job)) = j_job_id job" by (simp add: sample_submit_def)
    have "settle_share sample_crates sample_io (rq_id (sample_request (j_job_id job))) (sample_entry job)
        (Ok (Block diff block hash)) e (s1\<lparr>se_share_set := ShareSet_insert ShareSet_new hash\<rparr>) = (res, s', e', effs)"
      using h s x(2) v
      by (simp add: handle_submit_def share_verdict_def [symmetric] j ShareSet_contains_def) (simp add: ShareSet_new_def)
    then show ?thesis using eq wl entry by (auto simp: settle_share_def Let_def split: prod.splits)
  qed
  then obtain d where d: "SLogShare ''w'' d \<in> set effs" by blast
  have "se_shares_accepted sample_session = 0"
    by (simp add: sample_session_def Session_new_def Let_def)
  with credited_share_is_valid [OF line [unfolded h] d] have "se_shares_accepted s' = 1" by auto
  with line [unfolded h] d show ?thesis by blast
qed

end
