(* ===== verification/Sv1_Device.thy ===== *)
theory Sv1_Device
  imports Session
begin

text \<open>
  A Stratum V1 device against the pool. The device reads the \<^verbatim>\<open>mining.notify\<close> message, builds the
  coinbase and the header from its hexadecimal fields with the extranonce it was given, hashes
  the header, and writes a \<^verbatim>\<open>mining.submit\<close> request. The definitions here are the protocol as a
  device follows it; the messages it reads and the requests it writes are those of \<open>Sv1\<close> and
  \<open>Session\<close>. The theorem shows that the pool reads the request back and judges the very hash the
  device has computed.
\<close>

section \<open>The device\<close>

record notice =
  nt_job_id :: string
  nt_prev_hash :: bytes
  nt_coinbase1 :: bytes
  nt_coinbase2 :: bytes
  nt_merkle_branch :: "bytes list"
  nt_version :: u32
  nt_bits :: u32

text \<open>Reading the fields of a notification by position, the numbers and bytes from hexadecimal.\<close>

definition notify_params :: "json \<Rightarrow> json list option" where
  "notify_params msg =
     (if Option.bind (json_get ''method'' msg) as_str = Some ''mining.notify''
      then Option.bind (json_get ''params'' msg) as_array else None)"

definition field :: "json list \<Rightarrow> nat \<Rightarrow> string option" where
  "field ps i = Option.bind (nth_opt ps i) as_str"

fun decode_all :: "crates \<Rightarrow> json list \<Rightarrow> bytes list option" where
  "decode_all C [] = Some []"
| "decode_all C (j # js) =
     (case (Option.bind (as_str j) (hex_decode C), decode_all C js) of
        (Some b, Some bs) \<Rightarrow> Some (b # bs) | _ \<Rightarrow> None)"

definition read_notify :: "crates \<Rightarrow> json \<Rightarrow> notice option" where
  "read_notify C msg =
     Option.bind (notify_params msg) (\<lambda>ps.
     Option.bind (field ps 0) (\<lambda>job_id.
     Option.bind (Option.bind (field ps 1) (hex_decode C)) (\<lambda>prev_hash.
     Option.bind (Option.bind (field ps 2) (hex_decode C)) (\<lambda>coinbase1.
     Option.bind (Option.bind (field ps 3) (hex_decode C)) (\<lambda>coinbase2.
     Option.bind (Option.bind (Option.bind (nth_opt ps 4) as_array) (decode_all C)) (\<lambda>branch.
     Option.bind (Option.bind (field ps 5) u32_from_hex) (\<lambda>version.
     Option.bind (Option.bind (field ps 6) u32_from_hex) (\<lambda>bits.
       Some \<lparr>nt_job_id = job_id, nt_prev_hash = prev_hash, nt_coinbase1 = coinbase1, nt_coinbase2 = coinbase2,
             nt_merkle_branch = branch, nt_version = version, nt_bits = bits\<rparr>))))))))"

text \<open>
  The version the device hashes: with a negotiated mask, the bits it rolls replace those of the
  announced version under the mask. The previous hash comes in words of swapped byte order.
\<close>

definition rolled_version :: "u32 option \<Rightarrow> u32 \<Rightarrow> u32 \<Rightarrow> u32" where
  "rolled_version negotiated roll version =
     (case negotiated of None \<Rightarrow> version | Some m \<Rightarrow> (version AND NOT m) OR (roll AND m))"

definition sv1_device_header :: "crates \<Rightarrow> notice \<Rightarrow> bytes \<Rightarrow> bytes \<Rightarrow> u32 \<Rightarrow> u32 \<Rightarrow> u32 \<Rightarrow> bytes" where
  "sv1_device_header C nt extranonce1 extranonce2 version ntime nonce =
     (let coinbase = nt_coinbase1 nt @ extranonce1 @ extranonce2 @ nt_coinbase2 nt;
          mroot = merkle_fold (sha256 C) (double_sha256 (sha256 C) coinbase) (nt_merkle_branch nt)
      in header_bytes version (rev_words (nt_prev_hash nt)) mroot ntime (nt_bits nt) nonce)"

definition sv1_submission ::
  "crates \<Rightarrow> string \<Rightarrow> notice \<Rightarrow> bytes \<Rightarrow> u32 \<Rightarrow> u32 \<Rightarrow> u32 option \<Rightarrow> u32 \<Rightarrow> json" where
  "sv1_submission C worker nt extranonce2 ntime nonce negotiated roll =
     JArray ([JString worker, JString (nt_job_id nt), JString (hex_encode C extranonce2),
              JString (fmt_hex 8 (unat ntime)), JString (fmt_hex 8 (unat nonce))]
             @ (case negotiated of None \<Rightarrow> [] | Some m \<Rightarrow> [JString (fmt_hex 8 (unat (roll AND m)))]))"

definition session_mask :: "session \<Rightarrow> u32 option" where
  "session_mask s = (if se_version_rolling_enabled s then Some (se_version_rolling_mask s) else None)"

section \<open>Lemmas\<close>

lemma decode_all_encoded: "hex_ok C \<Longrightarrow> decode_all C (map JString (map (hex_encode C) bs)) = Some bs"
  by (induction bs) (simp_all add: hex_ok_def)

lemma build_job_branch:
  "fst (build_job C millis counter gbt address tag en1 en2) = Ok job \<Longrightarrow>
     j_merkle_branch job = map (hex_encode C) (j_merkle_branch_raw job)"
  by (auto simp: build_job_def Let_def split: prod.splits if_splits)

lemma read_notify_build:
  assumes "hex_ok C" and "fst (build_job C millis counter gbt address tag en1 en2) = Ok job"
    and "hex_decode C (j_prev_hash job) = Some prev" and "u32_from_hex (j_bits job) = Some bits"
  shows "read_notify C (build_notify C job clean) =
     Some \<lparr>nt_job_id = j_job_id job, nt_prev_hash = prev, nt_coinbase1 = j_coinbase1 job,
           nt_coinbase2 = j_coinbase2 job, nt_merkle_branch = j_merkle_branch_raw job,
           nt_version = j_version job, nt_bits = bits\<rparr>"
proof -
  have h: "hex_decode C (hex_encode C b) = Some b" for b using assms(1) by (simp add: hex_ok_def)
  have "decode_all C (map JString (j_merkle_branch job)) = Some (j_merkle_branch_raw job)"
    unfolding build_job_branch [OF assms(2)] by (rule decode_all_encoded [OF assms(1)])
  then show ?thesis
    using assms(3,4)
    by (simp add: read_notify_def build_notify_def resp_notify_def notification_def notify_params_def field_def
        nth_opt_def u32_from_hex_fmt h)
qed

lemma submission_read_back:
  assumes "hex_ok C" and "rq_method req = ''mining.submit''"
    and "rq_params req = sv1_submission C worker nt extranonce2 ntime nonce negotiated roll"
  shows "from_request C req = Ok (Submit \<lparr>sm_worker = worker, sm_job_id = nt_job_id nt, sm_extranonce2 = extranonce2,
     sm_ntime = ntime, sm_nonce = nonce, sm_version_bits = map_option (\<lambda>m. roll AND m) negotiated\<rparr>)"
  using assms
  by (cases negotiated) (simp_all add: from_request_def sv1_submission_def SubmitParams_parse_def str_at_def nth_opt_def
      opt_str_def u32_from_hex_fmt hex_ok_def)

lemma resolve_rolled:
  "resolve_version base (map_option (\<lambda>m. roll AND m) negotiated) negotiated = Ok (rolled_version negotiated roll base)"
  by (cases negotiated) (simp_all add: resolve_version_def rolled_version_def and.assoc)

section \<open>Properties\<close>

text \<open>
  C13: What a Stratum V1 device hashes is what the pool judges. The device builds its header from the
  notification of a live job, its extranonces, an admissible time and the bits it may roll, and
  writes a submission; the pool reads back exactly these values, and its verdict is decided by
  the device's own hash: a block exactly when it is at most the target the announced bits stand
  for, otherwise a share exactly when it is worth the floor difficulty, otherwise refused as
  too easy.
\<close>

theorem sv1_device_hash_is_judged:
  assumes C: "sha256_ok C" "hex_ok C" "serialize_ok C"
    and gbt: "utf8_valid tag" "unat (g_height gbt) < 2 ^ 31" "length tag + en1 + en2 \<le> 65000"
      "1 + length (g_transactions gbt) < 2 ^ 64"
    and job: "fst (build_job C millis counter gbt address tag en1 en2) = Ok job"
    and entry: "je_job entry = job" "\<not> je_superseded_by_clean entry"
    and notify: "read_notify C (build_notify C job clean) = Some nt"
    and width: "length (se_extranonce1 s) = en1" "length extranonce2 = en2"
    and ntime: "check_ntime ntime (j_min_time job) (j_cur_time job) = Ok ()"
    and req: "rq_method req = ''mining.submit''"
      "rq_params req = sv1_submission C worker nt extranonce2 ntime nonce (session_mask s) roll"
  shows "\<exists>params. from_request C req = Ok (Submit params) \<and> sm_job_id params = j_job_id job
     \<and> length (sm_extranonce2 params) = en2
     \<and> (let hash = double_sha256 (sha256 C) (sv1_device_header C nt (se_extranonce1 s) extranonce2
                     (rolled_version (session_mask s) roll (nt_version nt)) ntime nonce);
            d = vc_min_difficulty (se_vardiff_cfg s);
            verdict = share_verdict C params entry s
        in if le_val hash \<le> compact_value (nt_bits nt)
           then \<exists>block. verdict = Ok (Block (hash_to_difficulty hash) block hash)
           else if le_val hash * max 1 (unat d) \<le> diff1_value
           then verdict = Ok (Valid d (hash_to_difficulty hash) hash)
           else verdict = Err LowDifficulty)"
proof -
  define params where "params = \<lparr>sm_worker = worker, sm_job_id = nt_job_id nt, sm_extranonce2 = extranonce2,
     sm_ntime = ntime, sm_nonce = nonce, sm_version_bits = map_option (\<lambda>m. roll AND m) (session_mask s)\<rparr>"
  have r: "from_request C req = Ok (Submit params)"
    unfolding params_def by (rule submission_read_back [OF C(2) req])
  obtain prev x bits where f: "hex_decode C (g_prev_hash gbt) = Some prev" "hex_decode C (j_prev_hash job) = Some x"
    "rev_words x = rev prev" "u32_from_hex (g_bits gbt) = Some bits" "j_bits job = g_bits gbt"
    using build_job_header_fields [OF C(2) job] by metis
  have nt: "nt = \<lparr>nt_job_id = j_job_id job, nt_prev_hash = x, nt_coinbase1 = j_coinbase1 job,
           nt_coinbase2 = j_coinbase2 job, nt_merkle_branch = j_merkle_branch_raw job,
           nt_version = j_version job, nt_bits = bits\<rparr>"
    using read_notify_build [OF C(2) job f(2)] f(4,5) notify by simp
  have cb: "assemble_coinbase job (se_extranonce1 s) (sp_extranonce2 (share_params_of s params))
      = Ok (j_coinbase1 job @ se_extranonce1 s @ extranonce2 @ j_coinbase2 job)"
    using build_job_coinbase [OF C(3) gbt(1-3) job] width by (simp add: share_params_of_def params_def) metis
  have v: "share_verdict C params entry s = share_outcome C (share_params_of s params) job (je_superseded_by_clean entry)
      (j_coinbase1 job @ se_extranonce1 s @ extranonce2 @ j_coinbase2 job) prev bits (vc_min_difficulty (se_vardiff_cfg s))"
    using validate_share_outcome [OF C(1,2) job cb gbt(4), of entry "vc_min_difficulty (se_vardiff_cfg s)"] f(1,4) entry(1)
    unfolding share_verdict_def by (metis option.inject)
  have "resolve_version (j_version job) (sp_version_bits (share_params_of s params))
      (sp_version_rolling_mask (share_params_of s params)) = Ok (rolled_version (session_mask s) roll (j_version job))"
    using resolve_rolled [of "j_version job" roll "session_mask s"]
    by (cases "se_version_rolling_enabled s") (simp_all add: share_params_of_def params_def session_mask_def)
  moreover have "check_ntime (sp_ntime (share_params_of s params)) (j_min_time job) (j_cur_time job) = Ok ()"
    "sp_ntime (share_params_of s params) = ntime" "sp_nonce (share_params_of s params) = nonce"
    using ntime by (simp_all add: share_params_of_def params_def)
  ultimately have "let hash = double_sha256 (sha256 C) (sv1_device_header C nt (se_extranonce1 s) extranonce2
                     (rolled_version (session_mask s) roll (nt_version nt)) ntime nonce);
            d = vc_min_difficulty (se_vardiff_cfg s); verdict = share_verdict C params entry s
        in if le_val hash \<le> compact_value (nt_bits nt)
           then \<exists>block. verdict = Ok (Block (hash_to_difficulty hash) block hash)
           else if le_val hash * max 1 (unat d) \<le> diff1_value
           then verdict = Ok (Valid d (hash_to_difficulty hash) hash)
           else verdict = Err LowDifficulty"
    using entry(2) unfolding v share_outcome_def sv1_device_header_def
    by (simp add: nt Let_def f(3) merkle_root_def)
  moreover have "sm_job_id params = j_job_id job" "length (sm_extranonce2 params) = en2"
    using width(2) by (simp_all add: params_def nt)
  ultimately show ?thesis using r by blast
qed

subsection \<open>Instances\<close>

definition sample_device_request :: "notice \<Rightarrow> stratum_request" where
  "sample_device_request nt = \<lparr>rq_id = JNull, rq_method = ''mining.submit'',
     rq_params = sv1_submission sample_crates ''w'' nt (replicate 8 2) 1700000000 42 (session_mask sample_session) 0\<rparr>"

lemma sample_session_fields:
  "session_mask sample_session = None" "length (se_extranonce1 sample_session) = 4"
  by (simp_all add: session_mask_def sample_session_def Session_new_def Let_def)

theorem sv1_device_hash_witness:
  "\<exists>job nt params block hash. fst (build_job sample_crates 5 7 sample_gbt ''bc1q'' sample_tag 4 8) = Ok job
     \<and> read_notify sample_crates (build_notify sample_crates job True) = Some nt
     \<and> from_request sample_crates (sample_device_request nt) = Ok (Submit params)
     \<and> hash = double_sha256 (sha256 sample_crates) (sv1_device_header sample_crates nt (replicate 4 1) (replicate 8 2)
          (nt_version nt) 1700000000 42)
     \<and> share_verdict sample_crates params (sample_entry job) sample_session = Ok (Block (hash_to_difficulty hash) block hash)"
proof -
  obtain job where job: "fst (build_job sample_crates 5 7 sample_gbt ''bc1q'' sample_tag 4 8) = Ok job"
    using sample_job_built by blast
  obtain prev x bits where f: "hex_decode sample_crates (j_prev_hash job) = Some x"
    "u32_from_hex (g_bits sample_gbt) = Some bits" "j_bits job = g_bits sample_gbt"
    using build_job_header_fields [OF sample_crates_ok(2) job] by metis
  obtain nt where nt: "read_notify sample_crates (build_notify sample_crates job True) = Some nt"
    using read_notify_build [OF sample_crates_ok(2) job f(1)] f(2,3) by simp
  obtain diff block hash where "validate_share_no_dedup sample_crates sample_params job (sample_entry job) (replicate 4 1) 1
      = Ok (Block diff block hash)"
    using sample_share_is_block [OF job] .
  then have "validate_share_no_dedup sample_crates (sample_params\<lparr>sp_worker := ''w'', sp_job_id := i\<rparr>) job
      (sample_entry job) (replicate 4 1) d = Ok (Block diff block hash)" for i d
    by (rule block_verdict_any_difficulty)
  moreover have s: "se_extranonce1 sample_session = replicate 4 1"
    "share_params_of sample_session \<lparr>sm_worker = ''w'', sm_job_id = i, sm_extranonce2 = replicate 8 2,
       sm_ntime = 1700000000, sm_nonce = 42, sm_version_bits = None\<rparr>
     = sample_params\<lparr>sp_worker := ''w'', sp_job_id := i\<rparr>" for i
    by (simp_all add: share_params_of_def sample_session_def Session_new_def Let_def sample_params_def worker_label_def)
  ultimately have v: "share_verdict sample_crates \<lparr>sm_worker = ''w'', sm_job_id = i, sm_extranonce2 = replicate 8 2,
       sm_ntime = 1700000000, sm_nonce = 42, sm_version_bits = None\<rparr> (sample_entry job) sample_session
      = Ok (Block diff block hash)" for i
    by (simp add: share_verdict_def sample_entry_def)
  have e: "je_job (sample_entry job) = job" "\<not> je_superseded_by_clean (sample_entry job)" by (simp_all add: sample_entry_def)
  have t: "check_ntime 1700000000 (j_min_time job) (j_cur_time job) = Ok ()"
    using job by (auto elim!: build_job_fields simp: sample_gbt_def check_ntime_Ok_iff)
  have q: "rq_method (sample_device_request nt) = ''mining.submit''"
    "rq_params (sample_device_request nt) = sv1_submission sample_crates ''w'' nt (replicate 8 2) 1700000000 42 (session_mask sample_session) 0"
    by (simp_all add: sample_device_request_def)
  note r = submission_read_back [OF sample_crates_ok(2) q, unfolded sample_session_fields option.map(1)]
  have g: "1 + length (g_transactions sample_gbt) < 2 ^ 64" "length (replicate 8 (2 :: byte)) = 8"
    by (simp_all add: sample_gbt_def)
  note judged = sv1_device_hash_is_judged [OF sample_crates_ok sample_build_hyps g(1) job e nt sample_session_fields(2) g(2) t q]
  show ?thesis
    using judged job nt r v
    by (auto simp: Let_def s(1) sample_session_fields(1) rolled_version_def split: if_splits)
qed

end
