(* ===== verification/Sv2.thy ===== *)
theory Sv2
  imports Session
begin

text \<open>
  \<^verbatim>\<open>src/src/protocol/sv2/\<close> (\<^verbatim>\<open>messages.rs\<close>, \<^verbatim>\<open>job.rs\<close>, \<^verbatim>\<open>mod.rs\<close>): the Stratum V2 frontend over
  the same mining core. Payloads are encoded and decoded by the \<^verbatim>\<open>binary_sv2\<close> and message
  crates, which are a parameter (\<open>sv2_codec\<close>); outgoing messages are values with the fields the
  source fills in, and an encoding fails exactly when a field exceeds the length its type
  allows. The writer may fail at any frame, which is an input of the handlers. The lemmas at
  the end are on the map from channel job ids to jobs; those on sessions are in
  \<open>Sv2_Session\<close>.
\<close>

section \<open>Frames and messages\<close>

definition CHANNEL_MSG_BIT :: u16 where
  "CHANNEL_MSG_BIT = 0x8000"

definition frame_bytes :: "byte \<Rightarrow> bool \<Rightarrow> bytes \<Rightarrow> bytes" where
  "frame_bytes msg_type channel_msg payload =
     (let ext = (if channel_msg then CHANNEL_MSG_BIT else 0)
      in u16_to_le_bytes ext @ [msg_type] @ take 3 (u32_to_le_bytes (of_nat (length payload))) @ payload)"

definition FLAG_REQUIRES_STANDARD_JOBS :: u32 where
  "FLAG_REQUIRES_STANDARD_JOBS = 1"

definition FLAG_REQUIRES_WORK_SELECTION :: u32 where
  "FLAG_REQUIRES_WORK_SELECTION = 2"

definition UNSUPPORTED_SETUP_FLAGS :: u32 where
  "UNSUPPORTED_SETUP_FLAGS = FLAG_REQUIRES_STANDARD_JOBS OR FLAG_REQUIRES_WORK_SELECTION"

definition SV2_PROTOCOL_VERSION :: u16 where
  "SV2_PROTOCOL_VERSION = 2"

datatype sv2_protocol = MiningProtocol | JobDeclarationProtocol | TemplateDistributionProtocol

record setup_conn =
  su_protocol :: sv2_protocol
  su_min_version :: u16
  su_max_version :: u16
  su_flags :: u32

record open_extended =
  oe_request_id :: u32
  oe_user_identity :: string
  oe_max_target :: bytes
  oe_min_extranonce_size :: u16

record submit_extended =
  sx_channel_id :: u32
  sx_sequence_number :: u32
  sx_job_id :: u32
  sx_nonce :: u32
  sx_ntime :: u32
  sx_version :: u32
  sx_extranonce :: bytes

text \<open>
  The message crates: the numbers of the three message types the pool handles and the
  decoders of their payloads, before the source copies the fields (the identity is raw bytes).
\<close>

record sv2_codec =
  mt_setup_connection :: byte
  mt_open_extended :: byte
  mt_submit_extended :: byte
  dec_setup :: "bytes \<Rightarrow> setup_conn option"
  dec_open :: "bytes \<Rightarrow> (u32 \<times> bytes \<times> bytes \<times> u16) option"
  dec_submit :: "bytes \<Rightarrow> submit_extended option"

text \<open>
  \<open>String::from_utf8_lossy\<close>: each maximal ill-formed sequence becomes the replacement
  character.
\<close>

definition well_formed_tail :: "byte \<Rightarrow> bytes \<Rightarrow> nat" where
  "well_formed_tail a s =
     (case s of
        [] \<Rightarrow> 0
      | b # rest \<Rightarrow>
          if cont_byte b \<and> utf8_second_ok a b
          then 1 + length (takeWhile cont_byte (take (utf8_width a - 2) rest)) else 0)"

fun utf8_lossy :: "bytes \<Rightarrow> bytes" where
  "utf8_lossy [] = []"
| "utf8_lossy (a # s) =
     (let n = utf8_width a; m = well_formed_tail a s
      in if n = 0 then [0xEF, 0xBF, 0xBD] @ utf8_lossy s
         else if n = 1 then a # utf8_lossy s
         else if m = n - 1 then a # take m s @ utf8_lossy (drop m s)
         else [0xEF, 0xBF, 0xBD] @ utf8_lossy (drop m s))"

definition decode_open_extended :: "sv2_codec \<Rightarrow> bytes \<Rightarrow> open_extended option" where
  "decode_open_extended K payload =
     (case dec_open K payload of
        None \<Rightarrow> None
      | Some (request_id, user_identity, max_target, min_extranonce_size) \<Rightarrow>
          Some \<lparr>oe_request_id = request_id,
                oe_user_identity = map (\<lambda>b. char_of (unat b)) (utf8_lossy user_identity),
                oe_max_target = max_target, oe_min_extranonce_size = min_extranonce_size\<rparr>)"

section \<open>Jobs\<close>

definition difficulty_to_sv2_target :: "u64 \<Rightarrow> bytes" where
  "difficulty_to_sv2_target difficulty = rev (difficulty_to_target difficulty)"

definition sv2_target_le :: "bytes \<Rightarrow> bytes \<Rightarrow> bool" where
  "sv2_target_le a b = lex_le (rev a) (rev b)"

definition stratum_prevhash_to_internal :: "crates \<Rightarrow> string \<Rightarrow> bytes option" where
  "stratum_prevhash_to_internal C stratum_hex =
     (case hex_decode C stratum_hex of
        None \<Rightarrow> None
      | Some bs \<Rightarrow> if length bs \<noteq> 32 then None else Some (rev_words bs))"

record new_extended_job =
  ne_channel_id :: u32
  ne_job_id :: u32
  ne_min_ntime :: "u32 option"
  ne_version :: u32
  ne_version_rolling_allowed :: bool
  ne_merkle_path :: "bytes list"
  ne_coinbase_prefix :: bytes
  ne_coinbase_suffix :: bytes

record set_new_prev_hash =
  sn_channel_id :: u32
  sn_job_id :: u32
  sn_prev_hash :: bytes
  sn_min_ntime :: u32
  sn_nbits :: u32

text \<open>A sequence field holds at most 255 hashes, a byte field at most 65535 bytes.\<close>

definition build_new_extended_job :: "stratum_job \<Rightarrow> u32 \<Rightarrow> u32 \<Rightarrow> bool \<Rightarrow> new_extended_job option" where
  "build_new_extended_job job channel_id job_id future =
     (if length (j_merkle_branch_raw job) \<le> 255 \<and> length (j_coinbase1 job) \<le> 65535
         \<and> length (j_coinbase2 job) \<le> 65535
      then Some \<lparr>ne_channel_id = channel_id, ne_job_id = job_id,
             ne_min_ntime = (if future then None else Some (j_cur_time job)),
             ne_version = j_version job, ne_version_rolling_allowed = True,
             ne_merkle_path = j_merkle_branch_raw job,
             ne_coinbase_prefix = j_coinbase1 job, ne_coinbase_suffix = j_coinbase2 job\<rparr>
      else None)"

definition build_set_new_prev_hash :: "crates \<Rightarrow> stratum_job \<Rightarrow> u32 \<Rightarrow> u32 \<Rightarrow> set_new_prev_hash option" where
  "build_set_new_prev_hash C job channel_id job_id =
     (case stratum_prevhash_to_internal C (j_prev_hash job) of
        None \<Rightarrow> None
      | Some prev \<Rightarrow>
          (case u32_from_hex (j_bits job) of
             None \<Rightarrow> None
           | Some nbits \<Rightarrow>
               Some \<lparr>sn_channel_id = channel_id, sn_job_id = job_id, sn_prev_hash = prev,
                     sn_min_ntime = j_cur_time job, sn_nbits = nbits\<rparr>))"

section \<open>Session\<close>

datatype sv2_message =
    SetupConnectionSuccess u16 u32
  | SetupConnectionError u32 string
  | OpenExtendedSuccess u32 u32 bytes u16 bytes u32
  | OpenMiningChannelError u32
  | SetTarget u32 bytes
  | NewExtendedMiningJob new_extended_job
  | SetNewPrevHash set_new_prev_hash
  | SubmitSharesSuccess u32 u32 u32 u64
  | SubmitSharesError u32 u32 string

record sv2_session =
  s2_peer :: string
  s2_worker :: "string option"
  s2_setup_done :: bool
  s2_channel_open :: bool
  s2_channel_id :: u32
  s2_extranonce_prefix :: bytes
  s2_extranonce_size :: nat
  s2_extranonce_total :: nat
  s2_difficulty :: u64
  s2_vardiff :: vardiff
  s2_vardiff_cfg :: vardiff_config
  s2_share_set :: share_set
  s2_guard :: session_guard
  s2_job_ids :: "(u32 \<times> string) list"
  s2_next_job_id :: u32
  s2_pending_job :: "stratum_job option"
  s2_shares_accepted :: u64
  s2_shares_rejected :: u64
  s2_connect_time :: nat

text \<open>The two process-wide counters: channel ids and extranonces.\<close>

record sv2_globals =
  gl_channel_id :: u32
  gl_extranonce1 :: u64

text \<open>What a handler reads from outside; \<open>ix_write k\<close> says whether the \<open>k\<close>-th frame can be written.\<close>

record sv2_io = line_io +
  ix_write :: "nat \<Rightarrow> bool"

datatype flow = Continue | FlowDisconnect string

definition Sv2Session_new ::
  "nat \<Rightarrow> nat \<Rightarrow> nat \<Rightarrow> nat \<Rightarrow> string \<Rightarrow> config \<Rightarrow> bytes \<Rightarrow> sv2_session" where
  "Sv2Session_new now1 now2 now3 now4 peer cfg extranonce_prefix =
     (let initial_diff = pc_initial_difficulty (c_pool cfg)
      in \<lparr>s2_peer = peer, s2_worker = None, s2_setup_done = False, s2_channel_open = False,
          s2_channel_id = 0, s2_extranonce_prefix = extranonce_prefix,
          s2_extranonce_size = pc_extranonce2_size (c_pool cfg),
          s2_extranonce_total = pc_extranonce1_size (c_pool cfg) + pc_extranonce2_size (c_pool cfg),
          s2_difficulty = initial_diff, s2_vardiff = Vardiff_new now1 now2 (c_vardiff cfg) initial_diff,
          s2_vardiff_cfg = c_vardiff cfg, s2_share_set = ShareSet_new,
          s2_guard = SessionGuard_new now3 (c_security cfg), s2_job_ids = [], s2_next_job_id = 1,
          s2_pending_job = None, s2_shares_accepted = 0, s2_shares_rejected = 0,
          s2_connect_time = now4\<rparr>)"

definition assign_job_id :: "string \<Rightarrow> sv2_session \<Rightarrow> u32 \<times> sv2_session" where
  "assign_job_id engine_job_id s =
     (let id' = s2_next_job_id s;
          nxt = s2_next_job_id s + 1;
          ids = s2_job_ids s @ [(id', engine_job_id)]
      in (id', s\<lparr>s2_next_job_id := (if nxt = 0 then 1 else nxt),
                 s2_job_ids := drop (length ids - 16) ids\<rparr>))"

definition engine_job_id :: "sv2_session \<Rightarrow> u32 \<Rightarrow> string option" where
  "engine_job_id s sv2_job_id = map_option snd (find (\<lambda>(j, _). j = sv2_job_id) (s2_job_ids s))"

text \<open>
  Sending stops at the first frame that cannot be written or encoded; the result says
  whether all frames went out, and which did.
\<close>

fun send_frames :: "(nat \<Rightarrow> bool) \<Rightarrow> nat \<Rightarrow> sv2_message option list \<Rightarrow> bool \<times> sv2_message list" where
  "send_frames w k [] = (True, [])"
| "send_frames w k (None # ms) = (False, [])"
| "send_frames w k (Some m # ms) =
     (if w k then (let (ok, sent) = send_frames w (Suc k) ms in (ok, m # sent)) else (False, []))"

definition send_job ::
  "crates \<Rightarrow> (nat \<Rightarrow> bool) \<Rightarrow> nat \<Rightarrow> stratum_job \<Rightarrow> bool \<Rightarrow> sv2_session \<Rightarrow> bool \<times> sv2_session \<times> sv2_message list" where
  "send_job C w k job future s =
     (let (sv2_job_id, s1) = assign_job_id (j_job_id job) s;
          new_job = map_option NewExtendedMiningJob
            (build_new_extended_job job (s2_channel_id s1) sv2_job_id future);
          snph = map_option SetNewPrevHash (build_set_new_prev_hash C job (s2_channel_id s1) sv2_job_id);
          (ok, sent) = send_frames w k (if future then [new_job, snph] else [new_job])
      in (ok, s1, sent))"

text \<open>A string field holds at most 255 bytes.\<close>

definition error_code_fits :: "string \<Rightarrow> bool" where
  "error_code_fits code \<longleftrightarrow> length code \<le> 255"

definition sv2_accept :: "(nat \<Rightarrow> bool) \<Rightarrow> u32 \<Rightarrow> sv2_session \<Rightarrow> flow \<times> sv2_message list" where
  "sv2_accept w seq s =
     (let (ok, sent) = send_frames w 0 [Some (SubmitSharesSuccess (s2_channel_id s) seq 1 (s2_difficulty s))]
      in (if ok then Continue else FlowDisconnect ''write'', sent))"

definition sv2_reject :: "(nat \<Rightarrow> bool) \<Rightarrow> u32 \<Rightarrow> string \<Rightarrow> sv2_session \<Rightarrow> flow \<times> sv2_message list" where
  "sv2_reject w seq code s =
     (let (ok, sent) = send_frames w 0
            [if error_code_fits code then Some (SubmitSharesError (s2_channel_id s) seq code) else None]
      in (if ok then Continue
          else FlowDisconnect (if error_code_fits code then ''write'' else ''encode SubmitSharesError''), sent))"


section \<open>Message handlers\<close>

text \<open>
  The reason of a disconnect is the source's text without the crate's error appended to it;
  a pair of the frames written and the calls on the statistics and metrics goes with it.
\<close>

type_synonym sv2_handled = "flow \<times> sv2_session \<times> sv2_message list \<times> session_effect list"

definition sv2_worker_label :: "sv2_session \<Rightarrow> string" where
  "sv2_worker_label s = (case s2_worker s of Some w \<Rightarrow> w | None \<Rightarrow> ''?'')"

definition setup_error :: "(nat \<Rightarrow> bool) \<Rightarrow> string \<Rightarrow> u32 \<Rightarrow> string \<Rightarrow> sv2_session \<Rightarrow> sv2_handled" where
  "setup_error w code flags reason s =
     (let (_, sent) = send_frames w 0 [if error_code_fits code then Some (SetupConnectionError flags code) else None]
      in (FlowDisconnect reason, s, sent, []))"

definition handle_setup_connection :: "sv2_codec \<Rightarrow> (nat \<Rightarrow> bool) \<Rightarrow> bytes \<Rightarrow> sv2_session \<Rightarrow> sv2_handled" where
  "handle_setup_connection K w payload s =
     (case dec_setup K payload of
        None \<Rightarrow> (FlowDisconnect ''bad SetupConnection'', s, [], [])
      | Some setup \<Rightarrow>
          if su_protocol setup \<noteq> MiningProtocol then
            setup_error w ''unsupported-protocol'' 0 ''unsupported sub-protocol'' s
          else if su_min_version setup > SV2_PROTOCOL_VERSION \<or> su_max_version setup < SV2_PROTOCOL_VERSION then
            setup_error w ''protocol-version-mismatch'' 0
              (''unsupported SV2 version range '' @ fmt_dec (unat (su_min_version setup)) @ ''..''
               @ fmt_dec (unat (su_max_version setup))) s
          else if su_flags setup AND UNSUPPORTED_SETUP_FLAGS \<noteq> 0 then
            setup_error w ''unsupported-feature-flags'' UNSUPPORTED_SETUP_FLAGS ''unsupported feature flags'' s
          else
            let (ok, sent) = send_frames w 0 [Some (SetupConnectionSuccess SV2_PROTOCOL_VERSION 0)]
            in (if ok then Continue else FlowDisconnect ''write'', s\<lparr>s2_setup_done := True\<rparr>, sent, []))"

text \<open>The old identity leaves: its statistics are closed and its share history put aside.\<close>

definition sv2_leave_worker :: "nat \<Rightarrow> sv2_session \<Rightarrow> sv2_session \<times> session_effect list" where
  "sv2_leave_worker now s =
     (case s2_worker s of
        None \<Rightarrow> (s, [])
      | Some prev \<Rightarrow>
          (let (history, v) = take_share_history now (s2_vardiff s)
           in (s\<lparr>s2_worker := None, s2_vardiff := v\<rparr>,
               [SMarkWorkerOffline prev, SStashShareHistory prev history])))"

definition sv2_join_worker :: "('a line_io_scheme) \<Rightarrow> string \<Rightarrow> sv2_session \<Rightarrow> sv2_session \<times> session_effect list" where
  "sv2_join_worker io worker s =
     ((case io_stored io of
         None \<Rightarrow> s
       | Some history \<Rightarrow> s\<lparr>s2_vardiff := restore_share_history (io_restore io) history (s2_vardiff s)\<rparr>),
      [SMarkWorkerOnline worker (s2_difficulty s), SSetWorkerProtocol worker ''sv2'', STakeShareHistory worker])"

text \<open>Granting the request: the split of the extranonce, the channel id and the target.\<close>

definition grant_channel :: "sv2_globals \<Rightarrow> open_extended \<Rightarrow> sv2_session \<Rightarrow> (bytes \<times> sv2_session \<times> sv2_globals) result" where
  "grant_channel gl op s =
     (let granted = max 1 (unat (oe_min_extranonce_size op))
      in if s2_extranonce_total s < granted then Panic
         else
           let prefix_len = s2_extranonce_total s - granted;
               (pre, counter) = generate_extranonce1 prefix_len (gl_extranonce1 gl);
               target = difficulty_to_sv2_target (s2_difficulty s)
           in Ok (if sv2_target_le target (oe_max_target op) then target else oe_max_target op,
                  s\<lparr>s2_extranonce_size := granted, s2_extranonce_prefix := pre,
                    s2_channel_id := gl_channel_id gl, s2_worker := Some (oe_user_identity op)\<rparr>,
                  \<lparr>gl_channel_id = gl_channel_id gl + 1, gl_extranonce1 = counter\<rparr>))"

text \<open>The success message, the open channel and the first job.\<close>

definition announce_channel ::
  "crates \<Rightarrow> (nat \<Rightarrow> bool) \<Rightarrow> u32 \<Rightarrow> bytes \<Rightarrow> sv2_session \<Rightarrow> flow \<times> sv2_session \<times> sv2_message list" where
  "announce_channel C w request_id target s =
     (if length (s2_extranonce_prefix s) > 32
      then (FlowDisconnect ''encode OpenExtendedMiningChannelSuccess'', s, [])
      else
        let (ok, sent) = send_frames w 0 [Some (OpenExtendedSuccess request_id (s2_channel_id s) target
              (of_nat (s2_extranonce_size s)) (s2_extranonce_prefix s) 0)]
        in if \<not> ok then (FlowDisconnect ''write'', s, sent)
           else
             let s1 = s\<lparr>s2_channel_open := True\<rparr>
             in case s2_pending_job s1 of
                  None \<Rightarrow> (Continue, s1, sent)
                | Some job \<Rightarrow>
                    (let (ok2, s2, sent2) = send_job C w 1 job True s1
                     in (if ok2 then Continue else FlowDisconnect ''write'', s2, sent @ sent2)))"

definition open_channel ::
  "crates \<Rightarrow> 'a sv2_io_scheme \<Rightarrow> open_extended \<Rightarrow> sv2_globals \<Rightarrow> sv2_session \<Rightarrow> (sv2_handled \<times> sv2_globals) result" where
  "open_channel C io op gl s =
     (let is_new_identity = (s2_worker s \<noteq> Some (oe_user_identity op));
          (allowed, g) = (if is_new_identity then SessionGuard_record_new_authorization (s2_guard s)
                          else (True, s2_guard s));
          s1 = s\<lparr>s2_guard := g\<rparr>
      in if \<not> allowed then Ok ((FlowDisconnect ''too many worker identities'', s1, [], []), gl)
         else
           let (s2, left) = (if is_new_identity then sv2_leave_worker (io_now io) s1 else (s1, []))
           in obind (grant_channel gl op s2) (\<lambda>(target, s3, gl1).
                let (s4, joined) = (if is_new_identity then sv2_join_worker io (oe_user_identity op) s3 else (s3, []));
                    (fl, s5, sent) = announce_channel C (ix_write io) (oe_request_id op) target s4
                in Ok ((fl, s5, sent, left @ joined), gl1)))"

definition handle_open_extended ::
  "crates \<Rightarrow> sv2_codec \<Rightarrow> 'a sv2_io_scheme \<Rightarrow> bytes \<Rightarrow> sv2_globals \<Rightarrow> sv2_session \<Rightarrow> (sv2_handled \<times> sv2_globals) result" where
  "handle_open_extended C K io payload gl s =
     (if \<not> s2_setup_done s
      then Ok ((FlowDisconnect ''OpenExtendedMiningChannel before SetupConnection'', s, [], []), gl)
      else case decode_open_extended K payload of
        None \<Rightarrow> Ok ((FlowDisconnect ''bad OpenExtendedMiningChannel'', s, [], []), gl)
      | Some op \<Rightarrow>
          (case SessionGuard_check_worker_name (s2_guard s) (oe_user_identity op) of
             Err err \<Rightarrow> Ok ((FlowDisconnect ''invalid user_identity'', s, [], []), gl)
           | _ \<Rightarrow>
               if unat (oe_min_extranonce_size op) > s2_extranonce_total s then
                 (let (_, sent) = send_frames (ix_write io) 0
                        [Some (OpenMiningChannelError (oe_request_id op))]
                  in Ok ((Continue, s, sent, []), gl))
               else open_channel C io op gl s))"

section \<open>Shares\<close>

definition sv2_share_params :: "sv2_session \<Rightarrow> job_entry \<Rightarrow> submit_extended \<Rightarrow> share_params" where
  "sv2_share_params s entry submit =
     \<lparr>sp_worker = sv2_worker_label s, sp_job_id = j_job_id (je_job entry), sp_extranonce2 = sx_extranonce submit,
      sp_ntime = sx_ntime submit, sp_nonce = sx_nonce submit,
      sp_version_bits = Some (sx_version submit AND VERSION_ROLLING_MASK),
      sp_version_rolling_mask = Some VERSION_ROLLING_MASK\<rparr>"

definition sv2_credit :: "nat \<Rightarrow> u64 \<Rightarrow> sv2_session \<Rightarrow> u64 \<times> sv2_session" where
  "sv2_credit now hash_diff s =
     (let credited = credit_for (s2_vardiff s) hash_diff
      in (credited, s\<lparr>s2_shares_accepted := s2_shares_accepted s + 1,
            s2_vardiff := record_share now credited (s2_vardiff s)\<rparr>))"

text \<open>An invalid share: counted by the guard, which may ask for a disconnect; else a reject.\<close>

definition sv2_count_invalid ::
  "(nat \<Rightarrow> bool) \<Rightarrow> u32 \<Rightarrow> string \<Rightarrow> sv2_session \<Rightarrow> flow \<times> sv2_session \<times> sv2_message list" where
  "sv2_count_invalid w seq code s =
     (let (fire, c) = InvalidShareCounter_record_invalid (sg_invalid_shares (s2_guard s));
          s1 = s\<lparr>s2_guard := (s2_guard s)\<lparr>sg_invalid_shares := c\<rparr>\<rparr>
      in if fire then (FlowDisconnect ''too many invalid shares'', s1, [])
         else let (fl, sent) = sv2_reject w seq code s1 in (fl, s1, sent))"

type_synonym sv2_settled = "flow \<times> sv2_session \<times> template_engine \<times> sv2_message list \<times> session_effect list"

definition sv2_settle_share ::
  "crates \<Rightarrow> 'a sv2_io_scheme \<Rightarrow> u32 \<Rightarrow> job_entry \<Rightarrow> share_result result \<Rightarrow> template_engine \<Rightarrow> sv2_session \<Rightarrow> sv2_settled" where
  "sv2_settle_share C io seq entry verdict e s =
     (let worker = sv2_worker_label s
      in case verdict of
           Panic \<Rightarrow> (FlowDisconnect ''internal error'', s, e, [], [])
         | Ok (Valid assigned hash_diff hash) \<Rightarrow>
             (let (credited, s2) = sv2_credit (io_now io) hash_diff s;
                  (fl, sent) = sv2_accept (ix_write io) seq s2
              in (fl, s2, e, sent,
                  [SLogShare worker credited, MShareAccepted credited worker,
                   SShareAccepted hash_diff credited, SWorkerShareAccepted worker hash_diff,
                   SMarkWorkerSubmit worker]))
         | Ok (Block hash_diff block_text hash) \<Rightarrow>
             (let hash_text = hash_display_hex C hash;
                  height = j_height (je_job entry);
                  (submitted, e1, tasks, slept) =
                    submit_found_block (io_views io) height hash_text block_text worker e
              in case submitted of
                   Ok _ \<Rightarrow>
                     (let (credited, s2) = sv2_credit (io_now io) hash_diff s;
                          (fl, sent) = sv2_accept (ix_write io) seq s2
                      in (fl, s2, e1, sent,
                          map Spawned tasks @
                          [MBlockFound, MBlockSubmissionSuccess, SBlockFound worker hash_text height,
                           SLogShare worker credited, SShareAccepted hash_diff credited,
                           SWorkerShareAccepted worker hash_diff, SMarkWorkerSubmit worker]))
                 | Err err \<Rightarrow>
                     (let (fl, sent) = sv2_reject (ix_write io) seq ''block-submit-failed'' s
                      in (fl, s, e1, sent, map Spawned tasks @ [MBlockSubmissionFailure (submit_failure_label err)]))
                 | Panic \<Rightarrow> (FlowDisconnect ''internal error'', s, e1, [], map Spawned tasks))
         | Err err \<Rightarrow>
             (let s2 = s\<lparr>s2_shares_rejected := s2_shares_rejected s + 1\<rparr>;
                  reason = reject_reason err;
                  (fl, s3, sent) = (if is_malicious err then sv2_count_invalid (ix_write io) seq reason s2
                                    else let (fl, sent) = sv2_reject (ix_write io) seq reason s2 in (fl, s2, sent))
              in (fl, s3, e, sent,
                  [MShareRejected reason worker, SShareRejected, SWorkerShareRejected worker reason])))"

definition sv2_handle_submit ::
  "crates \<Rightarrow> sv2_codec \<Rightarrow> 'a sv2_io_scheme \<Rightarrow> bytes \<Rightarrow> template_engine \<Rightarrow> sv2_session \<Rightarrow> sv2_settled" where
  "sv2_handle_submit C K io payload e s =
     (if \<not> s2_channel_open s then (FlowDisconnect ''SubmitShares before channel open'', s, e, [], [])
      else case dec_submit K payload of
        None \<Rightarrow> (FlowDisconnect ''bad SubmitSharesExtended'', s, e, [], [])
      | Some submit \<Rightarrow>
          (let worker = sv2_worker_label s; seq = sx_sequence_number submit
           in if length (sx_extranonce submit) \<noteq> s2_extranonce_size s then
                (let (fl, s1, sent) = sv2_count_invalid (ix_write io) seq ''bad-extranonce-size'' s
                 in (fl, s1, e, sent, [MShareRejected ''bad_extranonce'' worker, SShareRejected,
                                       SWorkerShareRejected worker ''bad_extranonce'']))
              else
                let job_entry = (case engine_job_id s (sx_job_id submit) of
                                   Some engine_id \<Rightarrow> find_job engine_id e
                                 | None \<Rightarrow> None)
                in case job_entry of
                     None \<Rightarrow>
                       (let (fl, sent) = sv2_reject (ix_write io) seq ''stale-job'' s
                        in (fl, s, e, sent, [MShareRejected ''job_not_found'' worker, SShareRejected,
                                             SWorkerShareRejected worker ''job_not_found'']))
                   | Some entry \<Rightarrow>
                       (let validation = validate_share_no_dedup C (sv2_share_params s entry submit) (je_job entry)
                              entry (s2_extranonce_prefix s) (vc_min_difficulty (s2_vardiff_cfg s));
                            (verdict, tracker) = ShareSet_dedup (s2_share_set s) validation
                        in sv2_settle_share C io seq entry verdict e (s\<lparr>s2_share_set := tracker\<rparr>))))"

definition handle_message ::
  "crates \<Rightarrow> sv2_codec \<Rightarrow> 'a sv2_io_scheme \<Rightarrow> byte \<Rightarrow> bytes \<Rightarrow> template_engine \<Rightarrow> sv2_globals \<Rightarrow> sv2_session
     \<Rightarrow> (sv2_settled \<times> sv2_globals) result" where
  "handle_message C K io msg_type payload e gl s =
     (let (allowed, bucket) = ShareRateLimiter_try_consume (io_rate1 io) (io_rate2 io) (sg_share_rate (s2_guard s));
          s1 = s\<lparr>s2_guard := (s2_guard s)\<lparr>sg_share_rate := bucket\<rparr>\<rparr>
      in if \<not> allowed then
           Ok ((FlowDisconnect ''rate limited'', s1, e, [], [MShareRejected ''rate_limited'' (sv2_worker_label s1)]), gl)
         else if msg_type = mt_setup_connection K then
           (let (fl, s2, sent, effs) = handle_setup_connection K (ix_write io) payload s1
            in Ok ((fl, s2, e, sent, effs), gl))
         else if msg_type = mt_open_extended K then
           obind (handle_open_extended C K io payload gl s1) (\<lambda>((fl, s2, sent, effs), gl1).
             Ok ((fl, s2, e, sent, effs), gl1))
         else if msg_type = mt_submit_extended K then
           Ok (sv2_handle_submit C K io payload e s1, gl)
         else Ok ((Continue, s1, e, [], []), gl))"

section \<open>The other arms of the session loop\<close>

definition sv2_on_retarget_timer ::
  "(nat \<Rightarrow> bool) \<Rightarrow> nat \<Rightarrow> nat \<Rightarrow> nat \<Rightarrow> sv2_session \<Rightarrow> (bool \<times> sv2_session \<times> sv2_message list \<times> session_effect list) result" where
  "sv2_on_retarget_timer w now1 now2 now3 s =
     (if \<not> s2_channel_open s then Ok (True, s, [], [])
      else obind (check_retarget now1 now2 now3 (s2_vardiff s)) (\<lambda>(change, v).
        let s1 = s\<lparr>s2_vardiff := v\<rparr>
        in case change of
             None \<Rightarrow> Ok (True, s1, [], [])
           | Some new_diff \<Rightarrow>
               (let s2 = s1\<lparr>s2_difficulty := new_diff\<rparr>;
                    effs = (case s2_worker s1 of
                              None \<Rightarrow> []
                            | Some worker \<Rightarrow> [MVardiffRetarget worker (s2_difficulty s1) new_diff,
                                              SUpdateWorkerVardiff worker new_diff]);
                    (ok, sent) = send_frames w 0 [Some (SetTarget (s2_channel_id s2) (difficulty_to_sv2_target new_diff))]
                in Ok (ok, s2, sent, effs))))"

definition sv2_on_job_broadcast ::
  "crates \<Rightarrow> (nat \<Rightarrow> bool) \<Rightarrow> job_broadcast \<Rightarrow> sv2_session \<Rightarrow> bool \<times> sv2_session \<times> sv2_message list" where
  "sv2_on_job_broadcast C w b s =
     (let s1 = (if jb_clean b then s\<lparr>s2_share_set := ShareSet_clear (s2_share_set s)\<rparr> else s);
          (ok, s2, sent) = (if s2_channel_open s1 then send_job C w 0 (jb_job b) (jb_clean b) s1 else (True, s1, []))
      in (ok, if ok then s2\<lparr>s2_pending_job := Some (jb_job b)\<rparr> else s2, sent))"

definition sv2_close_session :: "nat \<Rightarrow> sv2_session \<Rightarrow> session_effect list" where
  "sv2_close_session now s =
     (case s2_worker s of
        None \<Rightarrow> []
      | Some worker \<Rightarrow> [SMarkWorkerOffline worker,
          SStashShareHistory worker (fst (take_share_history now (s2_vardiff s)))])"

section \<open>The job id map\<close>

text \<open>
  The ids a session hands out run through \<open>1\<close> to \<open>2 ^ 32 - 1\<close> and start again: \<open>sv2_id k\<close> is the
  \<open>k\<close>-th. The map is the last sixteen pairs of the list of all jobs sent so far.
\<close>

definition sv2_id :: "nat \<Rightarrow> u32" where
  "sv2_id k = of_nat (k mod (2 ^ 32 - 1)) + 1"

definition job_map_of :: "string list \<Rightarrow> sv2_session \<Rightarrow> bool" where
  "job_map_of js s \<longleftrightarrow> s2_next_job_id s = sv2_id (length js)
     \<and> s2_job_ids s = drop (length js - 16) (zip (map sv2_id [0..<length js]) js)"

lemma unat_sv2_id: "unat (sv2_id k) = k mod (2 ^ 32 - 1) + 1"
proof -
  have "k mod (2 ^ 32 - 1) < 2 ^ 32 - 1" by simp
  then have "k mod (2 ^ 32 - 1) + 1 < 2 ^ 32" by simp
  moreover have "sv2_id k = of_nat (k mod (2 ^ 32 - 1) + 1)" by (simp add: sv2_id_def)
  ultimately show ?thesis by (simp only: unat_of_nat) simp
qed

lemma sv2_id_nonzero: "sv2_id k \<noteq> 0"
  using unat_sv2_id [of k] by (metis One_nat_def add_is_0 nat.distinct(1) unat_0)

lemma sv2_id_eq_iff: "sv2_id i = sv2_id j \<longleftrightarrow> i mod (2 ^ 32 - 1) = j mod (2 ^ 32 - 1)"
  by (metis add_right_cancel sv2_id_def unat_sv2_id)

lemma sv2_id_Suc: "(if sv2_id k + 1 = 0 then 1 else sv2_id k + 1) = sv2_id (Suc k)"
proof (cases "Suc (k mod (2 ^ 32 - 1)) = 2 ^ 32 - 1")
  case True
  then have "k mod (2 ^ 32 - 1) = 2 ^ 32 - 2" by simp
  then have "sv2_id k = of_nat (2 ^ 32 - 2) + 1" by (simp only: sv2_id_def)
  moreover have "Suc k mod (2 ^ 32 - 1) = 0" using True by (simp add: mod_Suc)
  ultimately show ?thesis by (simp add: sv2_id_def)
next
  case False
  have "Suc k mod (2 ^ 32 - 1) = Suc (k mod (2 ^ 32 - 1))" using False by (simp add: mod_Suc)
  then have "sv2_id (Suc k) = sv2_id k + 1" by (simp add: sv2_id_def)
  then show ?thesis using sv2_id_nonzero [of "Suc k"] by simp
qed

lemma sv2_id_window: "i < j \<Longrightarrow> j - i < 2 ^ 32 - 1 \<Longrightarrow> sv2_id i \<noteq> sv2_id j"
proof
  assume a: "i < j" "j - i < 2 ^ 32 - 1" and "sv2_id i = sv2_id j"
  then have "(j - i) mod (2 ^ 32 - 1) = 0" by (simp only: sv2_id_eq_iff) (metis mod_eq_dvd_iff_nat dvd_imp_mod_0 less_imp_le)
  then show False using a by simp
qed

lemma Sv2Session_new_jobs: "job_map_of [] (Sv2Session_new now1 now2 now3 now4 peer cfg pre)"
  by (simp add: job_map_of_def Sv2Session_new_def Let_def sv2_id_def)

lemma drop_window: "drop (length (drop (n - 16) xs @ [x]) - 16) (drop (n - 16) xs @ [x]) = drop (Suc n - 16) (xs @ [x])"
  if "length xs = n"
proof (cases "n < 16")
  case False
  then have "Suc (n - 16) = Suc n - 16" by simp
  then show ?thesis using that False by (simp del: diff_Suc_numeral)
qed (use that in auto)

lemma assign_job_id_map:
  assumes "job_map_of js s"
  shows "fst (assign_job_id j s) = sv2_id (length js)" and "job_map_of (js @ [j]) (snd (assign_job_id j s))"
proof -
  show "fst (assign_job_id j s) = sv2_id (length js)"
    using assms by (simp add: assign_job_id_def job_map_of_def Let_def)
  have "zip (map sv2_id [0..<length (js @ [j])]) (js @ [j])
      = zip (map sv2_id [0..<length js]) js @ [(sv2_id (length js), j)]"
    by simp
  then show "job_map_of (js @ [j]) (snd (assign_job_id j s))"
    using assms drop_window [of "zip (map sv2_id [0..<length js]) js" "length js" "(sv2_id (length js), j)"]
    by (simp add: assign_job_id_def job_map_of_def Let_def sv2_id_Suc)
qed

lemma find_first:
  assumes "i < length xs" and "P (xs ! i)" and "\<And>k. k < i \<Longrightarrow> \<not> P (xs ! k)"
  shows "find P xs = Some (xs ! i)"
  using assms
proof (induction xs arbitrary: i)
  case (Cons x xs)
  then show ?case
  proof (cases i)
    case (Suc m)
    then have "\<not> P x" "find P xs = Some (xs ! m)"
      using Cons.prems(3) [of 0] Cons.IH [of m] Cons.prems(1,2) Cons.prems(3) [of "Suc _"] by auto
    then show ?thesis using Suc by simp
  qed simp
qed simp

lemma engine_job_id_recent:
  assumes "job_map_of js s" and "i < length js" and "length js \<le> i + 16"
  shows "engine_job_id s (sv2_id i) = Some (js ! i)"
proof -
  let ?all = "zip (map sv2_id [0..<length js]) js"
  let ?ids = "drop (length js - 16) ?all"
  have nth: "?ids ! k = (sv2_id (length js - 16 + k), js ! (length js - 16 + k))" if "length js - 16 + k < length js" for k
    using that by simp
  have i: "length js - 16 + (i - (length js - 16)) = i" using assms by simp
  have "find (\<lambda>(j, _). j = sv2_id i) ?ids = Some (?ids ! (i - (length js - 16)))"
  proof (rule find_first)
    fix k assume "k < i - (length js - 16)"
    then have "length js - 16 + k < i" "i - (length js - 16 + k) < 2 ^ 32 - 1"
      using assms(2,3) by auto
    then show "\<not> (case ?ids ! k of (j, _) \<Rightarrow> j = sv2_id i)"
      using sv2_id_window [of "length js - 16 + k" i] nth [of k] assms(2) by simp
  qed (use assms i nth [of "i - (length js - 16)"] in auto)
  then show ?thesis
    using assms(1,2) i nth [of "i - (length js - 16)"] by (simp add: engine_job_id_def job_map_of_def)
qed

lemma engine_job_id_sent:
  assumes "job_map_of js s" and "engine_job_id s n = Some j"
  shows "\<exists>i < length js. length js \<le> i + 16 \<and> n = sv2_id i \<and> j = js ! i"
proof -
  let ?ids = "drop (length js - 16) (zip (map sv2_id [0..<length js]) js)"
  have "(n, j) \<in> set ?ids"
    using assms by (auto simp: engine_job_id_def job_map_of_def find_Some_iff in_set_conv_nth)
  then obtain k where k: "k < length ?ids" "?ids ! k = (n, j)" by (auto simp: in_set_conv_nth)
  then have "length js - 16 + k < length js" by auto
  moreover from this k(2) have "n = sv2_id (length js - 16 + k)" "j = js ! (length js - 16 + k)" by auto
  ultimately show ?thesis by (intro exI [of _ "length js - 16 + k"]) auto
qed

end
