(* ===== verification/Sv2_Session.thy ===== *)
theory Sv2_Session
  imports Sv2
begin

text \<open>
  The properties of the Stratum V2 frontend: an invariant of a channel session kept by every
  handler and by every interleaving of messages, ticks and broadcasts, what a credited share
  has passed, what opening a channel grants, and that a device computing its header from the
  messages it is sent computes the header the validator judges.
\<close>

section \<open>The session invariant\<close>

definition sv2_ok :: "config \<Rightarrow> sv2_session \<Rightarrow> bool" where
  "sv2_ok cfg s \<longleftrightarrow>
     s2_extranonce_total s = pc_extranonce1_size (c_pool cfg) + pc_extranonce2_size (c_pool cfg)
     \<and> (s2_channel_open s \<longrightarrow> s2_setup_done s \<and> s2_worker s \<noteq> None \<and> 1 \<le> s2_extranonce_size s
          \<and> length (s2_extranonce_prefix s) + s2_extranonce_size s = s2_extranonce_total s)
     \<and> share_set_ok 4096 (s2_share_set s)
     \<and> vardiff_ok (s2_vardiff s) \<and> v_cfg (s2_vardiff s) = c_vardiff cfg \<and> s2_vardiff_cfg s = c_vardiff cfg
     \<and> s2_difficulty s = v_current (s2_vardiff s)
     \<and> (\<exists>js. job_map_of js s)"

lemma Sv2Session_new_ok:
  assumes "validate cfg = Ok ()" and "initial_difficulty_ok cfg"
  shows "sv2_ok cfg (Sv2Session_new now1 now2 now3 now4 peer cfg pre)"
proof -
  have "\<exists>js. job_map_of js (Sv2Session_new now1 now2 now3 now4 peer cfg pre)"
    using Sv2Session_new_jobs by blast
  then show ?thesis
    using validate_pool [OF assms(1)] assms(2)
    by (simp add: sv2_ok_def Sv2Session_new_def Let_def ShareSet_new_ok vardiff_ok_def Vardiff_new_def
        initial_difficulty_ok_def)
qed

lemma job_map_frame [simp]:
  "job_map_of js (s\<lparr>s2_guard := g\<rparr>) = job_map_of js s"
  "job_map_of js (s\<lparr>s2_worker := x\<rparr>) = job_map_of js s"
  "job_map_of js (s\<lparr>s2_vardiff := v\<rparr>) = job_map_of js s"
  "job_map_of js (s\<lparr>s2_share_set := t\<rparr>) = job_map_of js s"
  "job_map_of js (s\<lparr>s2_setup_done := b\<rparr>) = job_map_of js s"
  "job_map_of js (s\<lparr>s2_channel_open := b\<rparr>) = job_map_of js s"
  "job_map_of js (s\<lparr>s2_channel_id := n\<rparr>) = job_map_of js s"
  "job_map_of js (s\<lparr>s2_extranonce_size := k\<rparr>) = job_map_of js s"
  "job_map_of js (s\<lparr>s2_extranonce_prefix := p\<rparr>) = job_map_of js s"
  "job_map_of js (s\<lparr>s2_pending_job := q\<rparr>) = job_map_of js s"
  "job_map_of js (s\<lparr>s2_difficulty := d\<rparr>) = job_map_of js s"
  "job_map_of js (s\<lparr>s2_shares_accepted := n1\<rparr>) = job_map_of js s"
  "job_map_of js (s\<lparr>s2_shares_rejected := n1\<rparr>) = job_map_of js s"
  by (simp_all add: job_map_of_def)

lemma sv2_ok_frame [simp]:
  "sv2_ok cfg (s\<lparr>s2_guard := g\<rparr>) = sv2_ok cfg s"
  "sv2_ok cfg (s\<lparr>s2_pending_job := j\<rparr>) = sv2_ok cfg s"
  "sv2_ok cfg (s\<lparr>s2_shares_rejected := n\<rparr>) = sv2_ok cfg s"
  "sv2_ok cfg (s\<lparr>s2_shares_accepted := n\<rparr>) = sv2_ok cfg s"
  by (simp_all add: sv2_ok_def)

lemma sv2_ok_history:
  "sv2_ok cfg s \<Longrightarrow> sv2_ok cfg (s\<lparr>s2_vardiff := restore_share_history now h (s2_vardiff s)\<rparr>)"
  "sv2_ok cfg s \<Longrightarrow> sv2_ok cfg (s\<lparr>s2_vardiff := snd (take_share_history now (s2_vardiff s))\<rparr>)"
  "sv2_ok cfg s \<Longrightarrow> sv2_ok cfg (s\<lparr>s2_vardiff := record_share now c (s2_vardiff s)\<rparr>)"
  by (auto simp: sv2_ok_def history_defs Let_def)

lemma sv2_ok_tracker: "sv2_ok cfg s \<Longrightarrow> share_set_ok 4096 t \<Longrightarrow> sv2_ok cfg (s\<lparr>s2_share_set := t\<rparr>)"
  by (simp add: sv2_ok_def)

text \<open>Sending a job changes the job map only.\<close>

lemma send_job_session:
  "send_job C w k job future s = (ok, s', sent) \<Longrightarrow> s' = snd (assign_job_id (j_job_id job) s)"
  by (auto simp: send_job_def Let_def split: prod.splits)

lemma assign_job_id_ok: "sv2_ok cfg s \<Longrightarrow> sv2_ok cfg (snd (assign_job_id j s))"
proof -
  assume ok: "sv2_ok cfg s"
  then obtain js where "job_map_of js s" by (auto simp: sv2_ok_def)
  then have "\<exists>js. job_map_of js (snd (assign_job_id j s))" using assign_job_id_map(2) by blast
  then show ?thesis using ok by (simp add: sv2_ok_def) (simp add: assign_job_id_def Let_def)
qed

lemma send_job_ok: "sv2_ok cfg s \<Longrightarrow> send_job C w k job future s = (ok, s', sent) \<Longrightarrow> sv2_ok cfg s'"
  using send_job_session assign_job_id_ok by blast

lemma handle_setup_ok:
  "sv2_ok cfg s \<Longrightarrow> handle_setup_connection K w payload s = (flw, s', sent, effs) \<Longrightarrow> sv2_ok cfg s'"
  by (auto simp: handle_setup_connection_def setup_error_def sv2_ok_def Let_def
      split: option.splits if_splits prod.splits)

lemma sv2_leave_ok:
  assumes "sv2_ok cfg s" and "sv2_leave_worker now s = (s', effs)"
  shows "sv2_ok cfg (s'\<lparr>s2_worker := Some x\<rparr>)" and "s2_setup_done s' = s2_setup_done s"
    and "s2_extranonce_total s' = s2_extranonce_total s" and "s2_difficulty s' = s2_difficulty s"
  using assms by (auto simp: sv2_leave_worker_def sv2_ok_def Let_def history_defs split: option.splits)

lemma grant_channel_ok:
  assumes "sv2_ok cfg (s\<lparr>s2_worker := Some x\<rparr>)" and "s2_setup_done s"
    and "grant_channel gl op s = Ok (target, s', gl')"
  shows "sv2_ok cfg (s'\<lparr>s2_channel_open := True\<rparr>) \<and> sv2_ok cfg s'"
proof -
  define k where "k = max 1 (unat (oe_min_extranonce_size op))"
  define pre where "pre = fst (generate_extranonce1 (s2_extranonce_total s - k) (gl_extranonce1 gl))"
  have k: "k \<le> s2_extranonce_total s" "1 \<le> k"
    and s': "s' = s\<lparr>s2_extranonce_size := k, s2_extranonce_prefix := pre,
       s2_channel_id := gl_channel_id gl, s2_worker := Some (oe_user_identity op)\<rparr>"
    using assms(3) by (auto simp: grant_channel_def Let_def k_def pre_def split: if_splits prod.splits)
  have "length pre + k = s2_extranonce_total s" using k by (simp add: pre_def length_extranonce1)
  then show ?thesis using assms(1,2) k(2) by (simp add: sv2_ok_def s')
qed

lemma sv2_join_ok:
  "sv2_ok cfg s \<Longrightarrow> sv2_join_worker io worker s = (s', effs) \<Longrightarrow> sv2_ok cfg s'"
  "sv2_ok cfg (s\<lparr>s2_channel_open := True\<rparr>) \<Longrightarrow> sv2_join_worker io worker s = (s', effs) \<Longrightarrow>
     sv2_ok cfg (s'\<lparr>s2_channel_open := True\<rparr>)"
  by (auto simp: sv2_join_worker_def sv2_ok_def history_defs Let_def split: option.splits)

lemma announce_channel_ok:
  assumes "sv2_ok cfg s" and "sv2_ok cfg (s\<lparr>s2_channel_open := True\<rparr>)"
    and "announce_channel C w request_id target s = (flw, s', sent)"
  shows "sv2_ok cfg s'"
  using assms send_job_ok [OF assms(2)]
  by (auto simp: announce_channel_def Let_def split: if_splits prod.splits option.splits)

text \<open>Opening a channel: refused by the identity cap, or granted and announced.\<close>

lemma open_channel_cases:
  assumes h: "open_channel C io op gl s = Ok ((flw, s', sent, effs), gl')"
  obtains
    (capped) g where "s' = s\<lparr>s2_guard := g\<rparr>" "sent = []" "effs = []" "gl' = gl" "flw = FlowDisconnect ''too many worker identities''"
  | (granted) g s2 left target s3 s4 joined where
      "s2 = s\<lparr>s2_guard := g\<rparr> \<and> s2_worker s = Some (oe_user_identity op) \<or> sv2_leave_worker (io_now io) (s\<lparr>s2_guard := g\<rparr>) = (s2, left)"
      "grant_channel gl op s2 = Ok (target, s3, gl')"
      "s4 = s3 \<or> sv2_join_worker io (oe_user_identity op) s3 = (s4, joined)"
      "announce_channel C (ix_write io) (oe_request_id op) target s4 = (flw, s', sent)"
      "\<And>w d. SLogShare w d \<notin> set effs"
proof -
  define is_new where "is_new = (s2_worker s \<noteq> Some (oe_user_identity op))"
  obtain allowed g where g: "(if is_new then SessionGuard_record_new_authorization (s2_guard s)
      else (True, s2_guard s)) = (allowed, g)" by fastforce
  define s1 where "s1 = s\<lparr>s2_guard := g\<rparr>"
  obtain s2 left where s2: "(if is_new then sv2_leave_worker (io_now io) s1 else (s1, [])) = (s2, left)" by fastforce
  note def = h [unfolded open_channel_def Let_def, folded is_new_def, unfolded g prod.case, folded s1_def, unfolded s2 prod.case]
  show thesis
  proof (cases allowed)
    case False
    with def show thesis by (intro capped [of g]) (auto simp: s1_def)
  next
    case True
    with def obtain target s3 gl1 where grant: "grant_channel gl op s2 = Ok (target, s3, gl1)"
      by (auto simp: split_beta)
    obtain s4 joined where s4: "(if is_new then sv2_join_worker io (oe_user_identity op) s3 else (s3, [])) = (s4, joined)"
      by fastforce
    obtain flw5 s5 sent5 where ann: "announce_channel C (ix_write io) (oe_request_id op) target s4 = (flw5, s5, sent5)"
      using prod_cases3 by blast
    have eqs: "flw5 = flw" "s5 = s'" "sent5 = sent" "gl1 = gl'" "effs = left @ joined"
      using def True grant s4 ann by auto
    have "SLogShare w d \<notin> set effs" for w d
      using s2 s4 eqs(5) by (auto simp: sv2_leave_worker_def sv2_join_worker_def Let_def split: if_splits option.splits prod.splits)
    with grant s2 s4 ann eqs show thesis
      by (intro granted [of s2 g left target s3 s4 joined]) (auto simp: is_new_def s1_def split: if_splits)
  qed
qed

lemma open_channel_ok:
  assumes ok: "sv2_ok cfg s" and su: "s2_setup_done s" and h: "open_channel C io op gl s = Ok ((flw, s', sent, effs), gl')"
  shows "sv2_ok cfg s'"
  using h
proof (cases rule: open_channel_cases)
  case (capped g)
  then show ?thesis using ok by simp
next
  case (granted g s2 left target s3 s4 joined)
  have "sv2_ok cfg (s2\<lparr>s2_worker := Some (oe_user_identity op)\<rparr>) \<and> s2_setup_done s2"
    using granted(1) ok su sv2_leave_ok [of cfg "s\<lparr>s2_guard := g\<rparr>" "io_now io" s2 left]
    by (auto simp: sv2_ok_def)
  then have "sv2_ok cfg (s3\<lparr>s2_channel_open := True\<rparr>) \<and> sv2_ok cfg s3"
    using grant_channel_ok granted(2) by blast
  then have "sv2_ok cfg (s4\<lparr>s2_channel_open := True\<rparr>) \<and> sv2_ok cfg s4"
    using granted(3) sv2_join_ok by blast
  then show ?thesis using announce_channel_ok granted(4) by blast
qed

text \<open>An opening is refused without touching the session, refused by the identity cap, or granted.\<close>

lemma handle_open_cases:
  obtains
    (refused) flw sent where "handle_open_extended C K io payload gl s = Ok ((flw, s, sent, []), gl)"
      "flw = Continue \<Longrightarrow> set sent \<subseteq> {OpenMiningChannelError i | i. True}"
  | (opened) op where "s2_setup_done s" "decode_open_extended K payload = Some op"
      "unat (oe_min_extranonce_size op) \<le> s2_extranonce_total s"
      "handle_open_extended C K io payload gl s = open_channel C io op gl s"
proof (cases "s2_setup_done s \<and> decode_open_extended K payload \<noteq> None")
  case False
  then show ?thesis
    by (intro refused [of "if s2_setup_done s then FlowDisconnect ''bad OpenExtendedMiningChannel''
          else FlowDisconnect ''OpenExtendedMiningChannel before SetupConnection''" "[]"])
      (auto simp: handle_open_extended_def)
next
  case True
  then obtain op where op: "decode_open_extended K payload = Some op" by auto
  show ?thesis
  proof (cases "\<exists>err. SessionGuard_check_worker_name (s2_guard s) (oe_user_identity op) = Err err")
    case bad: True
    then show ?thesis using op True
      by (intro refused [of "FlowDisconnect ''invalid user_identity''" "[]"]) (auto simp: handle_open_extended_def)
  next
    case good: False
    show ?thesis
    proof (cases "unat (oe_min_extranonce_size op) \<le> s2_extranonce_total s")
      case fits: True
      then show ?thesis using op True good
        by (intro opened [of op]) (auto simp: handle_open_extended_def split: outcome.splits)
    next
      case wide: False
      then show ?thesis using op True good
        by (intro refused [of Continue "snd (send_frames (ix_write io) 0 [Some (OpenMiningChannelError (oe_request_id op))])"])
          (auto simp: handle_open_extended_def split_beta split: outcome.splits)
    qed
  qed
qed

lemma handle_open_ok:
  assumes "sv2_ok cfg s" and "handle_open_extended C K io payload gl s = Ok ((flw, s', sent, effs), gl')"
  shows "sv2_ok cfg s'"
proof (rule handle_open_cases [of C K io payload gl s])
  fix op assume "s2_setup_done s" "handle_open_extended C K io payload gl s = open_channel C io op gl s"
  then show ?thesis using assms open_channel_ok [of cfg s C io op gl flw s' sent effs gl'] by simp
qed (use assms in auto)

lemma grant_channel_total:
  "unat (oe_min_extranonce_size op) \<le> s2_extranonce_total s \<Longrightarrow> 1 \<le> s2_extranonce_total s \<Longrightarrow>
     grant_channel gl op s \<noteq> Panic"
  by (auto simp: grant_channel_def Let_def split: prod.splits)

lemma sv2_leave_total: "sv2_leave_worker now s = (s', effs) \<Longrightarrow> s2_extranonce_total s' = s2_extranonce_total s"
  by (auto simp: sv2_leave_worker_def Let_def split: option.splits prod.splits)

lemma handle_open_not_Panic:
  assumes "1 \<le> s2_extranonce_total s"
  shows "handle_open_extended C K io payload gl s \<noteq> Panic"
proof (rule handle_open_cases [of C K io payload gl s])
  fix op assume op: "unat (oe_min_extranonce_size op) \<le> s2_extranonce_total s"
    and eq: "handle_open_extended C K io payload gl s = open_channel C io op gl s"
  have "grant_channel gl op s2 \<noteq> Panic" if "s2_extranonce_total s2 = s2_extranonce_total s" for s2
    using that op assms by (intro grant_channel_total) auto
  moreover have "s2_extranonce_total (fst (if n then sv2_leave_worker now (s\<lparr>s2_guard := g\<rparr>) else (s\<lparr>s2_guard := g\<rparr>, [])))
      = s2_extranonce_total s" for n now g
    using sv2_leave_total [of now "s\<lparr>s2_guard := g\<rparr>"] by (simp add: prod_eq_iff)
  ultimately have "open_channel C io op gl s \<noteq> Panic"
    by (simp add: open_channel_def Let_def obind_Panic_iff split_beta del: fst_conv)
  then show ?thesis using eq by simp
qed auto

text \<open>The verdict on a share, as the channel asks for it.\<close>

definition sv2_share_verdict :: "crates \<Rightarrow> submit_extended \<Rightarrow> job_entry \<Rightarrow> sv2_session \<Rightarrow> share_result result" where
  "sv2_share_verdict C submit entry s = validate_share_no_dedup C (sv2_share_params s entry submit) (je_job entry)
     entry (s2_extranonce_prefix s) (vc_min_difficulty (s2_vardiff_cfg s))"

lemma sv2_count_invalid_session:
  "sv2_count_invalid w seq code s = (flw, s', sent) \<Longrightarrow> \<exists>g. s' = s\<lparr>s2_guard := g\<rparr>"
  by (auto simp: sv2_count_invalid_def Let_def split: prod.splits if_splits)

lemma sv2_submit_cases:
  assumes h: "sv2_handle_submit C K io payload e s = (flw, s', e', sent, effs)"
  obtains
    (refused) g where "s' = s\<lparr>s2_guard := g\<rparr>" "e' = e" "\<And>w d. SLogShare w d \<notin> set effs"
  | (judged) submit engine_id entry verdict tracker where "s2_channel_open s" "dec_submit K payload = Some submit"
      "length (sx_extranonce submit) = s2_extranonce_size s"
      "engine_job_id s (sx_job_id submit) = Some engine_id" "find_job engine_id e = Some entry"
      "ShareSet_dedup (s2_share_set s) (sv2_share_verdict C submit entry s) = (verdict, tracker)"
      "sv2_settle_share C io (sx_sequence_number submit) entry verdict e (s\<lparr>s2_share_set := tracker\<rparr>)
         = (flw, s', e', sent, effs)"
proof (cases "s2_channel_open s \<and> dec_submit K payload \<noteq> None")
  case False
  with h show ?thesis
    by (intro refused [of "s2_guard s"]) (auto simp: sv2_handle_submit_def split: if_splits option.splits)
next
  case True
  then obtain submit where submit: "dec_submit K payload = Some submit" by auto
  show ?thesis
  proof (cases "length (sx_extranonce submit) = s2_extranonce_size s")
    case False
    obtain flw1 s1 sent1 where c: "sv2_count_invalid (ix_write io) (sx_sequence_number submit) ''bad-extranonce-size'' s
        = (flw1, s1, sent1)" using prod_cases3 by blast
    obtain g where "s1 = s\<lparr>s2_guard := g\<rparr>" using sv2_count_invalid_session [OF c] by blast
    with h True submit False c show ?thesis by (intro refused [of g]) (auto simp: sv2_handle_submit_def Let_def)
  next
    case width: True
    show ?thesis
    proof (cases "case engine_job_id s (sx_job_id submit) of Some engine_id \<Rightarrow> find_job engine_id e | None \<Rightarrow> None")
      case None
      with h True submit width show ?thesis
        by (intro refused [of "s2_guard s"]) (auto simp: sv2_handle_submit_def Let_def split: prod.splits)
    next
      case (Some entry)
      then obtain engine_id where id: "engine_job_id s (sx_job_id submit) = Some engine_id" "find_job engine_id e = Some entry"
        by (auto split: option.splits)
      obtain verdict tracker where "ShareSet_dedup (s2_share_set s) (sv2_share_verdict C submit entry s) = (verdict, tracker)"
        by fastforce
      with h True submit width id show ?thesis
        by (intro judged [of submit engine_id entry verdict tracker])
          (auto simp: sv2_handle_submit_def Let_def sv2_share_verdict_def)
    qed
  qed
qed

lemma sv2_credit_ok: "sv2_ok cfg s \<Longrightarrow> sv2_ok cfg (snd (sv2_credit now d s))"
  using sv2_ok_history(3) [of cfg "s\<lparr>s2_shares_accepted := s2_shares_accepted s + 1\<rparr>" now "credit_for (s2_vardiff s) d"]
  by (simp add: sv2_credit_def Let_def)

lemma sv2_count_invalid_ok: "sv2_ok cfg s \<Longrightarrow> sv2_ok cfg (fst (snd (sv2_count_invalid w seq code s)))"
  using sv2_count_invalid_session [of w seq code s] by (metis prod.collapse sv2_ok_frame(1))

lemma sv2_settle_ok:
  assumes "sv2_ok cfg s" and "sv2_settle_share C io seq entry verdict e s = (flw, s', e', sent, effs)"
  shows "sv2_ok cfg s'"
  using assms(2) assms(1) sv2_credit_ok [OF assms(1)]
    sv2_count_invalid_ok [of cfg "s\<lparr>s2_shares_rejected := s2_shares_rejected s + 1\<rparr>"]
  by (auto simp: sv2_settle_share_def Let_def split_beta split: outcome.splits share_result.splits if_splits)

lemma sv2_settle_credits:
  assumes "sv2_settle_share C io seq entry verdict e s = (flw, s', e', sent, effs)" and "SLogShare w d \<in> set effs"
  shows "\<exists>r. verdict = Ok r \<and> w = sv2_worker_label s \<and> d = credit_for (s2_vardiff s) (hash_difficulty r)
     \<and> s2_shares_accepted s' = s2_shares_accepted s + 1 \<and> s2_share_set s' = s2_share_set s"
  using assms
  by (auto simp: sv2_settle_share_def Let_def split_beta sv2_credit_def
      split: outcome.splits share_result.splits if_splits)

lemma sv2_submit_ok:
  assumes ok: "sv2_ok cfg s" and h: "sv2_handle_submit C K io payload e s = (flw, s', e', sent, effs)"
  shows "sv2_ok cfg s'"
  using h
proof (cases rule: sv2_submit_cases)
  case (refused g)
  then show ?thesis using ok by simp
next
  case (judged submit engine_id entry verdict tracker)
  have "share_set_ok 4096 tracker" using dedup_ok [OF _ judged(6)] ok by (simp add: sv2_ok_def)
  then show ?thesis using sv2_settle_ok [OF sv2_ok_tracker [OF ok]] judged(7) by blast
qed

lemma handle_message_cases:
  obtains
    (limited) g where "handle_message C K io t payload e gl s = Ok ((FlowDisconnect ''rate limited'', s\<lparr>s2_guard := g\<rparr>, e, [],
        [MShareRejected ''rate_limited'' (sv2_worker_label s)]), gl)"
  | (setup_connection) g flw s' sent effs where "handle_setup_connection K (ix_write io) payload (s\<lparr>s2_guard := g\<rparr>) = (flw, s', sent, effs)"
      "handle_message C K io t payload e gl s = Ok ((flw, s', e, sent, effs), gl)"
  | (open_extended) g where "\<And>flw s' e' sent effs gl'. handle_message C K io t payload e gl s = Ok ((flw, s', e', sent, effs), gl') \<Longrightarrow>
        handle_open_extended C K io payload gl (s\<lparr>s2_guard := g\<rparr>) = Ok ((flw, s', sent, effs), gl')"
      "handle_message C K io t payload e gl s = Panic \<Longrightarrow> handle_open_extended C K io payload gl (s\<lparr>s2_guard := g\<rparr>) = Panic"
  | (submit_extended) g where "handle_message C K io t payload e gl s =
      Ok (sv2_handle_submit C K io payload e (s\<lparr>s2_guard := g\<rparr>), gl)"
  | (ignored) g where "handle_message C K io t payload e gl s = Ok ((Continue, s\<lparr>s2_guard := g\<rparr>, e, [], []), gl)"
proof -
  obtain allowed bucket where b: "ShareRateLimiter_try_consume (io_rate1 io) (io_rate2 io) (sg_share_rate (s2_guard s))
      = (allowed, bucket)" by fastforce
  define g where "g = (s2_guard s)\<lparr>sg_share_rate := bucket\<rparr>"
  note def = handle_message_def [of C K io t payload e gl s, unfolded Let_def, simplified b, simplified]
  obtain flw s' sent effs where su: "handle_setup_connection K (ix_write io) payload (s\<lparr>s2_guard := g\<rparr>) = (flw, s', sent, effs)"
    using prod_cases4 by blast
  consider "\<not> allowed" | "allowed" "t = mt_setup_connection K"
    | "allowed" "t \<noteq> mt_setup_connection K" "t = mt_open_extended K"
    | "allowed" "t \<noteq> mt_setup_connection K" "t \<noteq> mt_open_extended K" "t = mt_submit_extended K"
    | "allowed" "t \<noteq> mt_setup_connection K" "t \<noteq> mt_open_extended K" "t \<noteq> mt_submit_extended K" by blast
  then show thesis
  proof cases
    case 1
    then show thesis using def by (intro limited [of g]) (simp add: sv2_worker_label_def g_def)
  next
    case 2
    then show thesis using def su by (intro setup_connection [OF su]) (simp add: g_def)
  next
    case 3
    then show thesis using def
      by (intro open_extended [of g]) (auto simp: obind_Panic_iff g_def split: prod.splits)
  next
    case 4
    then show thesis using def by (intro submit_extended [of g]) (simp add: g_def)
  next
    case 5
    then show thesis using def by (intro ignored [of g]) (simp add: g_def)
  qed
qed

lemma handle_message_ok:
  assumes ok: "sv2_ok cfg s" and h: "handle_message C K io t payload e gl s = Ok ((flw, s', e', sent, effs), gl')"
  shows "sv2_ok cfg s'"
proof (rule handle_message_cases [of C K io t payload e gl s])
  fix g flw1 s1 sent1 effs1
  assume "handle_setup_connection K (ix_write io) payload (s\<lparr>s2_guard := g\<rparr>) = (flw1, s1, sent1, effs1)"
    "handle_message C K io t payload e gl s = Ok ((flw1, s1, e, sent1, effs1), gl)"
  then show ?thesis using h ok handle_setup_ok [of cfg "s\<lparr>s2_guard := g\<rparr>"] by simp
next
  fix g
  assume "\<And>flw s' e' sent effs gl'. handle_message C K io t payload e gl s = Ok ((flw, s', e', sent, effs), gl') \<Longrightarrow>
        handle_open_extended C K io payload gl (s\<lparr>s2_guard := g\<rparr>) = Ok ((flw, s', sent, effs), gl')"
  note this [OF h]
  then show ?thesis using ok handle_open_ok [of cfg "s\<lparr>s2_guard := g\<rparr>"] by simp
next
  fix g assume "handle_message C K io t payload e gl s =
      Ok (sv2_handle_submit C K io payload e (s\<lparr>s2_guard := g\<rparr>), gl)"
  then have "sv2_handle_submit C K io payload e (s\<lparr>s2_guard := g\<rparr>) = (flw, s', e', sent, effs)" using h by simp
  then show ?thesis using ok sv2_submit_ok [of cfg "s\<lparr>s2_guard := g\<rparr>"] by simp
qed (use h ok in auto)

lemma handle_message_not_Panic:
  assumes "1 \<le> s2_extranonce_total s"
  shows "handle_message C K io t payload e gl s \<noteq> Panic"
  by (rule handle_message_cases [of C K io t payload e gl s])
    (use assms handle_open_not_Panic [of "s\<lparr>s2_guard := _\<rparr>" C K io payload gl] in auto)

lemma sv2_retarget_ok:
  assumes "sv2_ok cfg s" and "sv2_on_retarget_timer w now1 now2 now3 s = Ok (ok, s', sent, effs)"
  shows "sv2_ok cfg s'"
proof -
  obtain r v where r: "check_retarget now1 now2 now3 (s2_vardiff s) = Ok (r, v)" "vardiff_ok v"
    "v_cfg v = v_cfg (s2_vardiff s)"
    using check_retarget_ok [of "s2_vardiff s" now1 now2 now3] assms(1) by (auto simp: sv2_ok_def)
  have "v_current v = (case r of None \<Rightarrow> v_current (s2_vardiff s) | Some d \<Rightarrow> d)"
    using r(1) by (auto simp: check_retarget_def Let_def split: if_splits prod.splits option.splits)
  then show ?thesis
    using assms r
    by (auto simp: sv2_on_retarget_timer_def sv2_ok_def Let_def split_beta split: if_splits option.splits)
qed

lemma sv2_broadcast_ok:
  assumes "sv2_ok cfg s" and "sv2_on_job_broadcast C w b s = (ok, s', sent)"
  shows "sv2_ok cfg s'"
proof -
  define s1 where "s1 = (if jb_clean b then s\<lparr>s2_share_set := ShareSet_clear (s2_share_set s)\<rparr> else s)"
  have ok1: "sv2_ok cfg s1"
    using assms(1) by (auto simp: s1_def sv2_ok_def ShareSet_clear_ok)
  have "sv2_ok cfg (fst (snd (send_job C w 0 (jb_job b) (jb_clean b) s1)))"
    using send_job_ok [OF ok1] by (metis prod.collapse)
  then show ?thesis
    using assms(2) ok1 by (auto simp: sv2_on_job_broadcast_def Let_def s1_def [symmetric] split_beta split: if_splits)
qed

text \<open>
  The runs of a channel session: any interleaving of messages, retarget ticks, job broadcasts
  and changes made elsewhere to the engine and to the two process-wide counters.
\<close>

inductive sv2_run ::
  "crates \<Rightarrow> sv2_codec \<Rightarrow> sv2_session \<Rightarrow> sv2_session \<Rightarrow> template_engine \<Rightarrow> sv2_globals \<Rightarrow> session_effect list \<Rightarrow> bool"
  for C :: crates and K :: sv2_codec and s0 :: sv2_session where
  start: "sv2_run C K s0 s0 e gl []"
| message: "sv2_run C K s0 s e gl effs
    \<Longrightarrow> handle_message C K (io :: sv2_io) t payload e gl s = Ok ((Continue, s', e', sent, effs'), gl')
    \<Longrightarrow> sv2_run C K s0 s' e' gl' (effs @ effs')"
| timer: "sv2_run C K s0 s e gl effs \<Longrightarrow> sv2_on_retarget_timer w now1 now2 now3 s = Ok (True, s', sent, effs')
    \<Longrightarrow> sv2_run C K s0 s' e gl (effs @ effs')"
| job: "sv2_run C K s0 s e gl effs \<Longrightarrow> sv2_on_job_broadcast C w b s = (True, s', sent)
    \<Longrightarrow> sv2_run C K s0 s' e gl effs"
| elsewhere: "sv2_run C K s0 s e gl effs \<Longrightarrow> sv2_run C K s0 s e' gl' effs"

lemma sv2_run_ok: "sv2_run C K s0 s e gl effs \<Longrightarrow> sv2_ok cfg s0 \<Longrightarrow> sv2_ok cfg s"
  by (induction rule: sv2_run.induct)
    (auto intro: handle_message_ok sv2_retarget_ok sv2_broadcast_ok)

text \<open>A credited share was a submission on an open channel, validated and not seen before.\<close>

lemma handle_message_credits:
  assumes h: "handle_message C K io t payload e gl s = Ok ((flw, s', e', sent, effs), gl')" and c: "SLogShare w d \<in> set effs"
  obtains submit engine_id entry r where "s2_channel_open s" "dec_submit K payload = Some submit"
    "length (sx_extranonce submit) = s2_extranonce_size s"
    "engine_job_id s (sx_job_id submit) = Some engine_id" "find_job engine_id e = Some entry"
    "sv2_share_verdict C submit entry s = Ok r"
    "share_hash r \<notin> ss_seen (s2_share_set s)" "s2_share_set s' = ShareSet_insert (s2_share_set s) (share_hash r)"
    "w = sv2_worker_label s" "d = credit_for (s2_vardiff s) (hash_difficulty r)"
    "s2_shares_accepted s' = s2_shares_accepted s + 1"
proof (rule handle_message_cases [of C K io t payload e gl s])
  fix g flw1 s1 sent1 effs1
  assume "handle_setup_connection K (ix_write io) payload (s\<lparr>s2_guard := g\<rparr>) = (flw1, s1, sent1, effs1)"
    "handle_message C K io t payload e gl s = Ok ((flw1, s1, e, sent1, effs1), gl)"
  then have False using h c
    by (auto simp: handle_setup_connection_def setup_error_def Let_def split_beta split: option.splits if_splits)
  then show thesis ..
next
  fix g
  assume "\<And>flw s' e' sent effs gl'. handle_message C K io t payload e gl s = Ok ((flw, s', e', sent, effs), gl') \<Longrightarrow>
        handle_open_extended C K io payload gl (s\<lparr>s2_guard := g\<rparr>) = Ok ((flw, s', sent, effs), gl')"
  note o = this [OF h]
  have False
  proof (rule handle_open_cases [of C K io payload gl "s\<lparr>s2_guard := g\<rparr>"])
    fix op assume "handle_open_extended C K io payload gl (s\<lparr>s2_guard := g\<rparr>) = open_channel C io op gl (s\<lparr>s2_guard := g\<rparr>)"
    with o have "open_channel C io op gl (s\<lparr>s2_guard := g\<rparr>) = Ok ((flw, s', sent, effs), gl')" by simp
    then show False using c by (cases rule: open_channel_cases) auto
  qed (use o c in auto)
  then show thesis ..
next
  fix g assume "handle_message C K io t payload e gl s =
      Ok (sv2_handle_submit C K io payload e (s\<lparr>s2_guard := g\<rparr>), gl)"
  then have "sv2_handle_submit C K io payload e (s\<lparr>s2_guard := g\<rparr>) = (flw, s', e', sent, effs)" using h by simp
  then show thesis
  proof (cases rule: sv2_submit_cases)
    case (refused g')
    then show thesis using c by simp
  next
    case (judged submit engine_id entry verdict tracker)
    obtain r where r: "verdict = Ok r" "w = sv2_worker_label s" "d = credit_for (s2_vardiff s) (hash_difficulty r)"
      "s2_shares_accepted s' = s2_shares_accepted s + 1" "s2_share_set s' = tracker"
      using sv2_settle_credits [OF judged(7) c] by (auto simp: sv2_worker_label_def)
    have v: "sv2_share_verdict C submit entry (s\<lparr>s2_guard := g\<rparr>) = sv2_share_verdict C submit entry s"
      by (simp add: sv2_share_verdict_def sv2_share_params_def sv2_worker_label_def)
    have "sv2_share_verdict C submit entry s = Ok r \<and> share_hash r \<notin> ss_seen (s2_share_set s)
        \<and> tracker = ShareSet_insert (s2_share_set s) (share_hash r)"
      using judged(6) r(1) v
      by (cases "sv2_share_verdict C submit entry s") (auto simp: ShareSet_contains_def split: if_splits)
    with judged(1-5) r show thesis by (intro that [of submit engine_id entry r]) (auto simp: engine_job_id_def)
  qed
qed (use h c in auto)

section \<open>Targets and headers on the wire\<close>

lemma le_val_sv2_target: "le_val (difficulty_to_sv2_target d) = diff1_value div max 1 (unat d)"
  using difficulty_to_target_value [of d] by (simp add: difficulty_to_sv2_target_def be_val_def)

lemma sv2_target_le_val: "length a = length b \<Longrightarrow> sv2_target_le a b \<longleftrightarrow> le_val a \<le> le_val b"
  by (simp add: sv2_target_le_def lex_le_be_val be_val_def)

text \<open>
  The header a device hashes for a submission, from the messages it has received: the
  coinbase is the announced prefix, the extranonce prefix of the channel, the device's own
  bytes and the announced suffix, and its hash is folded along the merkle path.
\<close>

definition device_header ::
  "crates \<Rightarrow> new_extended_job \<Rightarrow> set_new_prev_hash \<Rightarrow> bytes \<Rightarrow> submit_extended \<Rightarrow> bytes" where
  "device_header C ne sn extranonce_prefix submit =
     (let coinbase = ne_coinbase_prefix ne @ extranonce_prefix @ sx_extranonce submit @ ne_coinbase_suffix ne;
          mroot = merkle_fold (sha256 C) (double_sha256 (sha256 C) coinbase) (ne_merkle_path ne)
      in header_bytes (sx_version submit) (sn_prev_hash sn) mroot (sx_ntime submit) (sn_nbits sn) (sx_nonce submit))"

lemma masked_version:
  fixes v b m :: u32
  assumes "v AND NOT m = b AND NOT m"
  shows "(b AND NOT m) OR ((v AND m) AND m) = v"
proof (rule bit_word_eqI)
  fix n assume "n < LENGTH(32)"
  have "bit (v AND NOT m) n = bit (b AND NOT m) n" using assms by simp
  then show "bit ((b AND NOT m) OR ((v AND m) AND m)) n = bit v n"
    using \<open>n < LENGTH(32)\<close> by (auto simp: bit_simps)
qed

lemma resolve_device_version:
  assumes "v AND NOT VERSION_ROLLING_MASK = b AND NOT VERSION_ROLLING_MASK"
  shows "resolve_version b (Some (v AND VERSION_ROLLING_MASK)) (Some VERSION_ROLLING_MASK) = Ok v"
  using masked_version [OF assms] by (simp add: resolve_version_def Let_def and.assoc)

lemma device_header_built:
  assumes ok: "hex_ok C"
    and job: "fst (build_job C millis counter gbt address tag en1 en2) = Ok job"
    and ne: "build_new_extended_job job ch jid future = Some ne"
    and sn: "build_set_new_prev_hash C job ch jid = Some sn"
    and f: "hex_decode C (g_prev_hash gbt) = Some prev" "u32_from_hex (g_bits gbt) = Some bits"
  shows "device_header C ne sn pre submit = header_bytes (sx_version submit) (rev prev)
      (merkle_root C job (j_coinbase1 job @ pre @ sx_extranonce submit @ j_coinbase2 job))
      (sx_ntime submit) bits (sx_nonce submit)"
    and "sn_nbits sn = bits" and "ne_version ne = j_version job"
proof -
  obtain prev' s bits' where g: "hex_decode C (g_prev_hash gbt) = Some prev'"
    "hex_decode C (j_prev_hash job) = Some s" "length s = 32" "rev_words s = rev prev'"
    "u32_from_hex (g_bits gbt) = Some bits'" "j_bits job = g_bits gbt"
    using build_job_header_fields [OF ok job] by metis
  have "sn_prev_hash sn = rev prev" "sn_nbits sn = bits"
    using sn g f by (auto simp: build_set_new_prev_hash_def stratum_prevhash_to_internal_def)
  moreover have "ne_coinbase_prefix ne = j_coinbase1 job" "ne_coinbase_suffix ne = j_coinbase2 job"
    "ne_merkle_path ne = j_merkle_branch_raw job" "ne_version ne = j_version job"
    using ne by (auto simp: build_new_extended_job_def split: if_splits)
  ultimately show "device_header C ne sn pre submit = header_bytes (sx_version submit) (rev prev)
      (merkle_root C job (j_coinbase1 job @ pre @ sx_extranonce submit @ j_coinbase2 job))
      (sx_ntime submit) bits (sx_nonce submit)"
    and "sn_nbits sn = bits" and "ne_version ne = j_version job"
    by (simp_all add: device_header_def merkle_root_def)
qed


text \<open>What a granted channel is told, and that the session holds it.\<close>

lemma sv2_join_fields:
  "sv2_join_worker io worker s = (s', effs) \<Longrightarrow> s2_extranonce_size s' = s2_extranonce_size s
     \<and> s2_extranonce_prefix s' = s2_extranonce_prefix s \<and> s2_channel_id s' = s2_channel_id s
     \<and> s2_worker s' = s2_worker s"
  by (auto simp: sv2_join_worker_def split: option.splits)

lemma send_frames_sent: "send_frames w k ms = (ok, sent) \<Longrightarrow> m \<in> set sent \<Longrightarrow> Some m \<in> set ms"
  by (induction w k ms arbitrary: ok sent rule: send_frames.induct) (auto split: if_splits prod.splits)

lemma send_job_messages:
  "send_job C w k job future s = (ok, s', sent) \<Longrightarrow> OpenExtendedSuccess i ch target n pre grp \<notin> set sent"
  by (auto simp: send_job_def Let_def map_option_case split: prod.splits if_splits option.splits dest!: send_frames_sent)

lemma send_job_fields:
  assumes "send_job C w k job future s = (ok, s', sent)"
  shows "s2_extranonce_prefix s' = s2_extranonce_prefix s \<and> s2_extranonce_size s' = s2_extranonce_size s
     \<and> s2_channel_id s' = s2_channel_id s \<and> s2_channel_open s' = s2_channel_open s \<and> s2_worker s' = s2_worker s"
  unfolding send_job_session [OF assms] by (simp add: assign_job_id_def Let_def)

lemma announce_message:
  assumes "announce_channel C w request_id target s = (flw, s', sent)"
    and "OpenExtendedSuccess i ch tgt n pre grp \<in> set sent"
  shows "i = request_id \<and> ch = s2_channel_id s \<and> tgt = target \<and> n = of_nat (s2_extranonce_size s)
     \<and> pre = s2_extranonce_prefix s \<and> s2_extranonce_prefix s' = pre \<and> s2_extranonce_size s' = s2_extranonce_size s
     \<and> s2_channel_id s' = ch \<and> s2_channel_open s' \<and> s2_worker s' = s2_worker s"
proof -
  define s1 where "s1 = s\<lparr>s2_channel_open := True\<rparr>"
  have "w 0 \<and> \<not> length (s2_extranonce_prefix s) > 32"
    using assms by (auto simp: announce_channel_def Let_def split: if_splits)
  then have a: "announce_channel C w request_id target s = (case s2_pending_job s1 of
       None \<Rightarrow> (Continue, s1, [OpenExtendedSuccess request_id (s2_channel_id s) target
              (of_nat (s2_extranonce_size s)) (s2_extranonce_prefix s) 0])
     | Some job \<Rightarrow> (if fst (send_job C w 1 job True s1) then Continue else FlowDisconnect ''write'',
          fst (snd (send_job C w 1 job True s1)), [OpenExtendedSuccess request_id (s2_channel_id s) target
              (of_nat (s2_extranonce_size s)) (s2_extranonce_prefix s) 0] @ snd (snd (send_job C w 1 job True s1))))"
    by (simp add: announce_channel_def Let_def s1_def split_beta split: option.splits)
  show ?thesis
  proof (cases "s2_pending_job s1")
    case None
    then show ?thesis using a assms by (auto simp: s1_def)
  next
    case (Some job)
    obtain ok s2 sent2 where j: "send_job C w 1 job True s1 = (ok, s2, sent2)" using prod_cases3 by blast
    have "sent = [OpenExtendedSuccess request_id (s2_channel_id s) target
              (of_nat (s2_extranonce_size s)) (s2_extranonce_prefix s) 0] @ sent2" "s' = s2"
      using a Some j assms(1) by auto
    then show ?thesis
      using send_job_messages [OF j] send_job_fields [OF j] assms(2) by (auto simp: s1_def)
  qed
qed

lemma granted_message:
  assumes "grant_channel gl op s2 = Ok (target, s3, gl')"
    and "s4 = s3 \<or> sv2_join_worker io worker s3 = (s4, joined)"
    and "announce_channel C w (oe_request_id op) target s4 = (flw, s', sent)"
    and "OpenExtendedSuccess i ch tgt n pre grp \<in> set sent"
    and "length (oe_max_target op) = 32" and "s2_extranonce_total s2 < 2 ^ 16"
  shows "i = oe_request_id op \<and> ch = gl_channel_id gl \<and> gl_channel_id gl' = ch + 1
     \<and> le_val tgt \<le> le_val (oe_max_target op) \<and> le_val tgt \<le> diff1_value div max 1 (unat (s2_difficulty s2))
     \<and> oe_min_extranonce_size op \<le> n \<and> 1 \<le> unat n \<and> length pre + unat n = s2_extranonce_total s2
     \<and> s2_extranonce_prefix s' = pre \<and> s2_extranonce_size s' = unat n \<and> s2_channel_id s' = ch
     \<and> s2_channel_open s' \<and> s2_worker s' = Some (oe_user_identity op)"
proof -
  define k where "k = max 1 (unat (oe_min_extranonce_size op))"
  define T where "T = difficulty_to_sv2_target (s2_difficulty s2)"
  have g: "k \<le> s2_extranonce_total s2" "target = (if sv2_target_le T (oe_max_target op) then T else oe_max_target op)"
    "s3 = s2\<lparr>s2_extranonce_size := k, s2_extranonce_prefix := fst (generate_extranonce1 (s2_extranonce_total s2 - k) (gl_extranonce1 gl)),
       s2_channel_id := gl_channel_id gl, s2_worker := Some (oe_user_identity op)\<rparr>"
    "gl_channel_id gl' = gl_channel_id gl + 1"
    using assms(1) by (auto simp: grant_channel_def Let_def k_def T_def split: if_splits prod.splits)
  have "length T = 32" by (simp add: T_def difficulty_to_sv2_target_def)
  then have t: "le_val target \<le> le_val (oe_max_target op) \<and> le_val target \<le> le_val T"
    using assms(5) sv2_target_le_val [of T "oe_max_target op"] g(2) by auto
  have s4: "s2_extranonce_size s4 = k" "s2_extranonce_prefix s4 = fst (generate_extranonce1 (s2_extranonce_total s2 - k) (gl_extranonce1 gl))"
    "s2_channel_id s4 = gl_channel_id gl" "s2_worker s4 = Some (oe_user_identity op)"
    using assms(2) g(3) sv2_join_fields [of io worker s3 s4 joined] by auto
  have k: "unat (of_nat k :: u16) = k" using g(1) assms(6) by (simp add: unat_of_nat)
  then have "oe_min_extranonce_size op \<le> of_nat k" by (simp add: word_le_nat_alt k_def)
  then show ?thesis
    using announce_message [OF assms(3,4)] t g s4 k by (simp add: length_extranonce1 T_def le_val_sv2_target k_def)
qed

section \<open>Properties\<close>

text \<open>
  C14: The header a device computes from the two messages it is sent is the header the pool
  judges: for a share on a live job, with the granted number of extranonce bytes, an
  admissible time and a version that differs from the announced one only in the rollable
  bits, the verdict is decided by the device's own hash. It is a block exactly when the
  hash is at most the announced network target, otherwise a valid share exactly when the hash
  is at most the wire target of the difficulty, and otherwise refused as too easy.
\<close>

theorem sv2_device_hash_is_judged:
  assumes C: "sha256_ok C" "hex_ok C" "serialize_ok C"
    and gbt: "utf8_valid tag" "unat (g_height gbt) < 2 ^ 31" "length tag + en1 + en2 \<le> 65000"
      "1 + length (g_transactions gbt) < 2 ^ 64"
    and job: "fst (build_job C millis counter gbt address tag en1 en2) = Ok job"
    and entry: "je_job entry = job" "\<not> je_superseded_by_clean entry"
    and ne: "build_new_extended_job job ch jid future = Some ne"
    and sn: "build_set_new_prev_hash C job ch jid = Some sn"
    and width: "length pre + length (sx_extranonce submit) = en1 + en2"
    and ntime: "check_ntime (sx_ntime submit) (j_min_time job) (j_cur_time job) = Ok ()"
    and version: "sx_version submit AND NOT VERSION_ROLLING_MASK = ne_version ne AND NOT VERSION_ROLLING_MASK"
  shows "let hash = double_sha256 (sha256 C) (device_header C ne sn pre submit);
             verdict = validate_share_no_dedup C (sv2_share_params s entry submit) (je_job entry) entry pre d
         in if le_val hash \<le> compact_value (sn_nbits sn)
            then \<exists>block. verdict = Ok (Block (hash_to_difficulty hash) block hash)
            else if le_val hash \<le> le_val (difficulty_to_sv2_target d)
            then verdict = Ok (Valid d (hash_to_difficulty hash) hash)
            else verdict = Err LowDifficulty"
proof -
  have cb: "assemble_coinbase job pre (sp_extranonce2 (sv2_share_params s entry submit))
      = Ok (j_coinbase1 job @ pre @ sx_extranonce submit @ j_coinbase2 job)"
    using build_job_coinbase [OF C(3) gbt(1-3) job] width by (metis sv2_share_params_def share_params.select_convs(3))
  obtain prev bits where v: "hex_decode C (g_prev_hash gbt) = Some prev" "u32_from_hex (g_bits gbt) = Some bits"
    "validate_share_no_dedup C (sv2_share_params s entry submit) job entry pre d
       = share_outcome C (sv2_share_params s entry submit) job (je_superseded_by_clean entry)
           (j_coinbase1 job @ pre @ sx_extranonce submit @ j_coinbase2 job) prev bits d"
    using validate_share_outcome [OF C(1,2) job cb gbt(4)] by metis
  note hdr = device_header_built [OF C(2) job ne sn v(1,2)]
  have "resolve_version (j_version job) (sp_version_bits (sv2_share_params s entry submit))
      (sp_version_rolling_mask (sv2_share_params s entry submit)) = Ok (sx_version submit)"
    using resolve_device_version version hdr(3) by (simp add: sv2_share_params_def)
  moreover have "check_ntime (sp_ntime (sv2_share_params s entry submit)) (j_min_time job) (j_cur_time job) = Ok ()"
    using ntime by (simp add: sv2_share_params_def)
  moreover have "sp_ntime (sv2_share_params s entry submit) = sx_ntime submit"
    "sp_nonce (sv2_share_params s entry submit) = sx_nonce submit" by (simp_all add: sv2_share_params_def)
  ultimately show ?thesis
    using v(3) entry unfolding share_outcome_def Let_def hdr(1,2) le_val_sv2_target
    by (simp add: less_eq_div_iff_mult_less_eq)
qed




text \<open>
  A request for more extranonce than the coinbase reserves is answered with an error and
  leaves the session exactly as it was, a live channel included; a granted request is answered
  with a target no easier than the device's limit and no easier than the current difficulty, an
  extranonce size of at least what was asked, and a prefix that leaves exactly that many bytes,
  under a fresh channel id.
\<close>

theorem sv2_open_grants_or_leaves_untouched:
  assumes "s2_setup_done s" and "decode_open_extended K payload = Some op" and "length (oe_max_target op) = 32"
    and "SessionGuard_check_worker_name (s2_guard s) (oe_user_identity op) = Ok ()"
    and "s2_extranonce_total s < 2 ^ 16"
    and "handle_open_extended C K io payload gl s = Ok ((flw, s', sent, effs), gl')"
  shows "(s2_extranonce_total s < unat (oe_min_extranonce_size op) \<longrightarrow>
            flw = Continue \<and> s' = s \<and> effs = [] \<and> gl' = gl)
     \<and> (unat (oe_min_extranonce_size op) \<le> s2_extranonce_total s \<longrightarrow>
          (\<forall>i ch target n pre grp. OpenExtendedSuccess i ch target n pre grp \<in> set sent \<longrightarrow>
             i = oe_request_id op \<and> ch = gl_channel_id gl \<and> gl_channel_id gl' = ch + 1
             \<and> le_val target \<le> le_val (oe_max_target op)
             \<and> le_val target \<le> diff1_value div max 1 (unat (s2_difficulty s))
             \<and> oe_min_extranonce_size op \<le> n \<and> 1 \<le> unat n \<and> length pre + unat n = s2_extranonce_total s
             \<and> s2_extranonce_prefix s' = pre \<and> s2_extranonce_size s' = unat n \<and> s2_channel_id s' = ch
             \<and> s2_channel_open s' \<and> s2_worker s' = Some (oe_user_identity op)))"
proof (cases "s2_extranonce_total s < unat (oe_min_extranonce_size op)")
  case True
  then show ?thesis
    using assms by (auto simp: handle_open_extended_def split_beta)
next
  case False
  then have o: "open_channel C io op gl s = Ok ((flw, s', sent, effs), gl')"
    using assms(1,2,4,6) by (simp add: handle_open_extended_def)
  show ?thesis
  proof (cases rule: open_channel_cases [OF o])
    case (1 g)
    then show ?thesis using False by simp
  next
    case (2 g s2 left target s3 s4 joined)
    have s2: "s2_extranonce_total s2 = s2_extranonce_total s" "s2_difficulty s2 = s2_difficulty s"
      using 2(1) by (auto simp: sv2_leave_worker_def Let_def split: option.splits prod.splits)
    show ?thesis
      using granted_message [OF 2(2,3,4)] s2 False assms(3,5) by auto
  qed
qed


text \<open>
  The ids of the last sixteen jobs sent on a channel resolve to those jobs, whatever was sent
  before and also when the 32-bit counter has wrapped; an id of a job sent before those resolves
  to nothing (within one turn of the counter).
\<close>

theorem sv2_recent_jobs_resolve:
  assumes "s = fold (\<lambda>j s. snd (assign_job_id j s)) js (Sv2Session_new now1 now2 now3 now4 peer cfg pre)"
    and "i < length js"
  shows "(length js \<le> i + 16 \<longrightarrow> engine_job_id s (sv2_id i) = Some (js ! i))
     \<and> (i + 16 < length js \<and> length js - i < 2 ^ 32 - 1 \<longrightarrow> engine_job_id s (sv2_id i) = None)"
proof -
  have map: "job_map_of (js0 @ js) (fold (\<lambda>j s. snd (assign_job_id j s)) js s0)" if "job_map_of js0 s0" for js js0 s0
    using that
  proof (induction js arbitrary: js0 s0)
    case (Cons j js)
    then show ?case using Cons.IH [OF assign_job_id_map(2) [OF Cons.prems], of j] by simp
  qed simp
  have m: "job_map_of js s" using map [OF Sv2Session_new_jobs, of js] assms(1) by simp
  have "engine_job_id s (sv2_id i) = None" if old: "i + 16 < length js" "length js - i < 2 ^ 32 - 1"
  proof (rule ccontr)
    assume "engine_job_id s (sv2_id i) \<noteq> None"
    then obtain k where k: "k < length js" "length js \<le> k + 16" "sv2_id i = sv2_id k"
      using engine_job_id_sent [OF m] by (metis option.exhaust)
    have "i < k" "k - i < 2 ^ 32 - 1" using k(1,2) old by linarith+
    then show False using sv2_id_window k(3) by blast
  qed
  then show ?thesis using engine_job_id_recent [OF m assms(2)] by blast
qed

subsection \<open>Instances\<close>

definition sample_sv2_submit :: submit_extended where
  "sample_sv2_submit = \<lparr>sx_channel_id = 1, sx_sequence_number = 9, sx_job_id = 1, sx_nonce = 42, sx_ntime = 1700000000,
     sx_version = 0x20000000, sx_extranonce = replicate 8 2\<rparr>"

definition sample_codec :: sv2_codec where
  "sample_codec = \<lparr>mt_setup_connection = 0, mt_open_extended = 0x13, mt_submit_extended = 0x1b,
     dec_setup = (\<lambda>_. None), dec_open = (\<lambda>p. Some (7, [0x77], replicate 32 0xff, 8)),
     dec_submit = (\<lambda>_. Some sample_sv2_submit)\<rparr>"

definition sample_sv2_io :: sv2_io where
  "sample_sv2_io = \<lparr>io_rate1 = 0, io_rate2 = 0, io_now = 0, io_restore = 0, io_stored = None,
     io_views = \<lambda>_. sample_view, ix_write = \<lambda>_. True\<rparr>"

abbreviation sample_sv2_new :: sv2_session where
  "sample_sv2_new \<equiv> Sv2Session_new 0 0 0 0 ''peer'' sample_config (replicate 4 1)"

definition sample_sv2_session :: "string \<Rightarrow> sv2_session" where
  "sample_sv2_session job_id = snd (assign_job_id job_id
     (sample_sv2_new\<lparr>s2_setup_done := True, s2_channel_open := True, s2_worker := Some ''w''\<rparr>))"

lemmas sample_sv2_defs = sample_sv2_session_def assign_job_id_def Sv2Session_new_def Let_def

lemma sample_sv2_ok: "sv2_ok sample_config (sample_sv2_session job_id)"
proof -
  have "sv2_ok sample_config (sample_sv2_new\<lparr>s2_setup_done := True, s2_channel_open := True, s2_worker := Some ''w''\<rparr>)"
    using Sv2Session_new_ok [OF sample_config_valid, of 0 0 0 0 "''peer''" "replicate 4 1"]
    by (simp add: sv2_ok_def) (simp add: Sv2Session_new_def Let_def sample_config_def sample_pool_config_def)
  then show ?thesis unfolding sample_sv2_session_def by (rule assign_job_id_ok)
qed

lemma sample_sv2_job: "engine_job_id (sample_sv2_session job_id) 1 = Some job_id"
  by (simp add: engine_job_id_def sample_sv2_defs)

lemma sample_sv2_token:
  "ShareRateLimiter_try_consume 0 0 (sg_share_rate (s2_guard (sample_sv2_session job_id)))
     = (True, \<lparr>sr_tokens = Fin 49, sr_max_per_sec = Fin 50, sr_last_refill = 0\<rparr>)"
proof -
  have "s2_guard (sample_sv2_session job_id) = se_guard sample_session"
    by (simp add: sample_sv2_defs sample_session_def Session_new_def)
  then show ?thesis using sample_token by simp
qed

lemma verdict_same_version:
  assumes "validate_share_no_dedup C p job entry x d = Ok (Block a b c)"
    and "resolve_version (j_version job) bits msk = resolve_version (j_version job) (sp_version_bits p) (sp_version_rolling_mask p)"
  shows "validate_share_no_dedup C (p\<lparr>sp_worker := w, sp_job_id := i, sp_version_bits := bits, sp_version_rolling_mask := msk\<rparr>)
     job entry x d' = Ok (Block a b c)"
  using assms by (auto simp: validate_share_no_dedup_def Let_def split: if_splits)

lemma sample_sv2_verdict:
  assumes job: "fst (build_job sample_crates 5 7 sample_gbt ''bc1q'' sample_tag 4 8) = Ok job"
  obtains diff block hash where
    "\<And>d. validate_share_no_dedup sample_crates (sv2_share_params s (sample_entry job) sample_sv2_submit) job
       (sample_entry job) (replicate 4 1) d = Ok (Block diff block hash)"
proof -
  obtain diff block hash where v:
    "validate_share_no_dedup sample_crates sample_params job (sample_entry job) (replicate 4 1) 1 = Ok (Block diff block hash)"
    using sample_share_is_block [OF job] .
  have "j_version job = 0x20000000" using job by (auto elim!: build_job_fields simp: sample_gbt_def)
  then have "resolve_version (j_version job) (Some (0x20000000 AND VERSION_ROLLING_MASK)) (Some VERSION_ROLLING_MASK)
      = resolve_version (j_version job) (sp_version_bits sample_params) (sp_version_rolling_mask sample_params)"
    by (simp add: resolve_version_def Let_def VERSION_ROLLING_MASK_def sample_params_def)
  note w = verdict_same_version [OF v this, where w = "sv2_worker_label s" and i = "j_job_id job"]
  have p: "sv2_share_params s (sample_entry job) sample_sv2_submit = sample_params\<lparr>sp_worker := sv2_worker_label s,
      sp_job_id := j_job_id job, sp_version_bits := Some (0x20000000 AND VERSION_ROLLING_MASK),
      sp_version_rolling_mask := Some VERSION_ROLLING_MASK\<rparr>"
    by (simp add: sv2_share_params_def sample_sv2_submit_def sample_params_def sample_entry_def)
  show thesis
    by (rule that [of diff block hash]) (unfold p, rule w)
qed



theorem sv2_recent_jobs_witness:
  "engine_job_id (fold (\<lambda>j s. snd (assign_job_id j s)) [''a'', ''b''] sample_sv2_new) (sv2_id 1) = Some ''b''"
  using sv2_recent_jobs_resolve [OF refl, of 1 "[''a'', ''b'']"] by simp


lemma sample_job_sizes:
  assumes "fst (build_job sample_crates 5 7 sample_gbt ''bc1q'' sample_tag 4 8) = Ok job"
  shows "length (j_merkle_branch_raw job) \<le> 255 \<and> length (j_coinbase1 job) \<le> 65535 \<and> length (j_coinbase2 job) \<le> 65535"
proof -
  obtain rs ws where c: "address_script sample_crates ''bc1q'' = Some rs"
    "witness_outputs sample_crates (g_default_witness_commitment sample_gbt) = Ok ws"
    "j_coinbase1 job @ replicate 4 0 @ replicate 8 0 @ j_coinbase2 job
       = legacy_tx_bytes (coinbase_tx (coinbase_script (g_height sample_gbt) sample_tag (replicate 4 0 @ replicate 8 0))
           (\<lparr>to_value = g_coinbase_value sample_gbt, to_script_pubkey = rs\<rparr> # ws))"
    using build_job_coinbase [OF sample_crates_ok(3) sample_build_hyps assms] by (metis length_replicate)
  have "rs = [0x00, 0x14] @ replicate 20 0x11" using c(1) by (simp add: sample_crates_def)
  moreover have "ws = [\<lparr>to_value = 0, to_script_pubkey = [0x6A, 0x24, 0xAA, 0x21]\<rparr>]"
    using c(2) sample_crates_ok(2) by (simp add: sample_gbt_def hex_ok_def witness_outputs_def of_opt_def)
  moreover have "length (encode_bip34_height 840000) \<le> 5"
    using encode_height_barriers [of 840000] by simp
  ultimately have "length (j_coinbase1 job @ replicate 4 0 @ replicate 8 0 @ j_coinbase2 job) \<le> 1000"
    unfolding c(3)
    by (simp add: legacy_tx_bytes_def coinbase_tx_def coinbase_script_def tx_in_bytes_def tx_out_bytes_def var_bytes_def
        compact_size_def sample_tag_def sample_gbt_def SENTINEL_def)
  moreover obtain ids where "omapM (decode_txid sample_crates) (g_transactions sample_gbt) = Ok ids"
    "compute_merkle_branch_raw (sha256 sample_crates) ids = Ok (j_merkle_branch_raw job)"
    using assms by (rule build_job_fields)
  moreover have "length ids = length (g_transactions sample_gbt)"
    using calculation(2) by (simp add: omapM_Ok_iff list_all2_lengthD)
  then obtain x where "ids = [x]" by (auto simp: sample_gbt_def length_Suc_conv)
  moreover from this have "length ids \<le> 255" by simp
  ultimately show ?thesis
    by (auto simp: compute_merkle_branch_raw_def merkle_loop.simps [of _ _ _ "[_, _]"]
        merkle_loop.simps [of _ _ _ "[_]"] pad_level_def nth_opt_def Let_def)
qed


theorem sv2_device_hash_witness:
  "\<exists>job ne sn block hash. fst (build_job sample_crates 5 7 sample_gbt ''bc1q'' sample_tag 4 8) = Ok job
     \<and> build_new_extended_job job 1 1 True = Some ne \<and> build_set_new_prev_hash sample_crates job 1 1 = Some sn
     \<and> hash = double_sha256 (sha256 sample_crates) (device_header sample_crates ne sn (replicate 4 1) sample_sv2_submit)
     \<and> validate_share_no_dedup sample_crates (sv2_share_params (sample_sv2_session ''1'') (sample_entry job) sample_sv2_submit)
         job (sample_entry job) (replicate 4 1) 1 = Ok (Block (hash_to_difficulty hash) block hash)"
proof -
  obtain job where job: "fst (build_job sample_crates 5 7 sample_gbt ''bc1q'' sample_tag 4 8) = Ok job"
    using sample_job_built by blast
  obtain ne where ne: "build_new_extended_job job 1 1 True = Some ne"
    using sample_job_sizes [OF job] by (simp add: build_new_extended_job_def)
  obtain prev x bits where f: "hex_decode sample_crates (j_prev_hash job) = Some x" "length x = 32"
    "u32_from_hex (g_bits sample_gbt) = Some bits" "j_bits job = g_bits sample_gbt"
    using build_job_header_fields [OF sample_crates_ok(2) job] by metis
  obtain sn where sn: "build_set_new_prev_hash sample_crates job 1 1 = Some sn"
    using f by (simp add: build_set_new_prev_hash_def stratum_prevhash_to_internal_def)
  have t: "j_min_time job = 1699990000" "j_cur_time job = 1700000000" "j_version job = 0x20000000"
    using job by (auto elim!: build_job_fields simp: sample_gbt_def)
  have ver: "ne_version ne = 0x20000000"
    using ne t(3) by (auto simp: build_new_extended_job_def split: if_splits)
  define s where "s = sample_sv2_session ''1''"
  obtain diff block hash where v: "validate_share_no_dedup sample_crates
      (sv2_share_params s (sample_entry job) sample_sv2_submit) job (sample_entry job) (replicate 4 1) 1 = Ok (Block diff block hash)"
    using sample_sv2_verdict [OF job, of s] by metis
  have e: "je_job (sample_entry job) = job" "\<not> je_superseded_by_clean (sample_entry job)" by (simp_all add: sample_entry_def)
  have hyps: "length (replicate 4 (1 :: byte)) + length (sx_extranonce sample_sv2_submit) = 4 + 8"
    "check_ntime (sx_ntime sample_sv2_submit) (j_min_time job) (j_cur_time job) = Ok ()"
    "sx_version sample_sv2_submit AND NOT VERSION_ROLLING_MASK = ne_version ne AND NOT VERSION_ROLLING_MASK"
    "1 + length (g_transactions sample_gbt) < 2 ^ 64"
    by (simp_all add: sample_sv2_submit_def t ver check_ntime_Ok_iff sample_gbt_def)
  have "hash = double_sha256 (sha256 sample_crates) (device_header sample_crates ne sn (replicate 4 1) sample_sv2_submit)
      \<and> diff = hash_to_difficulty hash"
    using sv2_device_hash_is_judged [OF sample_crates_ok sample_build_hyps hyps(4) job e ne sn hyps(1-3), of s 1]
    unfolding e(1) v Let_def by (auto split: if_splits)
  with job ne sn v show ?thesis unfolding s_def by blast
qed

theorem sv2_open_witness:
  "\<exists>s' sent effs gl' target.
     handle_open_extended sample_crates sample_codec sample_sv2_io [] \<lparr>gl_channel_id = 5, gl_extranonce1 = 1\<rparr>
         (sample_sv2_new\<lparr>s2_setup_done := True\<rparr>) = Ok ((Continue, s', sent, effs), gl')
     \<and> sent = [OpenExtendedSuccess 7 5 target 8 [0, 0, 0, 1] 0] \<and> le_val target \<le> diff1_value
     \<and> gl_channel_id gl' = 6 \<and> s2_channel_open s' \<and> s2_worker s' = Some ''w''"
proof -
  define s where "s = sample_sv2_new\<lparr>s2_setup_done := True\<rparr>"
  define op where "op = \<lparr>oe_request_id = 7, oe_user_identity = ''w'', oe_max_target = replicate 32 0xff, oe_min_extranonce_size = 8\<rparr>"
  define gl where "gl = \<lparr>gl_channel_id = 5, gl_extranonce1 = 1\<rparr>"
  have d: "decode_open_extended sample_codec [] = Some op"
  proof -
    have "map (\<lambda>b. char_of (unat b)) (utf8_lossy [0x77]) = ''w''" by (simp add: text_eval)
    then show ?thesis by (simp add: decode_open_extended_def sample_codec_def op_def)
  qed
  have name: "SessionGuard_check_worker_name (s2_guard s) (oe_user_identity op) = Ok ()"
  proof -
    have "validate_worker_name ''w'' 128 = Ok ()" by (simp add: validate_worker_name_def char_is_control_def text_eval)
    then show ?thesis
      by (simp add: s_def op_def SessionGuard_check_worker_name_def Sv2Session_new_def Let_def SessionGuard_new_def sample_config_def)
  qed
  obtain flw s' sent effs gl' where h: "handle_open_extended sample_crates sample_codec sample_sv2_io [] gl s
      = Ok ((flw, s', sent, effs), gl')" "flw = Continue" "\<exists>target. sent = [OpenExtendedSuccess 7 5 target 8 [0, 0, 0, 1] 0]"
  proof -
    have e: "fst (generate_extranonce1 4 1) = [0, 0, 0, 1]" by code_simp
    show ?thesis using d name that e
      by (simp add: handle_open_extended_def open_channel_def grant_channel_def announce_channel_def sv2_leave_worker_def
          sv2_join_worker_def Let_def s_def op_def gl_def sample_sv2_io_def SessionGuard_record_new_authorization_def
          Sv2Session_new_def SessionGuard_new_def sample_config_def sample_pool_config_def split_beta)
  qed
  then obtain target where t: "sent = [OpenExtendedSuccess 7 5 target 8 [0, 0, 0, 1] 0]" by blast
  have f: "s2_setup_done s" "length (oe_max_target op) = 32" "s2_extranonce_total s = 12" "s2_extranonce_total s < 2 ^ 16"
    "oe_min_extranonce_size op = 8" "oe_user_identity op = ''w''"
    by (simp_all add: s_def op_def Sv2Session_new_def Let_def sample_config_def sample_pool_config_def)
  have r: "gl_channel_id gl' = 5 + 1 \<and> le_val target \<le> diff1_value div max 1 (unat (s2_difficulty s))
      \<and> s2_channel_open s' \<and> s2_worker s' = Some ''w''"
    using sv2_open_grants_or_leaves_untouched [OF f(1) d f(2) name f(4) h(1)] f t by simp
  then have "le_val target \<le> diff1_value" using div_le_dividend le_trans by blast
  with r h(1,2) t show ?thesis unfolding s_def gl_def by auto
qed

end
