(* ===== verification/Server.thy ===== *)
theory Server
  imports Sv2_Session
begin

text \<open>
  \<^verbatim>\<open>src/src/network/server.rs\<close>: the accept loop. The loop runs concurrently with the tasks of
  the sessions it has spawned and with the background pruner, so it is a state machine: the
  record \<open>server\<close> holds the shared counter of reserved slots, the ban list, the connection
  limiter and where the loop stands, and one step is one atomic action of the loop, the end
  of a session task, a ban, or one call of the pruner. The counter is a machine word: a
  release without a reservation would wrap it.
\<close>

section \<open>State and steps\<close>

definition HANDSHAKE_TIMEOUT_SECS :: u64 where
  "HANDSHAKE_TIMEOUT_SECS = 10"

text \<open>Where the loop stands: the connection it holds and, in the reservation loop, the counter it has read.\<close>

datatype 'ip accept_pc = Listening | Reserving 'ip | Loaded 'ip u64 | Reserved 'ip | NotBanned 'ip

record 'ip server =
  sv_active_count :: u64
  sv_pc :: "'ip accept_pc"
  sv_tasks :: "'ip list"
  sv_ban_list :: "'ip ban_list"
  sv_conn_limiter :: "'ip conn_limiter"

datatype refusal = Capacity | Banned | RateLimit

definition server_new :: "config \<Rightarrow> 'ip server" where
  "server_new cfg =
     \<lparr>sv_active_count = 0, sv_pc = Listening, sv_tasks = [],
      sv_ban_list = BanList_new (sc_ban_duration_secs (c_security cfg)),
      sv_conn_limiter = ConnLimiter_new (sc_max_connections_per_ip (c_security cfg))\<rparr>"

text \<open>\<open>compare_exchange\<close> and the release of a slot by \<open>fetch_sub\<close>.\<close>

definition compare_exchange :: "u64 \<Rightarrow> u64 \<Rightarrow> 'ip server \<Rightarrow> bool \<times> 'ip server" where
  "compare_exchange current new s =
     (if sv_active_count s = current then (True, s\<lparr>sv_active_count := new\<rparr>) else (False, s))"

definition ConnectionSlot_drop :: "'ip server \<Rightarrow> 'ip server" where
  "ConnectionSlot_drop s = s\<lparr>sv_active_count := sv_active_count s - 1\<rparr>"

text \<open>What one step of the loop reads: an accepted connection (or an error of \<open>accept\<close>) and the clock.\<close>

record 'ip accept_input =
  ai_accepted :: "'ip option"
  ai_now1 :: nat
  ai_now2 :: nat
  ai_now3 :: nat

definition accept_step :: "nat \<Rightarrow> 'ip accept_input \<Rightarrow> 'ip server \<Rightarrow> 'ip server \<times> refusal option" where
  "accept_step max_connections i s =
     (case sv_pc s of
        Listening \<Rightarrow>
          (case ai_accepted i of
             None \<Rightarrow> (s, None)
           | Some peer \<Rightarrow> (s\<lparr>sv_pc := Reserving peer\<rparr>, None))
      | Reserving peer \<Rightarrow>
          (let current = sv_active_count s
           in if unat current \<ge> max_connections then (s\<lparr>sv_pc := Listening\<rparr>, Some Capacity)
              else (s\<lparr>sv_pc := Loaded peer current\<rparr>, None))
      | Loaded peer current \<Rightarrow>
          (let (reserved, s1) = compare_exchange current (current + 1) s
           in (s1\<lparr>sv_pc := (if reserved then Reserved peer else Reserving peer)\<rparr>, None))
      | Reserved peer \<Rightarrow>
          (let (banned, bl) = BanList_is_banned (ai_now1 i) (ai_now2 i) peer (sv_ban_list s);
               s1 = s\<lparr>sv_ban_list := bl\<rparr>
           in if banned then ((ConnectionSlot_drop s1)\<lparr>sv_pc := Listening\<rparr>, Some Banned)
              else (s1\<lparr>sv_pc := NotBanned peer\<rparr>, None))
      | NotBanned peer \<Rightarrow>
          (let (allowed, cl) = ConnLimiter_check_and_record (ai_now1 i) (ai_now2 i) (ai_now3 i) peer (sv_conn_limiter s);
               s1 = s\<lparr>sv_conn_limiter := cl\<rparr>
           in if \<not> allowed then ((ConnectionSlot_drop s1)\<lparr>sv_pc := Listening\<rparr>, Some RateLimit)
              else (s1\<lparr>sv_pc := Listening, sv_tasks := peer # sv_tasks s1\<rparr>, None)))"

text \<open>The end of a session task, by return or by panic: its slot is dropped.\<close>

definition task_ends :: "'ip \<Rightarrow> 'ip server \<Rightarrow> 'ip server" where
  "task_ends peer s = ConnectionSlot_drop (s\<lparr>sv_tasks := remove1 peer (sv_tasks s)\<rparr>)"

text \<open>The first calls of a task: which protocol the first byte of a connection announces.\<close>

datatype peek_result = PeekTimeout | PeekClosed | PeekByte byte | PeekError

datatype protocol_choice = NoSession | Sv1Session | Sv2Channel

definition detect_protocol :: "bool \<Rightarrow> peek_result \<Rightarrow> protocol_choice" where
  "detect_protocol sv2_enabled peek =
     (case peek of
        PeekTimeout \<Rightarrow> NoSession
      | PeekClosed \<Rightarrow> NoSession
      | PeekError \<Rightarrow> NoSession
      | PeekByte b \<Rightarrow> if b = 0x7B then Sv1Session else if sv2_enabled then Sv2Channel else NoSession)"

text \<open>
  Runs of the server, with the calls made on the connection limiter and the sessions
  started so far. Session tasks end, sessions ban addresses and the pruner runs at any
  moment between two steps of the loop.
\<close>

inductive server_run ::
  "config \<Rightarrow> 'ip server \<Rightarrow> 'ip limiter_op list \<Rightarrow> ('ip \<times> nat) list \<Rightarrow> bool" for cfg :: config where
  start: "server_run cfg (server_new cfg) [] []"
| accept: "server_run cfg s ops started \<Longrightarrow> accept_step (pc_max_connections (c_pool cfg)) i s = (s', r) \<Longrightarrow>
    server_run cfg s'
      (ops @ (case sv_pc s of NotBanned peer \<Rightarrow> [Connect peer (ai_now1 i) (ai_now2 i) (ai_now3 i)] | _ \<Rightarrow> []))
      (started @ (case sv_pc s of NotBanned peer \<Rightarrow> if r = None then [(peer, ai_now3 i)] else [] | _ \<Rightarrow> []))"
| task: "server_run cfg s ops started \<Longrightarrow> peer \<in> set (sv_tasks s) \<Longrightarrow> server_run cfg (task_ends peer s) ops started"
| ban: "server_run cfg s ops started \<Longrightarrow>
    server_run cfg (s\<lparr>sv_ban_list := BanList_ban t1 t2 ip reason (sv_ban_list s)\<rparr>) ops started"
| prune_bans: "server_run cfg s ops started \<Longrightarrow>
    server_run cfg (s\<lparr>sv_ban_list := BanList_prune t1 (sv_ban_list s)\<rparr>) ops started"
| prune_limiter: "server_run cfg s ops started \<Longrightarrow>
    server_run cfg (s\<lparr>sv_conn_limiter := ConnLimiter_prune t1 (sv_conn_limiter s)\<rparr>) (ops @ [Sweep t1]) started"

section \<open>The slot invariant\<close>

fun holds_slot :: "'ip accept_pc \<Rightarrow> nat" where
  "holds_slot (Reserved peer) = 1"
| "holds_slot (NotBanned peer) = 1"
| "holds_slot pc = 0"

definition slots_ok :: "nat \<Rightarrow> 'ip server \<Rightarrow> bool" where
  "slots_ok m s \<longleftrightarrow> unat (sv_active_count s) = length (sv_tasks s) + holds_slot (sv_pc s)
     \<and> unat (sv_active_count s) \<le> m
     \<and> (case sv_pc s of Loaded peer c \<Rightarrow> sv_active_count s \<le> c \<and> unat c < m | _ \<Rightarrow> True)"

lemma unat_dec: "(w :: u64) \<noteq> 0 \<Longrightarrow> unat (w - 1) = unat w - 1"
  by (simp add: unat_minus_one)

lemma unat_inc: "unat (w :: u64) < m \<Longrightarrow> m < 2 ^ 64 \<Longrightarrow> unat (w + 1) = unat w + 1"
  by (simp add: unat_word_ariths)

lemma slot_release:
  assumes "unat (sv_active_count s) = Suc n"
  shows "unat (sv_active_count (ConnectionSlot_drop s)) = n"
proof -
  have "sv_active_count s \<noteq> 0" using assms by auto
  then show ?thesis using assms unat_dec by (simp add: ConnectionSlot_drop_def)
qed

lemma accept_step_slots:
  assumes ok: "slots_ok m s" and m: "m < 2 ^ 64" and st: "accept_step m i s = (s', r)"
  shows "slots_ok m s'"
proof (cases "sv_pc s")
  case (Loaded peer c)
  then show ?thesis
    using ok st unat_inc [of c m] m
    by (auto simp: accept_step_def slots_ok_def compare_exchange_def Let_def split: if_splits)
next
  case (Reserved peer)
  then show ?thesis
    using ok st slot_release [of "s\<lparr>sv_ban_list := bl\<rparr>" "length (sv_tasks s)" for bl]
    by (auto simp: accept_step_def slots_ok_def Let_def ConnectionSlot_drop_def split: prod.splits if_splits)
next
  case (NotBanned peer)
  then show ?thesis
    using ok st slot_release [of "s\<lparr>sv_conn_limiter := cl\<rparr>" "length (sv_tasks s)" for cl]
    by (auto simp: accept_step_def slots_ok_def Let_def ConnectionSlot_drop_def split: prod.splits if_splits)
qed (use ok st in \<open>auto simp: accept_step_def slots_ok_def Let_def split: option.splits if_splits\<close>)

lemma task_ends_slots:
  assumes "slots_ok m s" and "peer \<in> set (sv_tasks s)"
  shows "slots_ok m (task_ends peer s)"
proof -
  have n: "length (sv_tasks s) = Suc (length (remove1 peer (sv_tasks s)))"
    using assms(2) length_pos_if_in_set [OF assms(2)] by (simp add: length_remove1)
  then have a: "sv_active_count s \<noteq> 0" using assms(1) by (auto simp: slots_ok_def)
  then have "unat (sv_active_count s - 1) = unat (sv_active_count s) - 1" by (rule unat_dec)
  moreover have "sv_active_count s - 1 \<le> sv_active_count s" using a by (simp add: word_le_nat_alt unat_dec)
  ultimately have u: "unat (sv_active_count s - 1) = length (remove1 peer (sv_tasks s)) + holds_slot (sv_pc s)"
      "unat (sv_active_count s - 1) \<le> m" "\<And>c. sv_active_count s \<le> c \<Longrightarrow> sv_active_count s - 1 \<le> c"
    using assms(1) n by (auto simp: slots_ok_def)
  then show ?thesis
    using assms(1) by (cases "sv_pc s") (simp_all add: slots_ok_def task_ends_def ConnectionSlot_drop_def)
qed

lemma slots_ok_frame [simp]:
  "slots_ok m (s\<lparr>sv_ban_list := bl\<rparr>) = slots_ok m s"
  "slots_ok m (s\<lparr>sv_conn_limiter := cl\<rparr>) = slots_ok m s"
  by (cases "sv_pc s"; simp add: slots_ok_def)+

lemma server_run_slots:
  assumes "server_run cfg s ops started" and m: "pc_max_connections (c_pool cfg) < 2 ^ 64"
  shows "slots_ok (pc_max_connections (c_pool cfg)) s"
  using assms(1)
proof (induction rule: server_run.induct)
  case start
  show ?case by (simp add: slots_ok_def server_new_def)
next
  case (accept s ops started i s' r)
  show ?case by (rule accept_step_slots [OF accept.IH m accept.hyps(2)])
next
  case (task s ops started peer)
  show ?case by (rule task_ends_slots [OF task.IH task.hyps(2)])
qed (simp_all only: slots_ok_frame)

text \<open>A run of the server is a history of the limiter, and starts the sessions it allows.\<close>

lemma accept_step_limiter:
  assumes "accept_step m i s = (s', r)"
  shows "fold limiter_step (case sv_pc s of NotBanned peer \<Rightarrow> [Connect peer (ai_now1 i) (ai_now2 i) (ai_now3 i)] | _ \<Rightarrow> [])
      (sv_conn_limiter s, lg)
    = (sv_conn_limiter s', lg @ (case sv_pc s of NotBanned peer \<Rightarrow> if r = None then [(peer, ai_now3 i)] else [] | _ \<Rightarrow> []))"
  using assms
  by (auto simp: accept_step_def compare_exchange_def ConnectionSlot_drop_def Let_def split: accept_pc.splits
      prod.splits if_splits option.splits)

lemma server_run_limiter:
  "server_run cfg s ops started \<Longrightarrow>
     fold limiter_step ops (ConnLimiter_new (sc_max_connections_per_ip (c_security cfg)), []) = (sv_conn_limiter s, started)"
proof (induction rule: server_run.induct)
  case (accept s ops started i s' r)
  then show ?case using accept_step_limiter [OF accept.hyps(2), of started] by simp
qed (simp_all add: server_new_def task_ends_def ConnectionSlot_drop_def)

section \<open>Properties\<close>


text \<open>
  C22: No address starts more sessions than allowed. In every interleaving, with a clock that does
  not go back between the calls made on the limiter, at most \<open>max_connections_per_ip\<close> sessions of an
  address are started in any sixty seconds.
\<close>

theorem sessions_started_are_rate_limited:
  assumes "server_run cfg s ops started" and "clock_ok 0 ops"
  shows "length (filter (\<lambda>u. t < u + secs 60 \<and> u \<le> t) (allowed_times started ip))
           \<le> unat (sc_max_connections_per_ip (c_security cfg))"
proof -
  obtain c' where "limiter_inv c' (sc_max_connections_per_ip (c_security cfg)) (sv_conn_limiter s, started)"
    using limiter_run_inv [OF limiter_new_inv assms(2)] server_run_limiter [OF assms(1)] by metis
  then show ?thesis by (simp add: limiter_inv_def)
qed

text \<open>
  A free slot is usable: with fewer than \<open>max_connections\<close> sessions running, a connection from an
  address that is neither banned nor over its rate is started within five steps of the loop, whatever
  happened before; and when a session ends between the read of the counter and the exchange, the loop
  reads again instead of giving up.
\<close>

theorem free_slot_is_granted:
  assumes "server_run cfg s ops started" and "pc_max_connections (c_pool cfg) < 2 ^ 64"
    and "sv_pc s = Listening" and "length (sv_tasks s) < pc_max_connections (c_pool cfg)"
    and "ai_accepted i = Some peer"
    and "BanList_is_banned (ai_now1 i) (ai_now2 i) peer (sv_ban_list s) = (False, bl)"
    and "ConnLimiter_check_and_record (ai_now1 i) (ai_now2 i) (ai_now3 i) peer (sv_conn_limiter s) = (True, cl)"
  shows "sv_tasks (((\<lambda>s. fst (accept_step (pc_max_connections (c_pool cfg)) i s)) ^^ 5) s) = peer # sv_tasks s
     \<and> sv_pc (((\<lambda>s. fst (accept_step (pc_max_connections (c_pool cfg)) i s)) ^^ 5) s) = Listening
     \<and> (\<forall>c. sv_active_count s < c \<longrightarrow>
          accept_step (pc_max_connections (c_pool cfg)) i (s\<lparr>sv_pc := Loaded peer c\<rparr>) = (s\<lparr>sv_pc := Reserving peer\<rparr>, None))"
proof -
  define m where "m = pc_max_connections (c_pool cfg)"
  have n: "\<not> m \<le> unat (sv_active_count s)"
    using server_run_slots [OF assms(1,2)] assms(3,4) by (simp add: slots_ok_def m_def)
  have step1: "accept_step m i s = (s\<lparr>sv_pc := Reserving peer\<rparr>, None)"
    using assms(3,5) by (simp add: accept_step_def)
  have step2: "accept_step m i (s\<lparr>sv_pc := Reserving peer\<rparr>) = (s\<lparr>sv_pc := Loaded peer (sv_active_count s)\<rparr>, None)"
    using n by (simp add: accept_step_def)
  have step3: "accept_step m i (s\<lparr>sv_pc := Loaded peer (sv_active_count s)\<rparr>)
      = (s\<lparr>sv_active_count := sv_active_count s + 1, sv_pc := Reserved peer\<rparr>, None)"
    by (simp add: accept_step_def compare_exchange_def)
  have step4: "accept_step m i (s\<lparr>sv_active_count := sv_active_count s + 1, sv_pc := Reserved peer\<rparr>)
      = (s\<lparr>sv_active_count := sv_active_count s + 1, sv_pc := NotBanned peer, sv_ban_list := bl\<rparr>, None)"
    using assms(6) by (simp add: accept_step_def)
  have step5: "accept_step m i (s\<lparr>sv_active_count := sv_active_count s + 1, sv_pc := NotBanned peer, sv_ban_list := bl\<rparr>)
      = (s\<lparr>sv_active_count := sv_active_count s + 1, sv_pc := Listening, sv_tasks := peer # sv_tasks s,
           sv_ban_list := bl, sv_conn_limiter := cl\<rparr>, None)"
    using assms(7) by (simp add: accept_step_def)
  have "((\<lambda>s. fst (accept_step m i s)) ^^ 5) s = s\<lparr>sv_active_count := sv_active_count s + 1, sv_pc := Listening,
      sv_tasks := peer # sv_tasks s, sv_ban_list := bl, sv_conn_limiter := cl\<rparr>"
    by (simp add: numeral_eq_Suc step1 step2 step3 step4 step5)
  moreover have "accept_step m i (s\<lparr>sv_pc := Loaded peer c\<rparr>) = (s\<lparr>sv_pc := Reserving peer\<rparr>, None)"
    if "sv_active_count s < c" for c
    using that by (auto simp: accept_step_def compare_exchange_def)
  ultimately show ?thesis unfolding m_def [symmetric] by simp
qed


subsection \<open>Instances\<close>

definition sample_accept :: "nat accept_input" where
  "sample_accept = \<lparr>ai_accepted = Some 7, ai_now1 = 1, ai_now2 = 2, ai_now3 = 3\<rparr>"

abbreviation sample_server :: "nat server" where
  "sample_server \<equiv> server_new sample_config"

lemma sample_server_hyps:
  "pc_max_connections (c_pool sample_config) < 2 ^ 64" "0 < pc_max_connections (c_pool sample_config)"
  "BanList_is_banned (ai_now1 sample_accept) (ai_now2 sample_accept) 7 (sv_ban_list sample_server) = (False, sv_ban_list sample_server)"
  "ConnLimiter_check_and_record (ai_now1 sample_accept) (ai_now2 sample_accept) (ai_now3 sample_accept) 7
     (sv_conn_limiter sample_server) = (True, (ConnLimiter_new 10)\<lparr>cl_windows := [(7, [3])]\<rparr>)"
  by (simp_all add: sample_config_def sample_pool_config_def server_new_def BanList_is_banned_def BanList_new_def
      BanList_with_capacity_limit_def ConnLimiter_check_and_record_def ConnLimiter_new_def
      ConnLimiter_with_capacity_limit_def MAX_TRACKED_IPS_def checked_sub_instant_def secs_def sample_accept_def Let_def)

text \<open>One connection, through all five steps of the loop.\<close>

lemma sample_server_run:
  obtains s where "server_run sample_config s [Connect 7 1 2 3] [(7, 3)]" "sv_tasks s = [7 :: nat]" "sv_pc s = Listening"
proof -
  let ?m = "pc_max_connections (c_pool sample_config)"
  define s1 where "s1 = sample_server\<lparr>sv_pc := Reserving 7\<rparr>"
  define s2 where "s2 = sample_server\<lparr>sv_pc := Loaded 7 0\<rparr>"
  define s3 where "s3 = sample_server\<lparr>sv_pc := Reserved 7, sv_active_count := 1\<rparr>"
  define s4 where "s4 = sample_server\<lparr>sv_pc := NotBanned 7, sv_active_count := 1\<rparr>"
  define s5 where "s5 = sample_server\<lparr>sv_active_count := 1, sv_tasks := [7],
     sv_conn_limiter := (ConnLimiter_new 10)\<lparr>cl_windows := [(7, [3])]\<rparr>\<rparr>"
  have new: "sv_pc sample_server = Listening" "sv_active_count sample_server = 0" "sv_tasks sample_server = []"
    by (simp_all add: server_new_def)
  have "accept_step ?m sample_accept sample_server = (s1, None)"
    using new by (simp add: accept_step_def s1_def sample_accept_def)
  from server_run.accept [OF server_run.start this] have r1: "server_run sample_config s1 [] []" by (simp add: new)
  have "accept_step ?m sample_accept s1 = (s2, None)"
    using new sample_server_hyps(2) by (simp add: accept_step_def s1_def s2_def)
  from server_run.accept [OF r1 this] have r2: "server_run sample_config s2 [] []" by (simp add: s1_def)
  have "accept_step ?m sample_accept s2 = (s3, None)"
    using new by (simp add: accept_step_def s2_def s3_def compare_exchange_def)
  from server_run.accept [OF r2 this] have r3: "server_run sample_config s3 [] []" by (simp add: s2_def)
  have "accept_step ?m sample_accept s3 = (s4, None)"
    using sample_server_hyps(3) by (simp add: accept_step_def s3_def s4_def)
  from server_run.accept [OF r3 this] have r4: "server_run sample_config s4 [] []" by (simp add: s3_def)
  have "accept_step ?m sample_accept s4 = (s5, None)"
    using sample_server_hyps(4) new by (simp add: accept_step_def s4_def s5_def)
  from server_run.accept [OF r4 this] have "server_run sample_config s5 [Connect 7 1 2 3] [(7, 3)]"
    by (simp add: s4_def sample_accept_def)
  then show thesis by (rule that) (simp_all add: s5_def new)
qed


theorem sessions_started_witness:
  "\<exists>(s :: nat server) ops. server_run sample_config s ops [(7, 3)]
     \<and> length (filter (\<lambda>u. 4 < u + secs 60 \<and> u \<le> 4) (allowed_times [(7, 3)] (7 :: nat))) \<le> 10"
proof -
  obtain s where s: "server_run sample_config s [Connect 7 1 2 3] [(7 :: nat, 3)]" by (rule sample_server_run)
  moreover have "clock_ok 0 [Connect (7 :: nat) 1 2 3]" by simp
  ultimately show ?thesis
    using sessions_started_are_rate_limited [of sample_config s "[Connect 7 1 2 3]" "[(7, 3)]" 4 7]
    by (auto simp: sample_config_def)
qed

theorem free_slot_witness:
  "sv_tasks (((\<lambda>s. fst (accept_step (pc_max_connections (c_pool sample_config)) sample_accept s)) ^^ 5) sample_server) = [7]"
proof -
  have "sv_pc sample_server = Listening" "sv_tasks sample_server = []" "ai_accepted sample_accept = Some 7"
    by (simp_all add: server_new_def sample_accept_def)
  then show ?thesis
    using free_slot_is_granted [OF server_run.start sample_server_hyps(1) _ _ _ sample_server_hyps(3,4)] sample_server_hyps(2)
    by simp
qed

end
