(* ===== verification/Loops.thy ===== *)
theory Loops
  imports Server Sv2_Session
begin

text \<open>
  The session loops: \<open>run\<close> of \<^verbatim>\<open>src/src/network/session.rs\<close> and of
  \<^verbatim>\<open>src/src/protocol/sv2/mod.rs\<close>. A connection is the session with the variables of its
  loop; \<open>tokio::select!\<close> waits for one of its arms, so a turn takes the arm that completed
  (\<open>v1_arm\<close>, \<open>v2_arm\<close>) as an input, and \<open>v1_ready\<close>, \<open>v2_ready\<close> say when an arm can complete.
  A read cancelled by another arm after it has taken bytes from the stream is an arm of its
  own, \<open>ReadCancelled\<close>. Writes to the socket succeed or fail as an input says. The theorems
  show that cancelled reads lose no byte, that only silence of the peer itself (never jobs or
  retargets sent to it) lets a deadline pass, and that only an oversize message gets a peer banned.
\<close>

section \<open>State and inputs\<close>

datatype loop_end =
    TimedOut | TooLarge | ReadFailed | PeerClosed | NotUtf8 | WriteFailed | Disconnected string | JobsGone | Crashed

datatype loop_call =
    Session session_effect
  | MMinerConnected | SMinerConnected | MMinerDisconnected | SMinerDisconnected
  | MMinerDisconnect string string
  | MUpdateHashrate f64 string
  | SUpdateWorkerHashrate string f64 f64 f64 f64
  | MSessionClosed "string option" u64 nat
  | BanPeer string

datatype job_recv = JobReceived job_broadcast | JobsLagged nat | JobsClosed

record loop_io =
  lo_now :: nat
  lo_h60 :: nat
  lo_h10 :: nat
  lo_h3 :: nat
  lo_h24 :: nat
  lo_write :: "nat \<Rightarrow> bool"

text \<open>The four windows of the hashrate, each with its own reading of the clock.\<close>

definition hashrate_calls :: "loop_io \<Rightarrow> string option \<Rightarrow> vardiff \<Rightarrow> loop_call list" where
  "hashrate_calls io worker v =
     (let hr_60s = estimated_hashrate_in_window (lo_h60 io) (secs 60) v;
          hr_10m = estimated_hashrate_in_window (lo_h10 io) (secs 600) v;
          hr_3h = estimated_hashrate_in_window (lo_h3 io) (secs 10800) v;
          hr_24h = estimated_hashrate_in_window (lo_h24 io) (secs 86400) v
      in case worker of
           None \<Rightarrow> []
         | Some w \<Rightarrow> [MUpdateHashrate hr_10m w, SUpdateWorkerHashrate w hr_60s hr_10m hr_3h hr_24h])"

text \<open>\<open>std::str::from_utf8\<close>; a string is kept as its bytes.\<close>

definition from_utf8 :: "bytes \<Rightarrow> string option" where
  "from_utf8 bs = (if utf8_valid bs then Some (map (\<lambda>b. char_of (unat b)) bs) else None)"

section \<open>Stratum V1\<close>

text \<open>The reader is the list of pieces the socket will still hand out; its end is the end of the stream.\<close>

record v1_conn =
  vc_session :: session
  vc_line_buf :: bytes
  vc_reader :: "bytes list"
  vc_last_inbound :: nat
  vc_preauth_deadline :: nat

text \<open>Each message on its own line, then the flush; \<open>w k\<close> tells whether the \<open>k\<close>-th of these calls succeeds.\<close>

fun send_messages :: "(nat \<Rightarrow> bool) \<Rightarrow> nat \<Rightarrow> json list \<Rightarrow> bool \<times> json list" where
  "send_messages w k [] = (w k, [])"
| "send_messages w k (m # ms) =
     (if \<not> w k then (False, []) else let (ok, sent) = send_messages w (Suc k) ms in (ok, m # sent))"

definition v1_open ::
  "nat \<Rightarrow> nat \<Rightarrow> nat \<Rightarrow> nat \<Rightarrow> nat \<Rightarrow> nat \<Rightarrow> nat \<Rightarrow> u64 \<Rightarrow> 'ip \<Rightarrow> string \<Rightarrow> config \<Rightarrow> bytes list \<Rightarrow> template_engine
     \<Rightarrow> 'ip ban_list \<Rightarrow> u64 \<Rightarrow> (v1_conn \<times> loop_call list) option \<times> 'ip ban_list \<times> u64" where
  "v1_open b1 b2 now1 now2 now3 now4 now rnd ip peer cfg reader e bl counter =
     (let (banned, bl1) = BanList_is_banned b1 b2 ip bl
      in if banned then (None, bl1, counter)
         else
           let (extranonce1, counter1) = generate_extranonce1 (pc_extranonce1_size (c_pool cfg)) counter;
               s = Session_new now1 now2 now3 now4 rnd peer cfg extranonce1;
               s1 = (case en_current_job e of Some job \<Rightarrow> s\<lparr>se_current_job := Some job\<rparr> | None \<Rightarrow> s)
           in (Some (\<lparr>vc_session = s1, vc_line_buf = [], vc_reader = reader, vc_last_inbound = now,
                      vc_preauth_deadline = now + secs (unat HANDSHAKE_TIMEOUT_SECS)\<rparr>,
                     [MMinerConnected, SMinerConnected]), bl1, counter1))"

definition v1_deadline :: "config \<Rightarrow> v1_conn \<Rightarrow> nat" where
  "v1_deadline cfg c =
     (if se_authorized (vc_session c) then vc_last_inbound c + secs (unat (pc_idle_timeout_secs (c_pool cfg)))
      else vc_preauth_deadline c)"

datatype v1_arm =
    DeadlinePassed
  | ReadErrored
  | ReadCancelled
  | ReadCompleted line_io
  | RetargetDue nat nat nat
  | JobArrived job_recv

definition v1_max :: "v1_conn \<Rightarrow> nat" where
  "v1_max c = sg_max_message_bytes (se_guard (vc_session c))"

text \<open>When an arm can complete at time \<open>now\<close>.\<close>

fun v1_ready :: "config \<Rightarrow> nat \<Rightarrow> v1_arm \<Rightarrow> v1_conn \<Rightarrow> bool" where
  "v1_ready cfg now DeadlinePassed c = (v1_deadline cfg c \<le> now)"
| "v1_ready cfg now ReadCancelled c =
     (case vc_reader c of
        [] \<Rightarrow> False
      | available # rest \<Rightarrow> available \<noteq> [] \<and> 10 \<notin> set available \<and> length (vc_line_buf c @ available) \<le> v1_max c)"
| "v1_ready cfg now (RetargetDue _ _ _) c =
     (se_subscribed (vc_session c) \<and> se_authorized (vc_session c) \<and> retarget_due (se_vardiff (vc_session c)) \<le> now)"
| "v1_ready cfg now _ c = True"

type_synonym v1_turned = "loop_end option \<times> v1_conn \<times> template_engine \<times> json list \<times> loop_call list"

text \<open>What the loop does with a complete line.\<close>

definition v1_line ::
  "crates \<Rightarrow> (string \<Rightarrow> stratum_request option) \<Rightarrow> loop_io \<Rightarrow> line_io \<Rightarrow> string \<Rightarrow> template_engine \<Rightarrow> v1_conn \<Rightarrow> v1_turned" where
  "v1_line C parse lo io line e c =
     (case handle_line C parse io line e (vc_session c) of
        Ok (Messages msgs, s, e1, effs) \<Rightarrow>
          (let (ok, sent) = send_messages (lo_write lo) 0 msgs; c1 = c\<lparr>vc_session := s\<rparr>
           in if \<not> ok then (Some WriteFailed, c1, e1, sent, map Session effs)
              else (None, c1, e1, sent, map Session effs @ hashrate_calls lo (se_worker s) (se_vardiff s)))
      | Ok (Disconnect reason, s, e1, effs) \<Rightarrow>
          (Some (Disconnected reason), c\<lparr>vc_session := s\<rparr>, e1, [],
           map Session effs @ (case se_worker s of None \<Rightarrow> [] | Some w \<Rightarrow> [MMinerDisconnect reason w]))
      | _ \<Rightarrow> (Some Crashed, c, e, [], []))"

definition v1_inbound ::
  "crates \<Rightarrow> (string \<Rightarrow> stratum_request option) \<Rightarrow> loop_io \<Rightarrow> line_io \<Rightarrow> template_engine \<Rightarrow> v1_conn \<Rightarrow> v1_turned" where
  "v1_inbound C parse lo io e c =
     (let (res, buf, reader) = read_line_bounded (v1_max c) (vc_line_buf c) (vc_reader c);
          c1 = c\<lparr>vc_line_buf := buf, vc_reader := reader\<rparr>
      in case res of
           LineTooLong \<Rightarrow> (Some TooLarge, c1, e, [], [BanPeer ''message too large''])
         | EndOfFile \<Rightarrow> (Some PeerClosed, c1, e, [], [])
         | LineRead _ \<Rightarrow>
             (let c2 = c1\<lparr>vc_last_inbound := lo_now lo\<rparr>
              in case from_utf8 buf of
                   None \<Rightarrow> (Some NotUtf8, c2, e, [], [])
                 | Some line \<Rightarrow> v1_line C parse lo io line e (c2\<lparr>vc_line_buf := []\<rparr>)))"

definition v1_retarget :: "loop_io \<Rightarrow> nat \<Rightarrow> nat \<Rightarrow> nat \<Rightarrow> template_engine \<Rightarrow> v1_conn \<Rightarrow> v1_turned" where
  "v1_retarget lo now1 now2 now3 e c =
     (case on_retarget_timer now1 now2 now3 (vc_session c) of
        Ok (msgs, s, effs) \<Rightarrow>
          (let (ok, sent) = (if msgs = [] then (True, []) else send_messages (lo_write lo) 0 msgs)
           in (if ok then None else Some WriteFailed, c\<lparr>vc_session := s\<rparr>, e, sent, map Session effs))
      | _ \<Rightarrow> (Some Crashed, c, e, [], []))"

definition v1_job :: "crates \<Rightarrow> loop_io \<Rightarrow> job_recv \<Rightarrow> template_engine \<Rightarrow> v1_conn \<Rightarrow> v1_turned" where
  "v1_job C lo r e c =
     (case r of
        JobReceived b \<Rightarrow>
          (let (msgs, s) = on_job_broadcast C b (vc_session c);
               (ok, sent) = (if msgs = [] then (True, []) else send_messages (lo_write lo) 0 msgs)
           in (if ok then None else Some WriteFailed, c\<lparr>vc_session := s\<rparr>, e, sent, []))
      | JobsLagged _ \<Rightarrow> (None, c, e, [], [])
      | JobsClosed \<Rightarrow> (Some JobsGone, c, e, [], []))"

fun v1_turn ::
  "crates \<Rightarrow> (string \<Rightarrow> stratum_request option) \<Rightarrow> loop_io \<Rightarrow> v1_arm \<Rightarrow> template_engine \<Rightarrow> v1_conn \<Rightarrow> v1_turned" where
  "v1_turn C parse lo DeadlinePassed e c = (Some TimedOut, c, e, [], [])"
| "v1_turn C parse lo ReadErrored e c = (Some ReadFailed, c, e, [], [])"
| "v1_turn C parse lo ReadCancelled e c =
     (None, c\<lparr>vc_line_buf := vc_line_buf c @ hd (vc_reader c), vc_reader := tl (vc_reader c)\<rparr>, e, [], [])"
| "v1_turn C parse lo (ReadCompleted io) e c = v1_inbound C parse lo io e c"
| "v1_turn C parse lo (RetargetDue now1 now2 now3) e c = v1_retarget lo now1 now2 now3 e c"
| "v1_turn C parse lo (JobArrived r) e c = v1_job C lo r e c"

text \<open>After the loop.\<close>

definition v1_finish :: "nat \<Rightarrow> nat \<Rightarrow> v1_conn \<Rightarrow> loop_call list" where
  "v1_finish now1 now2 c =
     [MMinerDisconnected, SMinerDisconnected] @ map Session (close_session now2 (vc_session c))
     @ [MSessionClosed (se_worker (vc_session c))
          (se_shares_accepted (vc_session c) + se_shares_rejected (vc_session c)) (now1 - se_connect_time (vc_session c))]"

section \<open>Stratum V2\<close>

text \<open>The frames the reader task has forwarded and not yet handed over, then the end of its channel.\<close>

record v2_conn =
  wc_session :: sv2_session
  wc_inbound :: "(byte \<times> bytes) list"
  wc_last_inbound :: nat
  wc_preauth_deadline :: nat

datatype handshake_end = HandshakeTimedOut | HandshakeFailed | HandshakeDone

definition v2_open ::
  "nat \<Rightarrow> nat \<Rightarrow> nat \<Rightarrow> nat \<Rightarrow> nat \<Rightarrow> nat \<Rightarrow> nat \<Rightarrow> handshake_end \<Rightarrow> 'ip \<Rightarrow> string \<Rightarrow> config \<Rightarrow> (byte \<times> bytes) list
     \<Rightarrow> template_engine \<Rightarrow> 'ip ban_list \<Rightarrow> u64 \<Rightarrow> (v2_conn \<times> loop_call list) option \<times> 'ip ban_list \<times> u64" where
  "v2_open b1 b2 now1 now2 now3 now4 now handshake ip peer cfg inbound e bl counter =
     (let (banned, bl1) = BanList_is_banned b1 b2 ip bl
      in if banned \<or> handshake \<noteq> HandshakeDone then (None, bl1, counter)
         else
           let (extranonce_prefix, counter1) = generate_extranonce1 (pc_extranonce1_size (c_pool cfg)) counter;
               s = Sv2Session_new now1 now2 now3 now4 peer cfg extranonce_prefix;
               s1 = (case en_current_job e of Some job \<Rightarrow> s\<lparr>s2_pending_job := Some job\<rparr> | None \<Rightarrow> s)
           in (Some (\<lparr>wc_session = s1, wc_inbound = inbound, wc_last_inbound = now,
                      wc_preauth_deadline = now + secs (unat HANDSHAKE_TIMEOUT_SECS)\<rparr>,
                     [MMinerConnected, SMinerConnected]), bl1, counter1))"

definition v2_deadline :: "config \<Rightarrow> v2_conn \<Rightarrow> nat" where
  "v2_deadline cfg c =
     (if s2_channel_open (wc_session c) then wc_last_inbound c + secs (unat (pc_idle_timeout_secs (c_pool cfg)))
      else wc_preauth_deadline c)"

datatype v2_arm =
    FrameDeadline
  | FrameArrived sv2_io
  | TargetDue nat nat nat
  | JobPushed job_recv

fun v2_ready :: "config \<Rightarrow> nat \<Rightarrow> v2_arm \<Rightarrow> v2_conn \<Rightarrow> bool" where
  "v2_ready cfg now FrameDeadline c = (v2_deadline cfg c \<le> now)"
| "v2_ready cfg now (TargetDue _ _ _) c =
     (s2_channel_open (wc_session c) \<and> retarget_due (s2_vardiff (wc_session c)) \<le> now)"
| "v2_ready cfg now _ c = True"

type_synonym v2_turned =
  "loop_end option \<times> v2_conn \<times> template_engine \<times> sv2_globals \<times> sv2_message list \<times> loop_call list"

definition v2_message ::
  "crates \<Rightarrow> sv2_codec \<Rightarrow> loop_io \<Rightarrow> sv2_io \<Rightarrow> byte \<Rightarrow> bytes \<Rightarrow> template_engine \<Rightarrow> sv2_globals \<Rightarrow> v2_conn \<Rightarrow> v2_turned" where
  "v2_message C K lo io msg_type payload e gl c =
     (case handle_message C K io msg_type payload e gl (wc_session c) of
        Ok ((Continue, s, e1, sent, effs), gl1) \<Rightarrow>
          (None, c\<lparr>wc_session := s\<rparr>, e1, gl1, sent,
           map Session effs @ (if s2_channel_open s then hashrate_calls lo (s2_worker s) (s2_vardiff s) else []))
      | Ok ((FlowDisconnect reason, s, e1, sent, effs), gl1) \<Rightarrow>
          (Some (Disconnected reason), c\<lparr>wc_session := s\<rparr>, e1, gl1, sent,
           map Session effs @ (case s2_worker s of None \<Rightarrow> [] | Some w \<Rightarrow> [MMinerDisconnect reason w]))
      | _ \<Rightarrow> (Some Crashed, c, e, gl, [], []))"

definition v2_inbound ::
  "crates \<Rightarrow> sv2_codec \<Rightarrow> loop_io \<Rightarrow> sv2_io \<Rightarrow> template_engine \<Rightarrow> sv2_globals \<Rightarrow> v2_conn \<Rightarrow> v2_turned" where
  "v2_inbound C K lo io e gl c =
     (case wc_inbound c of
        [] \<Rightarrow> (Some PeerClosed, c, e, gl, [], [])
      | (msg_type, payload) # rest \<Rightarrow>
          (let c1 = c\<lparr>wc_inbound := rest, wc_last_inbound := lo_now lo\<rparr>
           in case SessionGuard_check_message_size (s2_guard (wc_session c1)) (length payload) of
                Err _ \<Rightarrow> (Some TooLarge, c1, e, gl, [], [BanPeer ''message too large''])
              | _ \<Rightarrow> v2_message C K lo io msg_type payload e gl c1))"

definition v2_retarget :: "loop_io \<Rightarrow> nat \<Rightarrow> nat \<Rightarrow> nat \<Rightarrow> template_engine \<Rightarrow> sv2_globals \<Rightarrow> v2_conn \<Rightarrow> v2_turned" where
  "v2_retarget lo now1 now2 now3 e gl c =
     (case sv2_on_retarget_timer (lo_write lo) now1 now2 now3 (wc_session c) of
        Ok (ok, s, sent, effs) \<Rightarrow>
          (if ok then None else Some WriteFailed, c\<lparr>wc_session := s\<rparr>, e, gl, sent, map Session effs)
      | _ \<Rightarrow> (Some Crashed, c, e, gl, [], []))"

definition v2_job :: "crates \<Rightarrow> loop_io \<Rightarrow> job_recv \<Rightarrow> template_engine \<Rightarrow> sv2_globals \<Rightarrow> v2_conn \<Rightarrow> v2_turned" where
  "v2_job C lo r e gl c =
     (case r of
        JobReceived b \<Rightarrow>
          (let (ok, s, sent) = sv2_on_job_broadcast C (lo_write lo) b (wc_session c)
           in (if ok then None else Some WriteFailed, c\<lparr>wc_session := s\<rparr>, e, gl, sent, []))
      | JobsLagged _ \<Rightarrow> (None, c, e, gl, [], [])
      | JobsClosed \<Rightarrow> (Some JobsGone, c, e, gl, [], []))"

fun v2_turn ::
  "crates \<Rightarrow> sv2_codec \<Rightarrow> loop_io \<Rightarrow> v2_arm \<Rightarrow> template_engine \<Rightarrow> sv2_globals \<Rightarrow> v2_conn \<Rightarrow> v2_turned" where
  "v2_turn C K lo FrameDeadline e gl c = (Some TimedOut, c, e, gl, [], [])"
| "v2_turn C K lo (FrameArrived io) e gl c = v2_inbound C K lo io e gl c"
| "v2_turn C K lo (TargetDue now1 now2 now3) e gl c = v2_retarget lo now1 now2 now3 e gl c"
| "v2_turn C K lo (JobPushed r) e gl c = v2_job C lo r e gl c"

definition v2_finish :: "nat \<Rightarrow> nat \<Rightarrow> v2_conn \<Rightarrow> loop_call list" where
  "v2_finish now1 now2 c =
     [MMinerDisconnected, SMinerDisconnected] @ map Session (sv2_close_session now2 (wc_session c))
     @ [MSessionClosed (s2_worker (wc_session c))
          (s2_shares_accepted (wc_session c) + s2_shares_rejected (wc_session c)) (now1 - s2_connect_time (wc_session c))]"

section \<open>Lemmas on the reader\<close>

text \<open>What a read says of the stream: the bytes it took, and the line among them.\<close>

definition line_taken :: "bytes \<Rightarrow> bytes list \<Rightarrow> bytes \<Rightarrow> bytes list \<Rightarrow> bool" where
  "line_taken buf chunks line rest \<longleftrightarrow>
     (\<exists>raw. line = strip_cr raw \<and> 10 \<notin> set raw \<and> buf @ concat chunks = raw @ 10 # concat rest)
     \<or> rest = [] \<and> line = buf @ concat chunks \<and> 10 \<notin> set line"

lemma read_line_taken:
  assumes "read_line_bounded m buf chunks = (LineRead n, line, rest)" and "[] \<notin> set chunks" and "10 \<notin> set buf"
  shows "line_taken buf chunks line rest \<and> [] \<notin> set rest"
  using assms
proof (induction m buf chunks rule: read_line_bounded.induct)
  case (1 m buf)
  then show ?case by (auto simp: line_taken_def split: if_splits)
next
  case (2 m buf available chunks)
  have ne: "available \<noteq> []" using "2.prems"(2) by auto
  show ?case
  proof (cases "10 \<in> set available")
    case True
    let ?l = "takeWhile (\<lambda>b. b \<noteq> 10) available"
    have split: "available = ?l @ 10 # drop (length ?l + 1) available" using split_at_newline [OF True] by simp
    have "10 \<notin> set (buf @ ?l)" using "2.prems"(3) set_takeWhileD by fastforce
    moreover have "line = strip_cr (buf @ ?l)" "concat rest = drop (length ?l + 1) available @ concat chunks" "[] \<notin> set rest"
      using "2.prems" True ne by (auto simp: Let_def strip_cr_def split: if_splits)
    moreover have "buf @ concat (available # chunks) = (buf @ ?l) @ 10 # drop (length ?l + 1) available @ concat chunks"
      using split by (metis append.assoc append_Cons concat.simps(2))
    ultimately show ?thesis unfolding line_taken_def by metis
  next
    case False
    have "\<not> length (buf @ available) > m" and r: "read_line_bounded m (buf @ available) chunks = (LineRead n, line, rest)"
      using "2.prems"(1) ne False by (auto simp: Let_def split: if_splits)
    then have "line_taken (buf @ available) chunks line rest \<and> [] \<notin> set rest"
      using "2.IH" ne False "2.prems" by simp
    then show ?thesis by (simp add: line_taken_def)
  qed
qed

lemma read_line_too_long:
  "read_line_bounded m buf chunks = (LineTooLong, buf', rest) \<Longrightarrow> m < length buf'"
  by (induction m buf chunks rule: read_line_bounded.induct) (auto simp: Let_def split: if_splits)

section \<open>Runs of a connection\<close>

text \<open>The lines handed to the session so far, each with the time it was taken.\<close>

fun v1_delivered :: "loop_io \<Rightarrow> v1_arm \<Rightarrow> v1_conn \<Rightarrow> (nat \<times> bytes) list" where
  "v1_delivered lo (ReadCompleted io) c =
     (case read_line_bounded (v1_max c) (vc_line_buf c) (vc_reader c) of
        (LineRead _, buf, _) \<Rightarrow> [(lo_now lo, buf)]
      | _ \<Rightarrow> [])"
| "v1_delivered lo _ c = []"

inductive v1_run ::
  "crates \<Rightarrow> (string \<Rightarrow> stratum_request option) \<Rightarrow> config \<Rightarrow> v1_conn \<Rightarrow> v1_conn \<Rightarrow> template_engine \<Rightarrow> (nat \<times> bytes) list \<Rightarrow> bool"
  for C :: crates and parse :: "string \<Rightarrow> stratum_request option" and cfg :: config and c0 :: v1_conn where
  start: "v1_run C parse cfg c0 c0 e []"
| turn: "v1_run C parse cfg c0 c e lines \<Longrightarrow> v1_ready cfg now arm c
    \<Longrightarrow> v1_turn C parse lo arm e c = (None, c', e', sent, calls)
    \<Longrightarrow> v1_run C parse cfg c0 c' e' (lines @ v1_delivered lo arm c)"
| elsewhere: "v1_run C parse cfg c0 c e lines \<Longrightarrow> v1_run C parse cfg c0 c e' lines"

text \<open>A turn that goes on: only a completed read moves the stream and the time of the last line.\<close>

lemma v1_line_conn:
  "v1_line C parse lo io line e c = (fin, c', e', sent, calls) \<Longrightarrow> \<exists>s. c' = c\<lparr>vc_session := s\<rparr>"
proof -
  assume "v1_line C parse lo io line e c = (fin, c', e', sent, calls)"
  then have "c' = c \<or> (\<exists>s. c' = c\<lparr>vc_session := s\<rparr>)"
    by (auto simp: v1_line_def Let_def split: outcome.splits prod.splits handle_result.splits if_splits)
  moreover have "c = c\<lparr>vc_session := vc_session c\<rparr>" by simp
  ultimately show ?thesis by metis
qed

lemma v1_inbound_continues:
  assumes "v1_inbound C parse lo io e c = (None, c', e', sent, calls)"
  obtains n line rest where "read_line_bounded (v1_max c) (vc_line_buf c) (vc_reader c) = (LineRead n, line, rest)"
    "vc_line_buf c' = []" "vc_reader c' = rest" "vc_last_inbound c' = lo_now lo" "vc_preauth_deadline c' = vc_preauth_deadline c"
proof -
  obtain res buf rest where r: "read_line_bounded (v1_max c) (vc_line_buf c) (vc_reader c) = (res, buf, rest)"
    using prod_cases3 by blast
  obtain n line where "res = LineRead n" and u: "from_utf8 buf = Some line"
    and l: "v1_line C parse lo io line e (c\<lparr>vc_reader := rest, vc_last_inbound := lo_now lo, vc_line_buf := []\<rparr>)
      = (None, c', e', sent, calls)"
    using assms r by (auto simp: v1_inbound_def Let_def split: read_result.splits option.splits)
  with r v1_line_conn [OF l] show thesis using that by auto
qed

lemma v1_turn_continues:
  assumes "v1_turn C parse lo arm e c = (None, c', e', sent, calls)"
  obtains (read) io n line rest where "arm = ReadCompleted io"
      "read_line_bounded (v1_max c) (vc_line_buf c) (vc_reader c) = (LineRead n, line, rest)"
      "vc_line_buf c' = []" "vc_reader c' = rest" "vc_last_inbound c' = lo_now lo" "vc_preauth_deadline c' = vc_preauth_deadline c"
    | (cancelled) "arm = ReadCancelled"
      "c' = c\<lparr>vc_line_buf := vc_line_buf c @ hd (vc_reader c), vc_reader := tl (vc_reader c)\<rparr>"
    | (other) s where "v1_delivered lo arm c = []" "c' = c\<lparr>vc_session := s\<rparr>"
proof (cases arm)
  case (ReadCompleted io)
  with assms have "v1_inbound C parse lo io e c = (None, c', e', sent, calls)" by simp
  then show ?thesis by (rule v1_inbound_continues) (rule read [OF ReadCompleted])
next
  case (RetargetDue now1 now2 now3)
  with assms have "\<exists>s. c' = c\<lparr>vc_session := s\<rparr>"
    by (auto simp: v1_retarget_def Let_def split: outcome.splits prod.splits if_splits)
  then show ?thesis using RetargetDue other by auto
next
  case (JobArrived r)
  have "c' = c \<or> (\<exists>s. c' = c\<lparr>vc_session := s\<rparr>)"
    using assms JobArrived by (auto simp: v1_job_def Let_def split: job_recv.splits prod.splits if_splits)
  moreover have "c = c\<lparr>vc_session := vc_session c\<rparr>" by simp
  ultimately have "\<exists>s. c' = c\<lparr>vc_session := s\<rparr>" by metis
  then show ?thesis using JobArrived other by auto
qed (use assms cancelled in auto)

definition stream_kept :: "bytes \<Rightarrow> bytes list \<Rightarrow> bytes \<Rightarrow> bytes list \<Rightarrow> bool" where
  "stream_kept input lines buf reader \<longleftrightarrow>
     (\<exists>raws. lines = map strip_cr raws \<and> list_all (\<lambda>r. 10 \<notin> set r) raws
        \<and> input = concat (map (\<lambda>r. r @ [10]) raws) @ buf @ concat reader)
     \<or> buf = [] \<and> reader = [] \<and> (\<exists>raws r. lines = map strip_cr raws @ [r] \<and> list_all (\<lambda>r. 10 \<notin> set r) (raws @ [r])
        \<and> input = concat (map (\<lambda>r. r @ [10]) raws) @ r)"

lemma stream_kept_line:
  assumes "stream_kept input lines buf reader" and "line_taken buf reader line rest" and "buf \<noteq> [] \<or> reader \<noteq> []"
  shows "stream_kept input (lines @ [line]) [] rest"
proof -
  obtain raws where raws: "lines = map strip_cr raws" "list_all (\<lambda>r. 10 \<notin> set r) raws"
    "input = concat (map (\<lambda>r. r @ [10]) raws) @ buf @ concat reader"
    using assms(1,3) by (auto simp: stream_kept_def)
  consider raw where "line = strip_cr raw" "10 \<notin> set raw" "buf @ concat reader = raw @ 10 # concat rest"
    | "rest = []" "line = buf @ concat reader" "10 \<notin> set line"
    using assms(2) by (auto simp: line_taken_def)
  then show ?thesis
  proof cases
    case (1 raw)
    then show ?thesis unfolding stream_kept_def
      by (intro disjI1 exI [of _ "raws @ [raw]"]) (simp add: raws)
  next
    case 2
    then show ?thesis unfolding stream_kept_def
      by (intro disjI2 conjI exI [of _ raws] exI [of _ line]) (simp_all add: raws)
  qed
qed

text \<open>The invariant of a run.\<close>

definition v1_run_inv :: "v1_conn \<Rightarrow> v1_conn \<Rightarrow> (nat \<times> bytes) list \<Rightarrow> bool" where
  "v1_run_inv c0 c lines \<longleftrightarrow> stream_kept (concat (vc_reader c0)) (map snd lines) (vc_line_buf c) (vc_reader c)
     \<and> [] \<notin> set (vc_reader c) \<and> 10 \<notin> set (vc_line_buf c)
     \<and> vc_last_inbound c = (if lines = [] then vc_last_inbound c0 else fst (last lines))
     \<and> vc_preauth_deadline c = vc_preauth_deadline c0"

lemma v1_turn_inv:
  assumes inv: "v1_run_inv c0 c lines" and ready: "v1_ready cfg now arm c"
    and t: "v1_turn C parse lo arm e c = (None, c', e', sent, calls)"
  shows "v1_run_inv c0 c' (lines @ v1_delivered lo arm c)"
  using t
proof (cases rule: v1_turn_continues)
  case (read io n line rest)
  have taken: "line_taken (vc_line_buf c) (vc_reader c) line rest \<and> [] \<notin> set rest"
    using read_line_taken [OF read(2)] inv by (simp add: v1_run_inv_def)
  have "vc_line_buf c \<noteq> [] \<or> vc_reader c \<noteq> []" using read(2) by auto
  then have "stream_kept (concat (vc_reader c0)) (map snd lines @ [line]) [] rest"
    using stream_kept_line [of "concat (vc_reader c0)" "map snd lines" "vc_line_buf c" "vc_reader c" line rest] inv taken
    by (simp add: v1_run_inv_def)
  then show ?thesis using read inv taken by (simp add: v1_run_inv_def)
next
  case cancelled
  then obtain available rest where r: "vc_reader c = available # rest" "10 \<notin> set available"
    using ready by (auto split: list.splits)
  have "stream_kept input ls (buf @ available) rest" if "stream_kept input ls buf (available # rest)" for input ls buf
    using that by (auto simp: stream_kept_def)
  then show ?thesis using cancelled r inv by (simp add: v1_run_inv_def)
next
  case (other s)
  then show ?thesis using inv by (simp add: v1_run_inv_def)
qed

lemma v1_run_keeps:
  assumes "v1_run C parse cfg c0 c e lines" and "vc_line_buf c0 = []" and "[] \<notin> set (vc_reader c0)"
  shows "v1_run_inv c0 c lines"
  using assms
proof (induction rule: v1_run.induct)
  case (start e)
  then show ?case by (simp add: v1_run_inv_def stream_kept_def)
qed (auto intro: v1_turn_inv)

section \<open>Lemmas on the channel loop\<close>

fun v2_delivered :: "loop_io \<Rightarrow> v2_arm \<Rightarrow> v2_conn \<Rightarrow> (nat \<times> byte \<times> bytes) list" where
  "v2_delivered lo (FrameArrived io) c = (case wc_inbound c of [] \<Rightarrow> [] | m # _ \<Rightarrow> [(lo_now lo, m)])"
| "v2_delivered lo _ c = []"

inductive v2_run ::
  "crates \<Rightarrow> sv2_codec \<Rightarrow> config \<Rightarrow> v2_conn \<Rightarrow> v2_conn \<Rightarrow> template_engine \<Rightarrow> sv2_globals \<Rightarrow> (nat \<times> byte \<times> bytes) list \<Rightarrow> bool"
  for C :: crates and K :: sv2_codec and cfg :: config and c0 :: v2_conn where
  start: "v2_run C K cfg c0 c0 e gl []"
| turn: "v2_run C K cfg c0 c e gl frames \<Longrightarrow> v2_ready cfg now arm c
    \<Longrightarrow> v2_turn C K lo arm e gl c = (None, c', e', gl', sent, calls)
    \<Longrightarrow> v2_run C K cfg c0 c' e' gl' (frames @ v2_delivered lo arm c)"
| elsewhere: "v2_run C K cfg c0 c e gl frames \<Longrightarrow> v2_run C K cfg c0 c e' gl' frames"

definition v2_run_inv :: "v2_conn \<Rightarrow> v2_conn \<Rightarrow> (nat \<times> byte \<times> bytes) list \<Rightarrow> bool" where
  "v2_run_inv c0 c frames \<longleftrightarrow> wc_inbound c0 = map snd frames @ wc_inbound c
     \<and> wc_last_inbound c = (if frames = [] then wc_last_inbound c0 else fst (last frames))
     \<and> wc_preauth_deadline c = wc_preauth_deadline c0"

lemma v2_message_conn:
  assumes "v2_message C K lo io t payload e gl c = (fin, c', e', gl', sent, calls)"
  shows "wc_inbound c' = wc_inbound c \<and> wc_last_inbound c' = wc_last_inbound c \<and> wc_preauth_deadline c' = wc_preauth_deadline c"
  using assms by (auto simp: v2_message_def Let_def split: outcome.splits prod.splits flow.splits)

lemma v2_turn_inv:
  assumes inv: "v2_run_inv c0 c frames" and t: "v2_turn C K lo arm e gl c = (None, c', e', gl', sent, calls)"
  shows "v2_run_inv c0 c' (frames @ v2_delivered lo arm c)"
proof (cases arm)
  case (FrameArrived io)
  then obtain m payload rest where m: "wc_inbound c = (m, payload) # rest"
    and h: "v2_message C K lo io m payload e gl (c\<lparr>wc_inbound := rest, wc_last_inbound := lo_now lo\<rparr>)
      = (None, c', e', gl', sent, calls)"
    using t by (auto simp: v2_inbound_def Let_def split: list.splits outcome.splits)
  show ?thesis using v2_message_conn [OF h] inv m FrameArrived by (simp add: v2_run_inv_def)
next
  case (TargetDue now1 now2 now3)
  then have "wc_inbound c' = wc_inbound c \<and> wc_last_inbound c' = wc_last_inbound c \<and> wc_preauth_deadline c' = wc_preauth_deadline c"
    using t by (auto simp: v2_retarget_def split: outcome.splits prod.splits if_splits)
  then show ?thesis using inv TargetDue by (simp add: v2_run_inv_def)
next
  case (JobPushed r)
  then have "wc_inbound c' = wc_inbound c \<and> wc_last_inbound c' = wc_last_inbound c \<and> wc_preauth_deadline c' = wc_preauth_deadline c"
    using t by (auto simp: v2_job_def Let_def split: job_recv.splits prod.splits if_splits)
  then show ?thesis using inv JobPushed by (simp add: v2_run_inv_def)
qed (use t in simp)

lemma v2_run_keeps: "v2_run C K cfg c0 c e gl frames \<Longrightarrow> v2_run_inv c0 c frames"
  by (induction rule: v2_run.induct) (auto simp: v2_turn_inv, simp add: v2_run_inv_def)

section \<open>Lemmas on bans\<close>

lemma hashrate_no_ban: "BanPeer r \<notin> set (hashrate_calls lo w v)"
  by (simp add: hashrate_calls_def Let_def split: option.split)

lemma v1_line_no_ban:
  "v1_line C parse lo io line e c = (fin, c', e', sent, calls) \<Longrightarrow> BanPeer r \<notin> set calls \<and> fin \<noteq> Some TooLarge"
  by (auto simp: v1_line_def Let_def hashrate_no_ban
      split: outcome.splits prod.splits handle_result.splits if_splits option.splits)

lemma v1_turn_ban:
  assumes "v1_turn C parse lo arm e c = (fin, c', e', sent, calls)"
  shows "((\<exists>r. BanPeer r \<in> set calls) \<longleftrightarrow> fin = Some TooLarge) \<and> (fin = Some TooLarge \<longrightarrow> v1_max c < length (vc_line_buf c'))"
proof (cases arm)
  case (ReadCompleted io)
  obtain res buf rest where r: "read_line_bounded (v1_max c) (vc_line_buf c) (vc_reader c) = (res, buf, rest)"
    using prod_cases3 by blast
  show ?thesis
  proof (cases res)
    case (LineRead n)
    then show ?thesis using assms ReadCompleted r v1_line_no_ban [of C parse lo io _ e _ fin c' e' sent calls]
      by (auto simp: v1_inbound_def Let_def split: option.splits)
  next
    case LineTooLong
    then have "v1_max c < length buf" using read_line_too_long r by blast
    then show ?thesis using assms ReadCompleted r LineTooLong by (auto simp: v1_inbound_def Let_def)
  qed (use assms ReadCompleted r in \<open>auto simp: v1_inbound_def Let_def\<close>)
next
  case (RetargetDue now1 now2 now3)
  then show ?thesis using assms by (auto simp: v1_retarget_def Let_def split: outcome.splits prod.splits if_splits)
next
  case (JobArrived j)
  then show ?thesis using assms by (auto simp: v1_job_def Let_def split: job_recv.splits prod.splits if_splits)
qed (use assms in auto)

lemma v2_turn_ban:
  assumes "v2_turn C K lo arm e gl c = (fin, c', e', gl', sent, calls)"
  shows "((\<exists>r. BanPeer r \<in> set calls) \<longleftrightarrow> fin = Some TooLarge)
     \<and> (fin = Some TooLarge \<longrightarrow> (\<exists>t payload rest. wc_inbound c = (t, payload) # rest
          \<and> sg_max_message_bytes (s2_guard (wc_session c)) < length payload))"
proof (cases arm)
  case (FrameArrived io)
  show ?thesis
  proof (cases "wc_inbound c")
    case (Cons m rest)
    obtain t payload where m: "m = (t, payload)" by fastforce
    have msg: "\<not> (\<exists>r. BanPeer r \<in> set calls) \<and> fin \<noteq> Some TooLarge"
      if "v2_message C K lo io t payload e gl x = (fin, c', e', gl', sent, calls)" for x
      using that by (auto simp: v2_message_def Let_def hashrate_no_ban
          split: outcome.splits prod.splits flow.splits option.splits if_splits)
    show ?thesis using assms FrameArrived Cons m msg
      by (auto simp: v2_inbound_def Let_def SessionGuard_check_message_size_def split: if_splits)
  qed (use assms FrameArrived in \<open>auto simp: v2_inbound_def\<close>)
next
  case (TargetDue now1 now2 now3)
  then show ?thesis using assms by (auto simp: v2_retarget_def split: outcome.splits prod.splits if_splits)
next
  case (JobPushed j)
  then show ?thesis using assms by (auto simp: v2_job_def Let_def split: job_recv.splits prod.splits if_splits)
qed (use assms in auto)

section \<open>Properties\<close>

text \<open>
  C35: no inbound byte is lost, doubled or moved. However often a read is cancelled by a job or
  a retarget while a line is still arriving, the lines handed to the session, in their order,
  are the lines of the byte stream without their line ends; what is not yet a line is in the
  accumulator or still unread. A last line without its end is handed over when the stream ends.
\<close>

theorem cancelled_reads_lose_nothing:
  assumes "v1_open b1 b2 now1 now2 now3 now4 now rnd ip peer cfg reader e0 bl counter = (Some (c0, calls), bl', counter')"
    and "v1_run C parse cfg c0 c e lines" and "[] \<notin> set reader"
  shows "(\<exists>raws. map snd lines = map strip_cr raws \<and> list_all (\<lambda>r. 10 \<notin> set r) raws
        \<and> concat reader = concat (map (\<lambda>r. r @ [10]) raws) @ vc_line_buf c @ concat (vc_reader c))
     \<or> vc_line_buf c = [] \<and> vc_reader c = []
       \<and> (\<exists>raws r. map snd lines = map strip_cr raws @ [r] \<and> list_all (\<lambda>r. 10 \<notin> set r) (raws @ [r])
            \<and> concat reader = concat (map (\<lambda>r. r @ [10]) raws) @ r)"
proof -
  have "vc_line_buf c0 = []" "vc_reader c0 = reader"
    using assms(1) by (auto simp: v1_open_def Let_def split: prod.splits if_splits)
  then show ?thesis
    using v1_run_keeps [OF assms(2)] assms(3) by (simp add: v1_run_inv_def stream_kept_def)
qed

text \<open>
  C36: only the peer moves its deadline. Until it has authorized (or opened a channel) a peer
  has ten seconds from the start of the session, whatever it sends; afterwards the idle timeout
  counts from the last line (or frame) taken from it. Jobs, retargets and cancelled reads never
  extend it. Once the deadline has passed, the arm that ends the session can be taken, and it does.
\<close>

theorem only_the_peer_moves_its_deadline:
  assumes "v1_open b1 b2 now1 now2 now3 now4 now rnd ip peer cfg reader e0 bl counter = (Some (c0, calls0), bl', counter')"
    and "v1_run C parse cfg c0 c e lines" and "[] \<notin> set reader"
    and "v2_open b1' b2' now1' now2' now3' now4' now' handshake ip' peer' cfg inbound e0' bl1 counter1
       = (Some (d0, calls1), bl1', counter1')"
    and "v2_run C K cfg d0 d e' gl frames"
  shows "v1_deadline cfg c = (if se_authorized (vc_session c)
            then fst (last ((now, []) # lines)) + secs (unat (pc_idle_timeout_secs (c_pool cfg))) else now + secs 10)
     \<and> (v1_ready cfg t DeadlinePassed c \<longleftrightarrow> v1_deadline cfg c \<le> t)
     \<and> v1_turn C parse lo DeadlinePassed e c = (Some TimedOut, c, e, [], [])
     \<and> v2_deadline cfg d = (if s2_channel_open (wc_session d)
            then fst (last ((now', 0, []) # frames)) + secs (unat (pc_idle_timeout_secs (c_pool cfg))) else now' + secs 10)
     \<and> (v2_ready cfg t FrameDeadline d \<longleftrightarrow> v2_deadline cfg d \<le> t)
     \<and> v2_turn C K lo FrameDeadline e' gl d = (Some TimedOut, d, e', gl, [], [])"
proof -
  have c0: "vc_line_buf c0 = []" "vc_reader c0 = reader" "vc_last_inbound c0 = now" "vc_preauth_deadline c0 = now + secs 10"
    using assms(1) by (auto simp: v1_open_def Let_def HANDSHAKE_TIMEOUT_SECS_def split: prod.splits if_splits)
  have d0: "wc_last_inbound d0 = now'" "wc_preauth_deadline d0 = now' + secs 10"
    using assms(4) by (auto simp: v2_open_def Let_def HANDSHAKE_TIMEOUT_SECS_def split: prod.splits if_splits)
  have "v1_run_inv c0 c lines" using v1_run_keeps [OF assms(2)] c0 assms(3) by simp
  moreover have "v2_run_inv d0 d frames" using v2_run_keeps [OF assms(5)] .
  ultimately show ?thesis
    by (simp add: v1_run_inv_def v2_run_inv_def c0 d0 v1_deadline_def v2_deadline_def)
qed

text \<open>
  A peer is banned from its session loop for an oversize message and for nothing else: the
  turn that bans ends the session, and the line collected so far, or the payload of the frame,
  is longer than the configured limit. Bad requests, bad shares, malformed text, timeouts and
  I/O errors end a session without a ban.
\<close>

theorem only_oversize_is_banned:
  assumes "v1_turn C parse lo arm e c = (fin, c', e', sent, calls)"
    and "v2_turn C K lo arm2 e2 gl d = (fin2, d', e2', gl', sent2, calls2)"
  shows "((\<exists>r. BanPeer r \<in> set calls) \<longleftrightarrow> fin = Some TooLarge)
     \<and> (fin = Some TooLarge \<longrightarrow> sg_max_message_bytes (se_guard (vc_session c)) < length (vc_line_buf c'))
     \<and> ((\<exists>r. BanPeer r \<in> set calls2) \<longleftrightarrow> fin2 = Some TooLarge)
     \<and> (fin2 = Some TooLarge \<longrightarrow> (\<exists>t payload rest. wc_inbound d = (t, payload) # rest
          \<and> sg_max_message_bytes (s2_guard (wc_session d)) < length payload))"
  using v1_turn_ban [OF assms(1)] v2_turn_ban [OF assms(2)] by (simp add: v1_max_def)

definition sample_conn :: "bytes list \<Rightarrow> v1_conn" where
  "sample_conn reader = \<lparr>vc_session = Session_new 0 0 0 0 1 ''peer'' sample_config (fst (generate_extranonce1 4 7)),
     vc_line_buf = [], vc_reader = reader, vc_last_inbound = 0, vc_preauth_deadline = secs 10\<rparr>"

definition sample_conn2 :: "(byte \<times> bytes) list \<Rightarrow> v2_conn" where
  "sample_conn2 inbound = \<lparr>wc_session = Sv2Session_new 0 0 0 0 ''peer'' sample_config (fst (generate_extranonce1 4 7)),
     wc_inbound = inbound, wc_last_inbound = 0, wc_preauth_deadline = secs 10\<rparr>"

definition sample_loop_io :: loop_io where
  "sample_loop_io = \<lparr>lo_now = secs 1, lo_h60 = 0, lo_h10 = 0, lo_h3 = 0, lo_h24 = 0, lo_write = \<lambda>_. True\<rparr>"

lemma not_banned_new: "BanList_is_banned b1 b2 ip (BanList_new d) = (False, BanList_new d)"
  by (simp add: BanList_is_banned_def BanList_new_def BanList_with_capacity_limit_def)

lemma sample_engine_jobless: "en_current_job sample_engine = None"
  by (simp add: TemplateEngine_new_def)

lemma sample_width: "pc_extranonce1_size (c_pool sample_config) = 4"
  by (simp add: sample_config_def sample_pool_config_def)

lemma sample_v1_open:
  "v1_open 0 0 0 0 0 0 0 1 (1 :: nat) ''peer'' sample_config reader sample_engine (BanList_new 600) 7
     = (Some (sample_conn reader, [MMinerConnected, SMinerConnected]), BanList_new 600, 8)"
  by (simp add: v1_open_def not_banned_new sample_conn_def generate_extranonce1_def Let_def HANDSHAKE_TIMEOUT_SECS_def
      sample_engine_jobless sample_width)

lemma sample_v2_open:
  "v2_open 0 0 0 0 0 0 0 HandshakeDone (1 :: nat) ''peer'' sample_config inbound sample_engine (BanList_new 600) 7
     = (Some (sample_conn2 inbound, [MMinerConnected, SMinerConnected]), BanList_new 600, 8)"
  by (simp add: v2_open_def not_banned_new sample_conn2_def generate_extranonce1_def Let_def HANDSHAKE_TIMEOUT_SECS_def
      sample_engine_jobless sample_width)

theorem cancelled_reads_witness:
  "\<exists>c lines. v1_run sample_crates (\<lambda>_. None) sample_config (sample_conn [[32], [13, 10, 120]]) c sample_engine lines
     \<and> map snd lines = [[32]] \<and> vc_reader c = [[120]]
     \<and> (\<exists>raws. map snd lines = map strip_cr raws \<and> [32, 13, 10, 120] = concat (map (\<lambda>r. r @ [10]) raws) @ vc_line_buf c @ [120])"
proof -
  let ?c0 = "sample_conn [[32], [13, 10, 120]]"
  define c1 where "c1 = ?c0\<lparr>vc_line_buf := [32], vc_reader := [[13, 10, 120]]\<rparr>"
  have "v1_run sample_crates (\<lambda>_. None) sample_config ?c0 ?c0 sample_engine []" by (rule v1_run.start)
  moreover have "v1_ready sample_config 0 ReadCancelled ?c0"
    by (simp add: sample_conn_def v1_max_def Session_new_def Let_def SessionGuard_new_def sample_config_def)
  moreover have "v1_turn sample_crates (\<lambda>_. None) sample_loop_io ReadCancelled sample_engine ?c0 = (None, c1, sample_engine, [], [])"
    by (simp add: c1_def sample_conn_def)
  ultimately have r1: "v1_run sample_crates (\<lambda>_. None) sample_config ?c0 c1 sample_engine ([] @ v1_delivered sample_loop_io ReadCancelled ?c0)"
    by (rule v1_run.turn)
  have m: "v1_max c1 = 16384"
    by (simp add: c1_def sample_conn_def v1_max_def Session_new_def Let_def SessionGuard_new_def sample_config_def)
  have read: "read_line_bounded 16384 [32] [[13, 10, 120 :: byte]] = (LineRead 1, [32], [[120]])" by simp
  have s: "from_utf8 [32] = Some '' ''" "str_trim '' '' = []" by (simp_all add: from_utf8_def text_eval)
  obtain c2 calls where t: "v1_turn sample_crates (\<lambda>_. None) sample_loop_io (ReadCompleted sample_io) sample_engine c1
      = (None, c2, sample_engine, [], calls)" and c2: "vc_reader c2 = [[120]]"
    using s by (simp add: v1_inbound_def m read) (simp add: c1_def sample_conn_def read v1_line_def handle_line_def sample_loop_io_def)
  have "v1_run sample_crates (\<lambda>_. None) sample_config ?c0 c2 sample_engine
      (([] @ v1_delivered sample_loop_io ReadCancelled ?c0) @ v1_delivered sample_loop_io (ReadCompleted sample_io) c1)"
    by (rule v1_run.turn [OF r1 _ t]) simp
  then have run: "v1_run sample_crates (\<lambda>_. None) sample_config ?c0 c2 sample_engine [(secs 1, [32])]"
    by (simp add: m) (simp add: c1_def read sample_loop_io_def)
  have "vc_reader c2 \<noteq> []" using c2 by simp
  then obtain raws where "map snd [(secs 1, [32])] = map strip_cr raws"
    "concat [[32], [13, 10, 120]] = concat (map (\<lambda>r. r @ [10]) raws) @ vc_line_buf c2 @ concat (vc_reader c2)"
    using cancelled_reads_lose_nothing [OF sample_v1_open run, of] by (metis list.set_intros list.distinct(1) empty_iff list.set(1) set_ConsD)
  then have "\<exists>raws. map snd [(secs 1, [32])] = map strip_cr raws
      \<and> [32, 13, 10, 120] = concat (map (\<lambda>r. r @ [10]) raws) @ vc_line_buf c2 @ [120]"
    by (intro exI [of _ raws]) (simp only: c2 concat.simps append.simps simp_thms)
  then show ?thesis using run c2 by (intro exI [of _ c2] exI [of _ "[(secs 1, [32])]"]) simp
qed

theorem deadline_witness:
  "v1_deadline sample_config (sample_conn [[32]]) = secs 10 \<and> v2_deadline sample_config (sample_conn2 []) = secs 10
   \<and> v1_turn sample_crates (\<lambda>_. None) sample_loop_io DeadlinePassed sample_engine (sample_conn [[32]])
      = (Some TimedOut, sample_conn [[32]], sample_engine, [], [])"
proof -
  have "\<not> se_authorized (vc_session (sample_conn [[32]]))" "\<not> s2_channel_open (wc_session (sample_conn2 []))"
    by (simp_all add: sample_conn_def sample_conn2_def Session_new_def Sv2Session_new_def Let_def)
  then show ?thesis
    using only_the_peer_moves_its_deadline [OF sample_v1_open v1_run.start [of sample_crates "\<lambda>_. None" _ _ sample_engine] _
        sample_v2_open v2_run.start [of _ sample_codec _ _ sample_engine], of "[[32]]" 0 sample_loop_io
        "[]"] by simp
qed

theorem oversize_witness:
  "\<exists>c' calls. v1_turn sample_crates (\<lambda>_. None) sample_loop_io (ReadCompleted sample_io) sample_engine
        (sample_conn [replicate 20000 65]) = (Some TooLarge, c', sample_engine, [], calls)
     \<and> BanPeer ''message too large'' \<in> set calls \<and> 16384 < length (vc_line_buf c')"
proof -
  let ?c = "sample_conn [replicate 20000 65]"
  have m: "v1_max ?c = 16384" "sg_max_message_bytes (se_guard (vc_session ?c)) = 16384"
    by (simp_all add: sample_conn_def v1_max_def Session_new_def Let_def SessionGuard_new_def sample_config_def)
  have read: "read_line_bounded 16384 [] [replicate 20000 (65 :: byte)] = (LineTooLong, replicate 20000 65, [])"
    by (simp add: Let_def)
  obtain c' where t: "v1_turn sample_crates (\<lambda>_. None) sample_loop_io (ReadCompleted sample_io) sample_engine ?c
      = (Some TooLarge, c', sample_engine, [], [BanPeer ''message too large''])"
    by (simp add: v1_inbound_def m) (simp add: sample_conn_def read Let_def)
  have "v2_turn sample_crates sample_codec sample_loop_io FrameDeadline sample_engine \<lparr>gl_channel_id = 1, gl_extranonce1 = 1\<rparr>
      (sample_conn2 []) = (Some TimedOut, sample_conn2 [], sample_engine, \<lparr>gl_channel_id = 1, gl_extranonce1 = 1\<rparr>, [], [])" by simp
  note only_oversize_is_banned [OF t this]
  then have "16384 < length (vc_line_buf c')" by (simp add: m)
  then show ?thesis using t by auto
qed

end
