(* ===== verification/Rejects.thy ===== *)
theory Rejects
  imports Prelude
begin

text \<open>
  The reject window of \<^verbatim>\<open>src/src/stats.rs\<close>: the last hour of a worker's accepted shares and
  rejects, kept in a ring of sixty minute buckets and a bounded queue of device faults. The
  specification is the plain log of what happened; the lemmas show that the ring gives the
  counts of the log.
\<close>

section \<open>Definitions\<close>

definition REJECT_WINDOW_MINUTES :: u64 where
  "REJECT_WINDOW_MINUTES = 60"

definition MAX_RECENT_OTHER_REJECTS :: nat where
  "MAX_RECENT_OTHER_REJECTS = 256"

definition is_stale_reason :: "string \<Rightarrow> bool" where
  "is_stale_reason reason \<longleftrightarrow> reason = ''stale'' \<or> reason = ''job_not_found''"

record minute_counts =
  mi_minute :: u64
  mi_accepted :: u32
  mi_stale :: u32

definition MinuteCounts_default :: minute_counts where
  "MinuteCounts_default = \<lparr>mi_minute = 0, mi_accepted = 0, mi_stale = 0\<rparr>"

record reject_window =
  rw_minutes :: "minute_counts list"
  rw_other :: "(u64 \<times> string) list"

definition RejectWindow_default :: reject_window where
  "RejectWindow_default = \<lparr>rw_minutes = replicate (unat REJECT_WINDOW_MINUTES) MinuteCounts_default, rw_other = []\<rparr>"

text \<open>\<open>bucket\<close> returns the place it may have reset; \<open>f\<close> is what the caller does there.\<close>

definition RejectWindow_bucket :: "(minute_counts \<Rightarrow> minute_counts) \<Rightarrow> u64 \<Rightarrow> reject_window \<Rightarrow> reject_window" where
  "RejectWindow_bucket f now w =
     (let minute = now div 60;
          i = unat (minute mod REJECT_WINDOW_MINUTES);
          b = rw_minutes w ! i;
          b1 = (if mi_minute b \<noteq> minute then MinuteCounts_default\<lparr>mi_minute := minute\<rparr> else b)
      in w\<lparr>rw_minutes := (rw_minutes w)[i := f b1]\<rparr>)"

definition record_accepted :: "u64 \<Rightarrow> reject_window \<Rightarrow> reject_window" where
  "record_accepted now w = RejectWindow_bucket (\<lambda>b. b\<lparr>mi_accepted := sat_add (mi_accepted b) 1\<rparr>) now w"

definition record_stale :: "u64 \<Rightarrow> reject_window \<Rightarrow> reject_window" where
  "record_stale now w = RejectWindow_bucket (\<lambda>b. b\<lparr>mi_stale := sat_add (mi_stale b) 1\<rparr>) now w"

definition RejectWindow_prune :: "u64 \<Rightarrow> reject_window \<Rightarrow> reject_window" where
  "RejectWindow_prune now w =
     (let cutoff = sat_sub now (REJECT_WINDOW_MINUTES * 60)
      in w\<lparr>rw_other := dropWhile (\<lambda>(ts, _). ts \<le> cutoff) (rw_other w)\<rparr>)"

definition record_other :: "u64 \<Rightarrow> string \<Rightarrow> reject_window \<Rightarrow> reject_window" where
  "record_other now reason w =
     (let w1 = RejectWindow_prune now w;
          kept = (if length (rw_other w1) = MAX_RECENT_OTHER_REJECTS then tl (rw_other w1) else rw_other w1)
      in w1\<lparr>rw_other := kept @ [(now, reason)]\<rparr>)"

text \<open>The counts of a \<open>BTreeMap\<close> by reason, as the function from reasons to counts.\<close>

definition in_window :: "u64 \<Rightarrow> minute_counts \<Rightarrow> bool" where
  "in_window now_minute b \<longleftrightarrow> mi_minute b + REJECT_WINDOW_MINUTES > now_minute \<and> mi_minute b \<le> now_minute"

definition RejectWindow_summary :: "u64 \<Rightarrow> reject_window \<Rightarrow> u64 \<times> u64 \<times> (string \<Rightarrow> u64)" where
  "RejectWindow_summary now w =
     (let now_minute = now div 60;
          bs = filter (in_window now_minute) (rw_minutes w);
          cutoff = sat_sub now (REJECT_WINDOW_MINUTES * 60);
          other = filter (\<lambda>(ts, _). ts > cutoff) (rw_other w)
      in (sum_list (map (\<lambda>b. ucast (mi_accepted b)) bs), sum_list (map (\<lambda>b. ucast (mi_stale b)) bs),
          (\<lambda>reason. of_nat (length (filter (\<lambda>(_, r). r = reason) other)))))"

section \<open>The log\<close>

datatype share_event = AcceptedShare u64 | StaleShare u64 | FaultyShare u64 string

fun event_time :: "share_event \<Rightarrow> u64" where
  "event_time (AcceptedShare t) = t"
| "event_time (StaleShare t) = t"
| "event_time (FaultyShare t r) = t"

definition record_event :: "share_event \<Rightarrow> reject_window \<Rightarrow> reject_window" where
  "record_event ev w = (case ev of AcceptedShare t \<Rightarrow> record_accepted t w | StaleShare t \<Rightarrow> record_stale t w
     | FaultyShare t r \<Rightarrow> record_other t r w)"

text \<open>The minutes of the accepted and of the stale shares of a log.\<close>

definition accepted_minutes :: "share_event list \<Rightarrow> nat list" where
  "accepted_minutes evs = List.map_filter (\<lambda>ev. case ev of AcceptedShare t \<Rightarrow> Some (unat t div 60) | _ \<Rightarrow> None) evs"

definition stale_minutes :: "share_event list \<Rightarrow> nat list" where
  "stale_minutes evs = List.map_filter (\<lambda>ev. case ev of StaleShare t \<Rightarrow> Some (unat t div 60) | _ \<Rightarrow> None) evs"

definition faults :: "share_event list \<Rightarrow> (u64 \<times> string) list" where
  "faults evs = List.map_filter (\<lambda>ev. case ev of FaultyShare t r \<Rightarrow> Some (t, r) | _ \<Rightarrow> None) evs"

text \<open>
  One column of the ring against the minutes it has counted: a bucket that is not fresh holds a
  minute of its own residue with the count of that minute, and every minute of the last hour
  that was counted is still there.
\<close>

definition column_ok :: "nat \<Rightarrow> (minute_counts \<Rightarrow> u32) \<Rightarrow> nat list \<Rightarrow> minute_counts list \<Rightarrow> bool" where
  "column_ok now f ms bs \<longleftrightarrow> length bs = 60
     \<and> (\<forall>k < 60. unat (mi_minute (bs ! k)) mod 60 = k \<and> unat (f (bs ! k)) = count_list ms (unat (mi_minute (bs ! k)))
          \<or> k \<noteq> 0 \<and> mi_minute (bs ! k) = 0 \<and> f (bs ! k) = 0)
     \<and> (\<forall>k < 60. unat (mi_minute (bs ! k)) \<le> now)
     \<and> (\<forall>m \<in> set ms. m \<le> now \<and> (now < m + 60 \<longrightarrow> unat (mi_minute (bs ! (m mod 60))) = m))"

lemma column_own:
  "column_ok t f ms bs \<Longrightarrow> k < 60 \<Longrightarrow>
     unat (mi_minute (bs ! k)) mod 60 = k \<and> unat (f (bs ! k)) = count_list ms (unat (mi_minute (bs ! k)))
     \<or> k \<noteq> 0 \<and> mi_minute (bs ! k) = 0 \<and> f (bs ! k) = 0"
  unfolding column_ok_def by blast

lemma column_recent:
  "column_ok t f ms bs \<Longrightarrow> m \<in> set ms \<Longrightarrow> m \<le> t \<and> (t < m + 60 \<longrightarrow> unat (mi_minute (bs ! (m mod 60))) = m)"
  unfolding column_ok_def by blast

lemma count_filter_mod: "count_list ms m = length (filter (\<lambda>x. x = m) ms)"
  by (induction ms) auto

lemma length_partition:
  fixes g :: "'a \<Rightarrow> nat"
  assumes "\<And>x. x \<in> set xs \<Longrightarrow> g x < n"
  shows "length xs = (\<Sum>k<n. length (filter (\<lambda>x. g x = k) xs))"
  using assms
proof (induction xs)
  case (Cons x xs)
  have "(\<Sum>k<n. length (filter (\<lambda>y. g y = k) (x # xs))) = (\<Sum>k<n. (if k = g x then 1 else 0) + length (filter (\<lambda>y. g y = k) xs))"
    by (intro sum.cong) auto
  also have "\<dots> = 1 + (\<Sum>k<n. length (filter (\<lambda>y. g y = k) xs))"
    using Cons.prems by (simp add: sum.distrib)
  finally show ?case using Cons by simp
qed simp

text \<open>The sum over the buckets of the last hour is the number of counted minutes in it.\<close>

lemma column_sum:
  assumes ok: "column_ok prev f ms bs" and now: "prev \<le> now"
  shows "(\<Sum>k<60. if now < unat (mi_minute (bs ! k)) + 60 \<and> unat (mi_minute (bs ! k)) \<le> now then unat (f (bs ! k)) else 0)
     = length (filter (\<lambda>m. now < m + 60 \<and> m \<le> now) ms)"
proof -
  let ?in = "\<lambda>m. now < m + 60 \<and> m \<le> now"
  have "(if ?in (unat (mi_minute (bs ! k))) then unat (f (bs ! k)) else 0)
      = length (filter (\<lambda>m. m mod 60 = k) (filter ?in ms))" if k: "k < 60" for k
  proof -
    let ?m = "unat (mi_minute (bs ! k))"
    have own: "?m mod 60 = k \<and> unat (f (bs ! k)) = count_list ms ?m \<or> k \<noteq> 0 \<and> mi_minute (bs ! k) = 0 \<and> f (bs ! k) = 0"
      by (rule column_own [OF ok k])
    have here: "?m = m" if "m \<in> set ms" "?in m" "m mod 60 = k" for m
    proof -
      have "prev < m + 60" using that(2) now by simp
      then show ?thesis using column_recent [OF ok that(1)] that(3) by simp
    qed
    show ?thesis
    proof (cases "\<exists>m \<in> set ms. ?in m \<and> m mod 60 = k")
      case True
      then obtain m' where m': "m' \<in> set ms" "?in m'" "m' mod 60 = k" by blast
      have m: "?in ?m" "?m mod 60 = k" using here [OF m'] m' by simp_all
      have "(?in x \<and> x mod 60 = k) = (x = ?m)" if "x \<in> set ms" for x
        using here [OF that] m by metis
      then have "filter (\<lambda>m. m mod 60 = k) (filter ?in ms) = filter (\<lambda>x. x = ?m) ms"
        unfolding filter_filter by (intro filter_cong) auto
      moreover have "unat (f (bs ! k)) = count_list ms ?m" using own m(2) by (metis mod_0 unat_0)
      ultimately show ?thesis using m(1) by (simp add: count_filter_mod)
    next
      case False
      then have e: "filter (\<lambda>m. m mod 60 = k) (filter ?in ms) = []" by (auto simp: filter_empty_conv)
      have "f (bs ! k) = 0" if i: "?in ?m"
      proof (rule ccontr)
        assume n: "f (bs ! k) \<noteq> 0"
        then have "?m mod 60 = k" "unat (f (bs ! k)) = count_list ms ?m" using own by auto
        moreover from this n have "?m \<in> set ms" by (metis count_notin unat_eq_zero)
        ultimately show False using False i by blast
      qed
      then show ?thesis unfolding e by simp
    qed
  qed
  then have "(\<Sum>k<60. if ?in (unat (mi_minute (bs ! k))) then unat (f (bs ! k)) else 0)
      = (\<Sum>k<60. length (filter (\<lambda>m. m mod 60 = k) (filter ?in ms)))" by (intro sum.cong) auto
  also have "\<dots> = length (filter ?in ms)" by (rule length_partition [symmetric]) simp
  finally show ?thesis .
qed


text \<open>Recording at a minute not before the last one, in a column that counts it (or does not).\<close>

lemma column_step:
  assumes ok: "column_ok prev f ms bs" and M: "prev \<le> M" "M = unat minute"
    and f: "\<And>b. mi_minute (g b) = mi_minute b" "unat (f (g b1)) = unat (f b1) + length extra" "extra = [] \<or> extra = [M]"
    and b1: "b1 = (if mi_minute (bs ! (M mod 60)) \<noteq> minute then fresh\<lparr>mi_minute := minute\<rparr> else bs ! (M mod 60))"
    and fresh: "f (fresh\<lparr>mi_minute := minute\<rparr>) = 0"
  shows "column_ok M f (ms @ extra) (bs[M mod 60 := g b1])"
proof -
  let ?i = "M mod 60"
  have len: "length bs = 60" using ok by (simp add: column_ok_def)
  have i: "?i < 60" by simp
  have min1: "mi_minute b1 = minute" by (simp add: b1)
  have old: "unat (mi_minute (bs ! (m mod 60))) = m" if "m \<in> set ms" "prev < m + 60" for m
    using column_recent [OF ok that(1)] that(2) by simp
  have le: "m \<le> prev" if "m \<in> set ms" for m using column_recent [OF ok that] by simp
  have count: "unat (f b1) = count_list ms M"
  proof (cases "mi_minute (bs ! ?i) = minute")
    case True
    then have "b1 = bs ! ?i" by (simp add: b1)
    moreover have "unat (f (bs ! ?i)) = count_list ms (unat (mi_minute (bs ! ?i)))"
    proof (rule ccontr)
      assume "unat (f (bs ! ?i)) \<noteq> count_list ms (unat (mi_minute (bs ! ?i)))"
      then have "?i \<noteq> 0 \<and> mi_minute (bs ! ?i) = 0" using column_own [OF ok i] by blast
      then show False using True M(2) by auto
    qed
    ultimately show ?thesis using True M(2) by simp
  next
    case False
    have "M \<notin> set ms"
    proof
      assume "M \<in> set ms"
      then have "unat (mi_minute (bs ! ?i)) = M" using old M(1) le by auto
      then show False using False M(2) by (simp add: word_unat_eq_iff)
    qed
    then show ?thesis using fresh False by (simp add: b1)
  qed
  have nth: "(bs[?i := g b1]) ! k = (if k = ?i then g b1 else bs ! k)" if "k < 60" for k
    using that len by simp
  have "unat (mi_minute ((bs[?i := g b1]) ! k)) mod 60 = k
        \<and> unat (f ((bs[?i := g b1]) ! k)) = count_list (ms @ extra) (unat (mi_minute ((bs[?i := g b1]) ! k)))
      \<or> k \<noteq> 0 \<and> mi_minute ((bs[?i := g b1]) ! k) = 0 \<and> f ((bs[?i := g b1]) ! k) = 0" if k: "k < 60" for k
  proof (cases "k = ?i")
    case True
    have "count_list (ms @ extra) M = count_list ms M + length extra" using f(3) by auto
    then show ?thesis using True nth [OF k] f min1 count M(2) by simp
  next
    case False
    have c: "unat (mi_minute (bs ! k)) mod 60 = k \<and> unat (f (bs ! k)) = count_list ms (unat (mi_minute (bs ! k)))
        \<or> k \<noteq> 0 \<and> mi_minute (bs ! k) = 0 \<and> f (bs ! k) = 0"
      by (rule column_own [OF ok k])
    have "count_list (ms @ extra) (unat (mi_minute (bs ! k))) = count_list ms (unat (mi_minute (bs ! k)))"
      if "unat (mi_minute (bs ! k)) mod 60 = k"
    proof -
      have "unat (mi_minute (bs ! k)) \<noteq> M" using that False by auto
      then show ?thesis using f(3) by auto
    qed
    then show ?thesis using c False nth [OF k] by auto
  qed
  moreover have "unat (mi_minute ((bs[?i := g b1]) ! k)) \<le> M" if k: "k < 60" for k
  proof -
    have "unat (mi_minute (bs ! k)) \<le> prev" using ok k unfolding column_ok_def by blast
    then show ?thesis using nth [OF k] M f(1) min1 by simp
  qed
  moreover have "m \<le> M \<and> (M < m + 60 \<longrightarrow> unat (mi_minute ((bs[?i := g b1]) ! (m mod 60))) = m)"
    if m: "m \<in> set (ms @ extra)" for m
  proof -
    have same: "m = M" if "M < m + 60" "m mod 60 = ?i" "m \<le> M"
    proof -
      have "(M - m) mod 60 = 0" using that(2,3) by (metis mod_eq_dvd_iff_nat dvd_imp_mod_0)
      moreover have "(M - m) mod 60 = M - m" using that(1,3) by simp
      ultimately show ?thesis using that(3) by simp
    qed
    have mM: "m \<le> M" using m f(3) le M(1) by (auto intro: le_trans)
    have "unat (mi_minute ((bs[?i := g b1]) ! (m mod 60))) = m" if w: "M < m + 60"
    proof (cases "m mod 60 = ?i")
      case True
      then have "m = M" using same w mM by simp
      then show ?thesis using nth [of "m mod 60"] f(1) min1 M(2) by simp
    next
      case False
      then have "m \<in> set ms" using m f(3) by auto
      then have "unat (mi_minute (bs ! (m mod 60))) = m" using old w M(1) by simp
      then show ?thesis using nth [of "m mod 60"] False by simp
    qed
    then show ?thesis using mM by blast
  qed
  ultimately show ?thesis using len by (simp add: column_ok_def)
qed


section \<open>The ring against the log\<close>

lemma log_snoc [simp]:
  "accepted_minutes (evs @ [ev]) = accepted_minutes evs @ (case ev of AcceptedShare t \<Rightarrow> [unat t div 60] | _ \<Rightarrow> [])"
  "stale_minutes (evs @ [ev]) = stale_minutes evs @ (case ev of StaleShare t \<Rightarrow> [unat t div 60] | _ \<Rightarrow> [])"
  "faults (evs @ [ev]) = faults evs @ (case ev of FaultyShare t r \<Rightarrow> [(t, r)] | _ \<Rightarrow> [])"
  by (simp_all add: accepted_minutes_def stale_minutes_def faults_def List.map_filter_def split: share_event.splits)

lemma log_lengths: "length (accepted_minutes evs) \<le> length evs" "length (stale_minutes evs) \<le> length evs"
  "length (faults evs) \<le> length evs"
  by (simp_all add: accepted_minutes_def stale_minutes_def faults_def List.map_filter_def)

lemma unat_minute: "unat (t div 60 :: u64) = unat t div 60"
  by (simp add: unat_div_distrib)

lemma unat_bucket_index: "unat ((t div 60) mod REJECT_WINDOW_MINUTES :: u64) = (unat t div 60) mod 60"
  by (simp add: unat_mod_distrib unat_minute REJECT_WINDOW_MINUTES_def)

lemma unat_sat_inc: "unat (x :: u32) + 1 < 2 ^ 32 \<Longrightarrow> unat (sat_add x 1) = unat x + 1"
  by (simp add: unat_sat_add)

text \<open>What holds of the ring after a log: both columns, and the queue of faults.\<close>

definition fault_cutoff :: "u64 \<Rightarrow> u64" where
  "fault_cutoff now = sat_sub now (REJECT_WINDOW_MINUTES * 60)"

definition recent_faults :: "u64 \<Rightarrow> (u64 \<times> string) list \<Rightarrow> (u64 \<times> string) list" where
  "recent_faults now fs = filter (\<lambda>(t, _). fault_cutoff now < t) (drop (length fs - MAX_RECENT_OTHER_REJECTS) fs)"

lemma fault_cutoff_mono: "t \<le> now \<Longrightarrow> fault_cutoff t \<le> fault_cutoff now"
  by (simp add: fault_cutoff_def sat_sub_def word_le_nat_alt unat_sub split: if_splits) linarith

lemma filter_drop_between:
  assumes "filter P (drop a fs) = filter P (drop c fs)" and "a \<le> b" and "b \<le> c"
  shows "filter P (drop b fs) = filter P (drop c fs)"
proof -
  have split: "filter P (drop x fs) = filter P (take (y - x) (drop x fs)) @ filter P (drop y fs)" if "x \<le> y" for x y
    by (metis append_take_drop_id drop_drop filter_append le_add_diff_inverse2 that)
  have "filter P (take (c - a) (drop a fs)) = []" using split [of a c] assms by simp
  moreover have "filter P (drop a fs) = filter P (take (b - a) (drop a fs)) @ filter P (take (c - b) (drop b fs)) @ filter P (drop c fs)"
    using split [of a b] split [of b c] assms by simp
  ultimately show ?thesis using split [of b c] assms by simp
qed

definition queue_ok :: "u64 \<Rightarrow> (u64 \<times> string) list \<Rightarrow> (u64 \<times> string) list \<Rightarrow> bool" where
  "queue_ok prev fs q \<longleftrightarrow> (\<exists>j. q = drop j fs) \<and> length q \<le> MAX_RECENT_OTHER_REJECTS
     \<and> (\<forall>now \<ge> prev. filter (\<lambda>(t, _). fault_cutoff now < t) q = recent_faults now fs)"

lemma filter_after_prune:
  assumes "t \<le> now"
  shows "filter (\<lambda>(u, _). fault_cutoff now < u) (dropWhile (\<lambda>(u, _). u \<le> fault_cutoff t) q)
       = filter (\<lambda>(u, _). fault_cutoff now < u) q"
proof (induction q)
  case (Cons x q)
  then show ?case using fault_cutoff_mono [OF assms] by (cases x) (auto simp: not_less)
qed simp

lemma record_other_queue:
  assumes ok: "queue_ok prev fs (rw_other w)" and t: "prev \<le> t"
  shows "queue_ok t (fs @ [(t, r)]) (rw_other (record_other t r w))"
proof -
  define q1 where "q1 = dropWhile (\<lambda>(u, _). u \<le> fault_cutoff t) (rw_other w)"
  define q2 where "q2 = (if length q1 = MAX_RECENT_OTHER_REJECTS then tl q1 else q1)"
  let ?n = "length fs"
  have rec: "rw_other (record_other t r w) = q2 @ [(t, r)]"
    by (simp add: record_other_def RejectWindow_prune_def Let_def q1_def q2_def fault_cutoff_def)
  obtain j0 where "rw_other w = drop j0 fs" using ok by (auto simp: queue_ok_def)
  then obtain j where j: "q1 = drop j fs" by (metis drop_drop dropWhile_eq_drop q1_def)
  have len1: "length q1 \<le> 256"
    using ok le_trans [OF length_dropWhile_le] by (auto simp: q1_def queue_ok_def MAX_RECENT_OTHER_REJECTS_def simp del: length_drop)
  have len2: "length q2 \<le> 255" using len1 by (auto simp: q2_def MAX_RECENT_OTHER_REJECTS_def)
  obtain j2 where j2: "q2 = drop j2 fs" by (metis j q2_def drop_Suc tl_drop)
  have flt: "filter (\<lambda>(u, _). fault_cutoff now < u) q2 = filter (\<lambda>(u, _). fault_cutoff now < u) (drop (Suc ?n - 256) fs)"
    if now: "t \<le> now" for now
  proof -
    let ?P = "\<lambda>(u :: u64, _ :: string). fault_cutoff now < u"
    have e: "filter ?P q1 = filter ?P (drop (?n - 256) fs)"
      using ok t now filter_after_prune [OF now, of "rw_other w"]
      by (simp add: queue_ok_def recent_faults_def q1_def MAX_RECENT_OTHER_REJECTS_def)
    show ?thesis
    proof (cases "length q1 = 256")
      case True
      then have "j + 256 = ?n" using j by auto
      then have "Suc ?n - 256 = Suc j" by simp
      moreover have "q2 = drop (Suc j) fs"
        using True j by (simp add: q2_def MAX_RECENT_OTHER_REJECTS_def drop_Suc tl_drop)
      ultimately show ?thesis by metis
    next
      case False
      then have q: "q2 = q1" "length q1 < 256" using len1 by (auto simp: q2_def MAX_RECENT_OTHER_REJECTS_def)
      then have "?n - 256 \<le> Suc ?n - 256" "Suc ?n - 256 \<le> max j (Suc ?n - 256)" by auto
      moreover have "max j (Suc ?n - 256) = j" using q(2) j by simp
      ultimately show ?thesis
        using filter_drop_between [of ?P "?n - 256" fs "max j (Suc ?n - 256)" "Suc ?n - 256"] e j q by simp
    qed
  qed
  have "\<exists>j. q2 @ [(t, r)] = drop j (fs @ [(t, r)])"
    using j2 by (intro exI [of _ "min j2 ?n"]) (auto simp: min_def)
  moreover have "filter (\<lambda>(u, _). fault_cutoff now < u) (q2 @ [(t, r)]) = recent_faults now (fs @ [(t, r)])" if "t \<le> now" for now
    using flt [OF that] by (simp add: recent_faults_def MAX_RECENT_OTHER_REJECTS_def)
  ultimately show ?thesis
    using len2 unfolding queue_ok_def rec by (simp add: MAX_RECENT_OTHER_REJECTS_def)
qed


definition window_ok :: "u64 \<Rightarrow> share_event list \<Rightarrow> reject_window \<Rightarrow> bool" where
  "window_ok prev evs w \<longleftrightarrow> column_ok (unat prev div 60) mi_accepted (accepted_minutes evs) (rw_minutes w)
     \<and> column_ok (unat prev div 60) mi_stale (stale_minutes evs) (rw_minutes w) \<and> queue_ok prev (faults evs) (rw_other w)"

lemma window_ok_start: "window_ok 0 [] RejectWindow_default"
  by (auto simp: window_ok_def column_ok_def RejectWindow_default_def MinuteCounts_default_def REJECT_WINDOW_MINUTES_def
      accepted_minutes_def stale_minutes_def faults_def List.map_filter_def queue_ok_def recent_faults_def)

lemma column_wait:
  assumes "column_ok prev f ms bs" and "prev \<le> M"
  shows "column_ok M f ms bs"
  unfolding column_ok_def
proof (intro conjI allI impI ballI)
  fix m assume m: "m \<in> set ms"
  show "m \<le> M" using column_recent [OF assms(1) m] assms(2) by simp
  assume "M < m + 60"
  then show "unat (mi_minute (bs ! (m mod 60))) = m" using column_recent [OF assms(1) m] assms(2) by simp
qed (use assms column_own [OF assms(1)] in \<open>auto simp: column_ok_def intro: le_trans\<close>)

lemma queue_wait: "queue_ok prev fs q \<Longrightarrow> prev \<le> t \<Longrightarrow> queue_ok t fs q"
  by (auto simp: queue_ok_def)

lemma count_list_less: "length ms < n \<Longrightarrow> count_list ms x < n"
  by (rule le_less_trans [OF count_le_length])

lemma record_event_ok:
  assumes ok: "window_ok prev evs w" and t: "prev \<le> event_time ev" and n: "length evs + 1 < 2 ^ 32"
  shows "window_ok (event_time ev) (evs @ [ev]) (record_event ev w)"
proof -
  define t where "t = event_time ev"
  define M where "M = unat t div 60"
  have M: "unat prev div 60 \<le> M" "M = unat (t div 60)"
    using t by (simp_all add: M_def t_def word_le_nat_alt div_le_mono unat_minute)
  have A: "column_ok (unat prev div 60) mi_accepted (accepted_minutes evs) (rw_minutes w)"
    and S: "column_ok (unat prev div 60) mi_stale (stale_minutes evs) (rw_minutes w)"
    and Q: "queue_ok prev (faults evs) (rw_other w)"
    using ok by (simp_all add: window_ok_def)
  define b1 where "b1 = (if mi_minute (rw_minutes w ! (M mod 60)) \<noteq> t div 60
     then MinuteCounts_default\<lparr>mi_minute := t div 60\<rparr> else rw_minutes w ! (M mod 60))"
  have bucket: "rw_minutes (RejectWindow_bucket g t w) = (rw_minutes w)[M mod 60 := g b1]"
    "rw_other (RejectWindow_bucket g t w) = rw_other w" for g
    by (simp_all add: RejectWindow_bucket_def Let_def unat_bucket_index M_def b1_def)
  have zero: "mi_accepted (MinuteCounts_default\<lparr>mi_minute := t div 60\<rparr>) = 0"
    "mi_stale (MinuteCounts_default\<lparr>mi_minute := t div 60\<rparr>) = 0"
    by (simp_all add: MinuteCounts_default_def)
  have small: "unat (f b1) + 1 < 2 ^ 32"
    if "column_ok (unat prev div 60) f ms (rw_minutes w)" "length ms \<le> length evs"
      "f (MinuteCounts_default\<lparr>mi_minute := t div 60\<rparr>) = 0" for f ms
  proof -
    have "unat (f (rw_minutes w ! k)) \<le> length evs" if k: "k < 60" for k
      using column_own [OF \<open>column_ok _ f ms _\<close> k] count_le_length le_trans \<open>length ms \<le> length evs\<close> by fastforce
    from this [of "M mod 60"] show ?thesis using n that(3) by (simp add: b1_def)
  qed
  have tq: "prev \<le> t" using t by (simp add: t_def)
  show ?thesis
  proof (cases ev)
    case (AcceptedShare u)
    then have u: "u = t" by (simp add: t_def)
    let ?g = "\<lambda>b. b\<lparr>mi_accepted := sat_add (mi_accepted b) 1\<rparr>"
    have "column_ok M mi_accepted (accepted_minutes evs @ [M]) ((rw_minutes w)[M mod 60 := ?g b1])"
      by (rule column_step [OF A M, where fresh = MinuteCounts_default])
        (use unat_sat_inc small [OF A log_lengths(1) zero(1)] zero in \<open>simp_all add: b1_def\<close>)
    moreover have "column_ok M mi_stale (stale_minutes evs @ []) ((rw_minutes w)[M mod 60 := ?g b1])"
      by (rule column_step [OF S M, where fresh = MinuteCounts_default]) (use zero in \<open>simp_all add: b1_def\<close>)
    ultimately show ?thesis
      using AcceptedShare u bucket queue_wait [OF Q tq]
      by (simp add: window_ok_def record_event_def record_accepted_def M_def)
  next
    case (StaleShare u)
    then have u: "u = t" by (simp add: t_def)
    let ?g = "\<lambda>b. b\<lparr>mi_stale := sat_add (mi_stale b) 1\<rparr>"
    have "column_ok M mi_stale (stale_minutes evs @ [M]) ((rw_minutes w)[M mod 60 := ?g b1])"
      by (rule column_step [OF S M, where fresh = MinuteCounts_default])
        (use unat_sat_inc small [OF S log_lengths(2) zero(2)] zero in \<open>simp_all add: b1_def\<close>)
    moreover have "column_ok M mi_accepted (accepted_minutes evs @ []) ((rw_minutes w)[M mod 60 := ?g b1])"
      by (rule column_step [OF A M, where fresh = MinuteCounts_default]) (use zero in \<open>simp_all add: b1_def\<close>)
    ultimately show ?thesis
      using StaleShare u bucket queue_wait [OF Q tq]
      by (simp add: window_ok_def record_event_def record_stale_def M_def)
  next
    case (FaultyShare u r)
    then have u: "u = t" by (simp add: t_def)
    have "rw_minutes (record_other t r w) = rw_minutes w"
      by (simp add: record_other_def RejectWindow_prune_def Let_def)
    then show ?thesis
      using FaultyShare u column_wait [OF A M(1)] column_wait [OF S M(1)] record_other_queue [OF Q tq, of r]
      by (simp add: window_ok_def record_event_def M_def)
  qed
qed

lemma record_events_ok:
  assumes "window_ok prev evs0 w" and "sorted (map event_time evs)" and "\<forall>ev \<in> set evs. prev \<le> event_time ev"
    and "length evs0 + length evs < 2 ^ 32"
  shows "\<exists>prev'. window_ok prev' (evs0 @ evs) (fold record_event evs w) \<and> (prev' = prev \<or> prev' \<in> event_time ` set evs)"
  using assms
proof (induction evs arbitrary: prev evs0 w)
  case (Cons ev evs)
  have "window_ok (event_time ev) (evs0 @ [ev]) (record_event ev w)"
    using record_event_ok [OF Cons.prems(1), of ev] Cons.prems by simp
  from Cons.IH [OF this] Cons.prems show ?case by auto
qed auto


lemma sum_list_unat:
  "sum_list (map (\<lambda>b. unat (f b)) bs) < 2 ^ 64 \<Longrightarrow> unat (sum_list (map (\<lambda>b. ucast (f b :: u32) :: u64) bs)) = sum_list (map (\<lambda>b. unat (f b)) bs)"
proof (induction bs)
  case (Cons b bs)
  have "unat (ucast (f b) :: u64) = unat (f b)"
    using unat_lt [of "f b"] by (simp add: unsigned_ucast_eq take_bit_eq_mod)
  then show ?case using Cons by (simp add: unat_word_ariths)
qed simp

lemma sum_list_window:
  assumes "length bs = 60"
  shows "sum_list (map (\<lambda>b. unat (f b :: u32)) (filter P bs)) = (\<Sum>k<60. if P (bs ! k) then unat (f (bs ! k)) else 0)"
proof -
  have "sum_list (map (\<lambda>b. unat (f b)) (filter P bs)) = sum_list (map (\<lambda>b. if P b then unat (f b) else 0) bs)"
    by (induction bs) auto
  then show ?thesis using assms by (simp add: sum_list_sum_nth atLeast0LessThan)
qed

lemma unat_in_window:
  assumes "unat (mi_minute b) \<le> unat now div 60"
  shows "in_window (now div 60) b \<longleftrightarrow> unat now div 60 < unat (mi_minute b) + 60 \<and> unat (mi_minute b) \<le> unat now div 60"
proof -
  have "unat now div 60 < 2 ^ 64 - 60" using unat_lt [of now] by (simp add: less_mult_imp_div_less)
  then have "unat (mi_minute b + 60) = unat (mi_minute b) + 60" using assms by (simp add: unat_word_ariths)
  then show ?thesis
    by (simp add: in_window_def REJECT_WINDOW_MINUTES_def word_le_nat_alt word_less_nat_alt unat_minute)
qed

lemma column_summary:
  assumes ok: "column_ok prev f ms bs" and now: "prev \<le> unat now div 60" and n: "length ms < 2 ^ 64"
  shows "unat (sum_list (map (\<lambda>b. ucast (f b) :: u64) (filter (in_window (now div 60)) bs)))
     = length (filter (\<lambda>m. unat now div 60 < m + 60) ms)"
proof -
  have len: "length bs = 60" using ok by (simp add: column_ok_def)
  have le: "unat (mi_minute (bs ! k)) \<le> unat now div 60" if "k < 60" for k
    using ok that now by (auto simp: column_ok_def intro: le_trans)
  have "sum_list (map (\<lambda>b. unat (f b)) (filter (in_window (now div 60)) bs))
      = (\<Sum>k<60. if unat now div 60 < unat (mi_minute (bs ! k)) + 60 \<and> unat (mi_minute (bs ! k)) \<le> unat now div 60
           then unat (f (bs ! k)) else 0)"
    unfolding sum_list_window [OF len] by (intro sum.cong refl) (simp add: unat_in_window le)
  also have "\<dots> = length (filter (\<lambda>m. unat now div 60 < m + 60 \<and> m \<le> unat now div 60) ms)"
    by (rule column_sum [OF ok now])
  also have "filter (\<lambda>m. unat now div 60 < m + 60 \<and> m \<le> unat now div 60) ms = filter (\<lambda>m. unat now div 60 < m + 60) ms"
    using column_recent [OF ok] now by (intro filter_cong) (auto intro: le_trans)
  finally have e: "sum_list (map (\<lambda>b. unat (f b)) (filter (in_window (now div 60)) bs))
      = length (filter (\<lambda>m. unat now div 60 < m + 60) ms)" .
  also have "\<dots> < 2 ^ 64" using n le_less_trans [OF length_filter_le] by blast
  finally show ?thesis using sum_list_unat [of f "filter (in_window (now div 60)) bs"] e by simp
qed

section \<open>Properties\<close>

text \<open>
  C28: The reject window of a worker is the last hour of its log. After any history of accepted
  shares, stale shares and device faults with a clock that does not go back, the summary at a
  later moment counts exactly the accepted and the stale shares of the last sixty minutes (the
  current one included), and by reason the faults of the last 3600 seconds among the 256 most
  recent; whatever the length of the history, the window holds sixty buckets and at most 256
  faults.
\<close>

theorem reject_window_is_last_hour:
  assumes "sorted (map event_time evs)" and "\<forall>ev \<in> set evs. event_time ev \<le> now" and "length evs < 2 ^ 32"
    and "RejectWindow_summary now (fold record_event evs RejectWindow_default) = (accepted, stale, other)"
  shows "unat accepted = length (filter (\<lambda>m. unat now div 60 < m + 60) (accepted_minutes evs))
     \<and> unat stale = length (filter (\<lambda>m. unat now div 60 < m + 60) (stale_minutes evs))
     \<and> (\<forall>reason. unat (other reason)
          = length (filter (\<lambda>(t, r). r = reason) (recent_faults now (faults evs))))
     \<and> length (rw_minutes (fold record_event evs RejectWindow_default)) = 60
     \<and> length (rw_other (fold record_event evs RejectWindow_default)) \<le> 256"
proof -
  define w where "w = fold record_event evs RejectWindow_default"
  obtain prev where w: "window_ok prev evs w" and p: "prev = 0 \<or> prev \<in> event_time ` set evs"
    using record_events_ok [OF window_ok_start assms(1)] assms(3) by (auto simp: w_def)
  have now: "prev \<le> now" using p assms(2) by auto
  then have m: "unat prev div 60 \<le> unat now div 60" by (simp add: div_le_mono word_le_nat_alt)
  have A: "column_ok (unat prev div 60) mi_accepted (accepted_minutes evs) (rw_minutes w)"
    and S: "column_ok (unat prev div 60) mi_stale (stale_minutes evs) (rw_minutes w)"
    and Q: "queue_ok prev (faults evs) (rw_other w)"
    using w by (simp_all add: window_ok_def)
  have big: "length (accepted_minutes evs) < 2 ^ 64" "length (stale_minutes evs) < 2 ^ 64"
    using log_lengths [of evs] assms(3) by simp_all
  have q: "filter (\<lambda>(t, _). fault_cutoff now < t) (rw_other w) = recent_faults now (faults evs)"
    "length (rw_other w) \<le> 256"
    using Q now by (auto simp: queue_ok_def MAX_RECENT_OTHER_REJECTS_def)
  have "unat (of_nat (length (filter (\<lambda>(_, r). r = reason) (recent_faults now (faults evs)))) :: u64)
      = length (filter (\<lambda>(_, r). r = reason) (recent_faults now (faults evs)))" for reason
  proof -
    have "length (filter (\<lambda>(_, r). r = reason) (recent_faults now (faults evs))) \<le> length (rw_other w)"
      unfolding q(1) [symmetric] by (metis (no_types) filter_filter length_filter_le)
    then show ?thesis using q(2) by (simp add: unat_of_nat)
  qed
  then show ?thesis
    using assms(4) column_summary [OF A m big(1)] column_summary [OF S m big(2)] q A
    unfolding w_def [symmetric]
    by (auto simp: RejectWindow_summary_def Let_def fault_cutoff_def column_ok_def simp del: filter_filter)
qed

theorem reject_window_witness:
  "\<exists>accepted stale other. RejectWindow_summary 7300 (fold record_event
        [AcceptedShare 100, AcceptedShare 7200, StaleShare 7210, FaultyShare 7220 ''duplicate''] RejectWindow_default)
      = (accepted, stale, other)
     \<and> unat accepted = 1 \<and> unat stale = 1 \<and> unat (other ''duplicate'') = 1"
proof -
  let ?evs = "[AcceptedShare 100, AcceptedShare 7200, StaleShare 7210, FaultyShare 7220 ''duplicate'']"
  obtain a s r where e: "RejectWindow_summary 7300 (fold record_event ?evs RejectWindow_default) = (a, s, r)"
    using prod_cases3 by blast
  have h: "sorted (map event_time ?evs)" "\<forall>ev \<in> set ?evs. event_time ev \<le> 7300" "length ?evs < 2 ^ 32" by simp_all
  show ?thesis
    using reject_window_is_last_hour [OF h e] e
    by (simp add: accepted_minutes_def stale_minutes_def faults_def List.map_filter_def recent_faults_def
        fault_cutoff_def sat_sub_def REJECT_WINDOW_MINUTES_def MAX_RECENT_OTHER_REJECTS_def)
qed

end
