(* ===== verification/Stats.thy ===== *)
theory Stats
  imports Session Rejects "HOL-Library.AList" "HOL-Library.Multiset"
begin

text \<open>
  \<^verbatim>\<open>src/src/stats.rs\<close>: the pool's statistics and their database. \<open>stats_store\<close> is the content
  of the tables, columns being signed 64-bit integers as SQLite has them; a statement that
  SQLite refuses is an input (\<open>ok = False\<close>). \<open>pool_stats\<close> is the shared statistics object: a
  concurrent map is an association list in its iteration order, a counter an unsigned word,
  a float kept as its bits the float. Every method is one step; the clock is an argument. The
  order in which the unstable sort of the source, or a query that does not fix it, leaves
  equal keys is a parameter (\<open>arrange\<close>, \<open>sql_arrange\<close>).
\<close>

section \<open>Constants and small functions\<close>

definition IDLE_WORKER_EVICT_SECS :: u64 where
  "IDLE_WORKER_EVICT_SECS = 86400"

definition MAX_WORKER_BEST_SHARES :: nat where
  "MAX_WORKER_BEST_SHARES = 512"

definition HASHRATE_WINDOW_60S :: u64 where
  "HASHRATE_WINDOW_60S = 60"

definition HASHRATE_WINDOW_10M :: u64 where
  "HASHRATE_WINDOW_10M = 600"

definition HASHRATE_WINDOW_3H :: u64 where
  "HASHRATE_WINDOW_3H = 10800"

definition HASHRATE_WINDOW_24H :: u64 where
  "HASHRATE_WINDOW_24H = 86400"

definition MAX_PENDING_SHARES :: nat where
  "MAX_PENDING_SHARES = 65536"

definition window_overlap :: "u64 \<Rightarrow> u64 \<Rightarrow> f64" where
  "window_overlap elapsed window_secs =
     f64_max (f64_sub (Fin 1) (f64_div (f64_of_u64 elapsed) (f64_of_u64 window_secs))) (Fin 0)"

definition db_u64 :: "u64 \<Rightarrow> int" where
  "db_u64 v = min (int (unat v)) (2 ^ 63 - 1)"

definition get_u64 :: "int \<Rightarrow> u64 option" where
  "get_u64 v = (if v < 0 then None else Some (of_int v))"

section \<open>The database\<close>

record found_block =
  fb_height :: u64
  fb_hash :: string
  fb_worker :: string
  fb_ts :: u64
  fb_round_work :: f64
  fb_network_difficulty :: f64

record block_row =
  br_hash :: string
  br_height :: int
  br_worker :: string
  br_ts :: int
  br_round_work :: f64
  br_network_difficulty :: f64

record stats_store =
  db_best_share_difficulty :: int
  db_best_hashrate_hps :: f64
  db_round_work :: f64
  db_round_start_ts :: int
  db_worker_best_shares :: "(string \<times> int) list"
  db_found_blocks :: "block_row list"
  db_share_log :: "(string \<times> int \<times> int) list"
  db_hashrate_history :: "(int \<times> f64) list"
  db_settings :: "(string \<times> string) list"
  db_write_error :: "string option"

definition StatsStore_failed :: "string \<Rightarrow> stats_store \<Rightarrow> stats_store" where
  "StatsStore_failed msg s = s\<lparr>db_write_error := Some msg\<rparr>"

definition StatsStore_succeeded :: "stats_store \<Rightarrow> stats_store" where
  "StatsStore_succeeded s = s\<lparr>db_write_error := None\<rparr>"

type_synonym arrangement = "(string \<times> int) list \<Rightarrow> (string \<times> int) list"

text \<open>What is known of an unstable descending sort: a rearrangement, in descending order.\<close>

definition arrange_ok :: "arrangement \<Rightarrow> bool" where
  "arrange_ok arrange \<longleftrightarrow>
     (\<forall>xs. mset (arrange xs) = mset xs \<and> sorted_wrt (\<lambda>a b. snd a \<ge> snd b) (arrange xs))"

definition prune_worker_best_shares :: "arrangement \<Rightarrow> bool \<Rightarrow> nat \<Rightarrow> stats_store \<Rightarrow> stats_store" where
  "prune_worker_best_shares arrange ok keep s =
     (if ok then s\<lparr>db_worker_best_shares :=
        filter (\<lambda>row. fst row \<in> set (map fst (take keep (arrange (db_worker_best_shares s))))) (db_worker_best_shares s)\<rparr>
      else StatsStore_failed ''Failed to prune worker_best_shares'' s)"

definition get_setting :: "string \<Rightarrow> stats_store \<Rightarrow> string option" where
  "get_setting key s = map_of (db_settings s) key"

definition set_setting :: "bool \<Rightarrow> string \<Rightarrow> string \<Rightarrow> stats_store \<Rightarrow> bool \<times> stats_store" where
  "set_setting ok key v s =
     (if ok then (True, s\<lparr>db_settings := AList.update key v (db_settings s)\<rparr>)
      else (False, StatsStore_failed (''Failed to persist setting '' @ key) s))"

record loaded_stats =
  lo_best_share_difficulty :: u64
  lo_best_hashrate_hps :: f64
  lo_worker_best_shares :: "(string \<times> u64) list"
  lo_round_work :: f64
  lo_round_start_ts :: u64
  lo_found_blocks :: "found_block list"

definition LoadedStats_default :: loaded_stats where
  "LoadedStats_default = \<lparr>lo_best_share_difficulty = 0, lo_best_hashrate_hps = Fin 0, lo_worker_best_shares = [],
     lo_round_work = Fin 0, lo_round_start_ts = 0, lo_found_blocks = []\<rparr>"

definition read_block :: "block_row \<Rightarrow> found_block option" where
  "read_block r =
     (case (get_u64 (br_height r), get_u64 (br_ts r)) of
        (Some height, Some ts) \<Rightarrow> Some \<lparr>fb_height = height, fb_hash = br_hash r, fb_worker = br_worker r, fb_ts = ts,
           fb_round_work = br_round_work r, fb_network_difficulty = br_network_difficulty r\<rparr>
      | _ \<Rightarrow> None)"

fun read_all :: "('a \<Rightarrow> 'b option) \<Rightarrow> 'a list \<Rightarrow> 'b list option" where
  "read_all f [] = Some []"
| "read_all f (x # xs) =
     (case f x of None \<Rightarrow> None
      | Some y \<Rightarrow> (case read_all f xs of None \<Rightarrow> None | Some ys \<Rightarrow> Some (y # ys)))"

text \<open>\<open>ORDER BY ts ASC, height ASC\<close>; rows equal in both come in table order.\<close>

definition load_values :: "stats_store \<Rightarrow> loaded_stats option" where
  "load_values s =
     (case (get_u64 (db_best_share_difficulty s), get_u64 (db_round_start_ts s),
            read_all (\<lambda>(w, d). map_option (Pair w) (get_u64 d)) (db_worker_best_shares s),
            read_all read_block (sort_key br_ts (sort_key br_height (db_found_blocks s)))) of
        (Some best, Some start, Some workers, Some blocks) \<Rightarrow>
          Some \<lparr>lo_best_share_difficulty = best, lo_best_hashrate_hps = db_best_hashrate_hps s,
                lo_worker_best_shares = workers, lo_round_work = db_round_work s,
                lo_round_start_ts = start, lo_found_blocks = blocks\<rparr>
      | _ \<Rightarrow> None)"

definition set_round :: "bool \<Rightarrow> f64 \<Rightarrow> u64 \<Rightarrow> stats_store \<Rightarrow> stats_store" where
  "set_round ok round_work round_start_ts s =
     (if ok then StatsStore_succeeded (s\<lparr>db_round_work := round_work, db_round_start_ts := db_u64 round_start_ts\<rparr>)
      else StatsStore_failed ''Failed to persist round state'' s)"

definition insert_found_block :: "bool \<Rightarrow> found_block \<Rightarrow> stats_store \<Rightarrow> stats_store" where
  "insert_found_block ok b s =
     (if \<not> ok then StatsStore_failed (''Failed to persist found block '' @ fb_hash b) s
      else if fb_hash b \<in> set (map br_hash (db_found_blocks s)) then s
      else s\<lparr>db_found_blocks := db_found_blocks s @
        [\<lparr>br_hash = fb_hash b, br_height = db_u64 (fb_height b), br_worker = fb_worker b, br_ts = db_u64 (fb_ts b),
          br_round_work = fb_round_work b, br_network_difficulty = fb_network_difficulty b\<rparr>]\<rparr>)"

definition set_best_share_difficulty :: "bool \<Rightarrow> u64 \<Rightarrow> stats_store \<Rightarrow> stats_store" where
  "set_best_share_difficulty ok difficulty s =
     (if \<not> ok then StatsStore_failed ''Failed to persist best_share_difficulty'' s
      else if db_u64 difficulty > db_best_share_difficulty s
      then s\<lparr>db_best_share_difficulty := db_u64 difficulty\<rparr> else s)"

definition set_best_hashrate_hps :: "bool \<Rightarrow> f64 \<Rightarrow> stats_store \<Rightarrow> stats_store" where
  "set_best_hashrate_hps ok hps s =
     (if \<not> ok then StatsStore_failed ''Failed to persist best_hashrate_hps'' s
      else if f64_lt (db_best_hashrate_hps s) hps then s\<lparr>db_best_hashrate_hps := hps\<rparr> else s)"

definition force_best_hashrate_hps :: "bool \<Rightarrow> f64 \<Rightarrow> stats_store \<Rightarrow> stats_store" where
  "force_best_hashrate_hps ok hps s =
     (if \<not> ok then StatsStore_failed ''Failed to reset best_hashrate_hps'' s else s\<lparr>db_best_hashrate_hps := hps\<rparr>)"

definition store_hashrate_snapshot :: "bool \<Rightarrow> bool \<Rightarrow> u64 \<Rightarrow> f64 \<Rightarrow> stats_store \<Rightarrow> stats_store" where
  "store_hashrate_snapshot ok ok2 ts hps s =
     (if \<not> ok then StatsStore_failed ''Failed to record hashrate snapshot'' s
      else
        let s1 = StatsStore_succeeded (s\<lparr>db_hashrate_history := AList.update (db_u64 ts) hps (db_hashrate_history s)\<rparr>);
            cutoff = sat_sub ts (6 * 30 * 24 * 3600)
        in if ok2 then s1\<lparr>db_hashrate_history := filter (\<lambda>row. \<not> fst row < db_u64 cutoff) (db_hashrate_history s1)\<rparr>
           else s1)"

definition get_hashrate_history :: "u64 \<Rightarrow> stats_store \<Rightarrow> (u64 \<times> f64) list" where
  "get_hashrate_history since_ts s =
     List.map_filter (\<lambda>(ts, hps). map_option (\<lambda>t. (t, hps)) (get_u64 ts))
       (sort_key fst (filter (\<lambda>row. fst row \<ge> db_u64 since_ts) (db_hashrate_history s)))"

record logged_share =
  ls_worker :: string
  ls_ts :: u64
  ls_credited :: u64

definition append_shares :: "bool \<Rightarrow> logged_share list \<Rightarrow> u64 \<Rightarrow> stats_store \<Rightarrow> bool \<times> stats_store" where
  "append_shares ok batch now s =
     (if ok then
        let rows = db_share_log s @ map (\<lambda>x. (ls_worker x, db_u64 (ls_ts x), db_u64 (ls_credited x))) batch;
            cutoff = db_u64 (sat_sub now HASHRATE_WINDOW_24H)
        in (True, StatsStore_succeeded (s\<lparr>db_share_log := filter (\<lambda>(w, ts, c). \<not> ts < cutoff) rows\<rparr>))
      else (False, StatsStore_failed ''Failed to write shares to share_log'' s))"

definition get_shares :: "string \<Rightarrow> u64 \<Rightarrow> stats_store \<Rightarrow> (u64 \<times> u64) list" where
  "get_shares worker since_ts s =
     List.map_filter (\<lambda>(w, ts, c). case (get_u64 ts, get_u64 c) of (Some t, Some d) \<Rightarrow> Some (t, d) | _ \<Rightarrow> None)
       (sort_key (\<lambda>(w, ts, c). ts)
          (filter (\<lambda>(w, ts, c). w = worker \<and> ts \<ge> db_u64 since_ts) (db_share_log s)))"

definition set_worker_best_share :: "bool \<Rightarrow> string \<Rightarrow> u64 \<Rightarrow> stats_store \<Rightarrow> stats_store" where
  "set_worker_best_share ok worker difficulty s =
     (if \<not> ok then StatsStore_failed (''Failed to persist worker_best_share for '' @ worker) s
      else case map_of (db_worker_best_shares s) worker of
             None \<Rightarrow> s\<lparr>db_worker_best_shares := AList.update worker (db_u64 difficulty) (db_worker_best_shares s)\<rparr>
           | Some old \<Rightarrow>
               if db_u64 difficulty > old
               then s\<lparr>db_worker_best_shares := AList.update worker (db_u64 difficulty) (db_worker_best_shares s)\<rparr>
               else s)"


section \<open>The statistics object\<close>

record worker_state =
  ws_worker :: string
  ws_protocol :: string
  ws_online :: bool
  ws_current_vardiff :: u64
  ws_shares_accepted :: u64
  ws_shares_rejected :: u64
  ws_shares_stale :: u64
  ws_reject_reasons :: "(string \<times> u64) list"
  ws_best_share_difficulty :: u64
  ws_active_sessions :: u64
  ws_connected_ts :: u64
  ws_last_submit_ts :: u64
  ws_hashrate_60s_hps :: f64
  ws_hashrate_10m_hps :: f64
  ws_hashrate_3h_hps :: f64
  ws_hashrate_24h_hps :: f64
  ws_last_hour_accepted :: u64
  ws_last_hour_stale :: u64
  ws_last_hour_other_rejects :: "string \<Rightarrow> u64"
  ws_last_other_reject_ts :: u64
  ws_last_other_reject_reason :: "string option"
  ws_reject_window :: reject_window

record pool_stats =
  st_shares_accepted :: u64
  st_shares_rejected :: u64
  st_blocks_found :: u64
  st_connected_miners :: u64
  st_current_height :: u64
  st_current_coinbase_value :: u64
  st_current_block_transaction_count :: u64
  st_best_share_difficulty :: u64
  st_session_best_share_difficulty :: u64
  st_best_hashrate_hps :: f64
  st_session_best_hashrate_hps :: f64
  st_network_hashrate_hps :: f64
  st_network_difficulty :: f64
  st_est_difficulty_change_pct :: f64
  st_last_block_worker :: "string option"
  st_last_block_hash :: "string option"
  st_last_block_ts :: u64
  st_round_work :: f64
  st_round_start_ts :: u64
  st_found_blocks :: "found_block list"
  st_worker_hashrates_60s :: "(string \<times> f64) list"
  st_worker_hashrates_10m :: "(string \<times> f64) list"
  st_worker_hashrates_3h :: "(string \<times> f64) list"
  st_worker_hashrates_24h :: "(string \<times> f64) list"
  st_worker_hashrate_updated_ts :: "(string \<times> u64) list"
  st_worker_share_history :: "(string \<times> share_history) list"
  st_pending_shares :: "logged_share list"
  st_worker_protocol :: "(string \<times> string) list"
  st_worker_last_submit_ts :: "(string \<times> u64) list"
  st_worker_best_shares :: "(string \<times> u64) list"
  st_worker_states :: "(string \<times> worker_state) list"
  st_start_time :: nat
  st_store :: "stats_store option"
  st_store_open_error :: "string option"

text \<open>
  The outcome of opening the database: not configured, refused with a message, or opened
  (its rows already trimmed by \<open>StatsStore::open\<close>).
\<close>

datatype store_opened = NoStore | OpenFailed string | Opened stats_store

definition StatsStore_open :: "arrangement \<Rightarrow> bool \<Rightarrow> stats_store \<Rightarrow> stats_store" where
  "StatsStore_open arrange ok tables =
     prune_worker_best_shares arrange ok MAX_WORKER_BEST_SHARES (tables\<lparr>db_write_error := None\<rparr>)"

definition PoolStats_new_with_store :: "nat \<Rightarrow> u64 \<Rightarrow> bool \<Rightarrow> store_opened \<Rightarrow> pool_stats" where
  "PoolStats_new_with_store instant now ok opened =
     (let (store, loaded, err) =
        (case opened of
           NoStore \<Rightarrow> (None, LoadedStats_default, None)
         | OpenFailed msg \<Rightarrow> (None, LoadedStats_default, Some msg)
         | Opened s \<Rightarrow>
             (case load_values s of
                None \<Rightarrow> (None, LoadedStats_default, Some ''could not load stats'')
              | Some l \<Rightarrow> (Some s, l, None)));
          first_round = (lo_round_start_ts loaded = 0 \<and> store \<noteq> None);
          round_start_ts = (if first_round then now else lo_round_start_ts loaded);
          store1 = (if first_round then map_option (set_round ok (lo_round_work loaded) now) store else store);
          blocks = lo_found_blocks loaded;
          last_block = (if blocks = [] then None else Some (last blocks))
      in \<lparr>st_shares_accepted = 0, st_shares_rejected = 0, st_blocks_found = of_nat (length blocks),
          st_connected_miners = 0, st_current_height = 0, st_current_coinbase_value = 0,
          st_current_block_transaction_count = 0,
          st_best_share_difficulty = lo_best_share_difficulty loaded, st_session_best_share_difficulty = 0,
          st_best_hashrate_hps = lo_best_hashrate_hps loaded, st_session_best_hashrate_hps = Fin 0,
          st_network_hashrate_hps = Fin 0, st_network_difficulty = Fin 0, st_est_difficulty_change_pct = NaN,
          st_last_block_worker = map_option fb_worker last_block, st_last_block_hash = map_option fb_hash last_block,
          st_last_block_ts = (case last_block of None \<Rightarrow> 0 | Some b \<Rightarrow> fb_ts b),
          st_round_work = lo_round_work loaded, st_round_start_ts = round_start_ts, st_found_blocks = blocks,
          st_worker_hashrates_60s = [], st_worker_hashrates_10m = [], st_worker_hashrates_3h = [],
          st_worker_hashrates_24h = [], st_worker_hashrate_updated_ts = [], st_worker_share_history = [],
          st_pending_shares = [], st_worker_protocol = [], st_worker_last_submit_ts = [],
          st_worker_best_shares = lo_worker_best_shares loaded, st_worker_states = [],
          st_start_time = instant, st_store = store1, st_store_open_error = err\<rparr>)"

definition store_error :: "pool_stats \<Rightarrow> string option" where
  "store_error p =
     (case st_store_open_error p of
        Some e \<Rightarrow> Some e
      | None \<Rightarrow> (case st_store p of None \<Rightarrow> None | Some s \<Rightarrow> db_write_error s))"

definition worker_online :: "pool_stats \<Rightarrow> string \<Rightarrow> bool" where
  "worker_online p worker = (case map_of (st_worker_states p) worker of None \<Rightarrow> False | Some ws \<Rightarrow> ws_online ws)"

definition lookup_or :: "'v \<Rightarrow> ('k \<times> 'v) list \<Rightarrow> 'k \<Rightarrow> 'v" where
  "lookup_or d m k = (case map_of m k of None \<Rightarrow> d | Some v \<Rightarrow> v)"

definition worker_liveness :: "pool_stats \<Rightarrow> (string \<times> bool \<times> u64) list" where
  "worker_liveness p =
     map (\<lambda>(w, ws). (w, ws_online ws, lookup_or 0 (st_worker_last_submit_ts p) w)) (st_worker_states p)"

definition store_configured :: "pool_stats \<Rightarrow> bool" where
  "store_configured p \<longleftrightarrow> st_store p \<noteq> None \<or> st_store_open_error p \<noteq> None"

definition reset_best_hashrate :: "bool \<Rightarrow> pool_stats \<Rightarrow> pool_stats" where
  "reset_best_hashrate ok p =
     p\<lparr>st_best_hashrate_hps := Fin 0, st_session_best_hashrate_hps := Fin 0,
       st_store := map_option (force_best_hashrate_hps ok (Fin 0)) (st_store p)\<rparr>"

definition miner_connected :: "pool_stats \<Rightarrow> pool_stats" where
  "miner_connected p = p\<lparr>st_connected_miners := st_connected_miners p + 1\<rparr>"

definition miner_disconnected :: "pool_stats \<Rightarrow> pool_stats" where
  "miner_disconnected p = p\<lparr>st_connected_miners := st_connected_miners p - 1\<rparr>"

text \<open>The compare-and-exchange loops end with the maximum (or the sum) of what was there.\<close>

definition share_accepted :: "bool \<Rightarrow> u64 \<Rightarrow> u64 \<Rightarrow> pool_stats \<Rightarrow> pool_stats" where
  "share_accepted ok difficulty credited p =
     (let better = (difficulty > st_best_share_difficulty p)
      in p\<lparr>st_shares_accepted := st_shares_accepted p + 1,
           st_round_work := f64_add (st_round_work p) (f64_of_u64 credited),
           st_best_share_difficulty := (if better then difficulty else st_best_share_difficulty p),
           st_session_best_share_difficulty :=
             (if difficulty > st_session_best_share_difficulty p then difficulty else st_session_best_share_difficulty p),
           st_store := (if better then map_option (set_best_share_difficulty ok difficulty) (st_store p) else st_store p)\<rparr>)"

definition share_rejected :: "pool_stats \<Rightarrow> pool_stats" where
  "share_rejected p = p\<lparr>st_shares_rejected := st_shares_rejected p + 1\<rparr>"

definition block_found :: "bool \<Rightarrow> bool \<Rightarrow> u64 \<Rightarrow> string \<Rightarrow> string \<Rightarrow> u64 \<Rightarrow> pool_stats \<Rightarrow> pool_stats" where
  "block_found ok1 ok2 now worker hash height p =
     (if hash \<in> set (map fb_hash (st_found_blocks p)) then p
      else
        let block = \<lparr>fb_height = height, fb_hash = hash, fb_worker = worker, fb_ts = now,
              fb_round_work = st_round_work p, fb_network_difficulty = st_network_difficulty p\<rparr>
        in p\<lparr>st_round_work := Fin 0, st_blocks_found := st_blocks_found p + 1,
             st_last_block_worker := Some worker, st_last_block_hash := Some hash, st_last_block_ts := now,
             st_round_start_ts := now, st_found_blocks := st_found_blocks p @ [block],
             st_store := map_option (\<lambda>s. set_round ok2 (Fin 0) now (insert_found_block ok1 block s)) (st_store p)\<rparr>)"

definition persist_round_state :: "bool \<Rightarrow> pool_stats \<Rightarrow> pool_stats" where
  "persist_round_state ok p =
     p\<lparr>st_store := map_option (set_round ok (st_round_work p) (st_round_start_ts p)) (st_store p)\<rparr>"

definition update_height :: "u64 \<Rightarrow> u64 \<Rightarrow> u64 \<Rightarrow> pool_stats \<Rightarrow> pool_stats" where
  "update_height height coinbase_value transaction_count p =
     p\<lparr>st_current_height := height, st_current_coinbase_value := coinbase_value,
       st_current_block_transaction_count := transaction_count\<rparr>"

definition worker_hashrates :: "string \<Rightarrow> u64 \<Rightarrow> pool_stats \<Rightarrow> f64 \<times> f64 \<times> f64 \<times> f64" where
  "worker_hashrates worker now p =
     (let hr_60s = lookup_or (Fin 0) (st_worker_hashrates_60s p) worker;
          hr_10m = lookup_or (Fin 0) (st_worker_hashrates_10m p) worker;
          hr_3h = lookup_or (Fin 0) (st_worker_hashrates_3h p) worker;
          hr_24h = lookup_or (Fin 0) (st_worker_hashrates_24h p) worker
      in if worker_online p worker then (hr_60s, hr_10m, hr_3h, hr_24h)
         else
           let elapsed = sat_sub now (lookup_or 0 (st_worker_hashrate_updated_ts p) worker)
           in (f64_mul hr_60s (window_overlap elapsed HASHRATE_WINDOW_60S),
               f64_mul hr_10m (window_overlap elapsed HASHRATE_WINDOW_10M),
               f64_mul hr_3h (window_overlap elapsed HASHRATE_WINDOW_3H),
               f64_mul hr_24h (window_overlap elapsed HASHRATE_WINDOW_24H)))"

definition total_10m :: "u64 \<Rightarrow> pool_stats \<Rightarrow> f64" where
  "total_10m now p =
     fold (\<lambda>e acc. f64_add acc (fst (snd (worker_hashrates (fst e) now p)))) (st_worker_hashrates_10m p) (Fin 0)"

definition update_worker_hashrate ::
  "bool \<Rightarrow> u64 \<Rightarrow> string \<Rightarrow> f64 \<Rightarrow> f64 \<Rightarrow> f64 \<Rightarrow> f64 \<Rightarrow> pool_stats \<Rightarrow> pool_stats" where
  "update_worker_hashrate ok now worker hps_60s hps_10m hps_3h hps_24h p =
     (let p1 = p\<lparr>st_worker_hashrates_60s := AList.update worker hps_60s (st_worker_hashrates_60s p),
            st_worker_hashrates_10m := AList.update worker hps_10m (st_worker_hashrates_10m p),
            st_worker_hashrates_3h := AList.update worker hps_3h (st_worker_hashrates_3h p),
            st_worker_hashrates_24h := AList.update worker hps_24h (st_worker_hashrates_24h p),
            st_worker_hashrate_updated_ts := AList.update worker now (st_worker_hashrate_updated_ts p)\<rparr>;
          total = total_10m now p1;
          p2 = (if f64_lt (st_best_hashrate_hps p1) total
                then p1\<lparr>st_best_hashrate_hps := total, st_store := map_option (set_best_hashrate_hps ok total) (st_store p1)\<rparr>
                else p1)
      in if f64_lt (st_session_best_hashrate_hps p2) total then p2\<lparr>st_session_best_hashrate_hps := total\<rparr> else p2)"

definition offline_worker_hashrates_10m :: "u64 \<Rightarrow> pool_stats \<Rightarrow> (string \<times> f64) list" where
  "offline_worker_hashrates_10m now p =
     map (\<lambda>w. (w, fst (snd (worker_hashrates w now p))))
       (filter (\<lambda>w. \<not> worker_online p w) (map fst (st_worker_hashrates_10m p)))"

text \<open>A change of a worker's entry, when it has one (\<open>get_mut\<close>).\<close>

definition with_worker :: "string \<Rightarrow> (worker_state \<Rightarrow> worker_state) \<Rightarrow> pool_stats \<Rightarrow> pool_stats" where
  "with_worker worker f p =
     (case map_of (st_worker_states p) worker of
        None \<Rightarrow> p
      | Some ws \<Rightarrow> p\<lparr>st_worker_states := AList.update worker (f ws) (st_worker_states p)\<rparr>)"

definition set_worker_protocol :: "string \<Rightarrow> string \<Rightarrow> pool_stats \<Rightarrow> pool_stats" where
  "set_worker_protocol worker protocol p =
     with_worker worker (\<lambda>ws. ws\<lparr>ws_protocol := protocol\<rparr>)
       (p\<lparr>st_worker_protocol := AList.update worker protocol (st_worker_protocol p)\<rparr>)"

definition mark_worker_submit :: "u64 \<Rightarrow> string \<Rightarrow> pool_stats \<Rightarrow> pool_stats" where
  "mark_worker_submit now worker p =
     with_worker worker (\<lambda>ws. ws\<lparr>ws_last_submit_ts := now\<rparr>)
       (p\<lparr>st_worker_last_submit_ts := AList.update worker now (st_worker_last_submit_ts p)\<rparr>)"

definition WorkerState_fresh :: "string \<Rightarrow> string \<Rightarrow> bool \<Rightarrow> u64 \<Rightarrow> u64 \<Rightarrow> u64 \<Rightarrow> u64 \<Rightarrow> worker_state" where
  "WorkerState_fresh worker protocol online vardiff best active now =
     \<lparr>ws_worker = worker, ws_protocol = protocol, ws_online = online, ws_current_vardiff = vardiff,
      ws_shares_accepted = 0, ws_shares_rejected = 0, ws_shares_stale = 0, ws_reject_reasons = [],
      ws_best_share_difficulty = best, ws_active_sessions = active, ws_connected_ts = now, ws_last_submit_ts = 0,
      ws_hashrate_60s_hps = Fin 0, ws_hashrate_10m_hps = Fin 0, ws_hashrate_3h_hps = Fin 0, ws_hashrate_24h_hps = Fin 0,
      ws_last_hour_accepted = 0, ws_last_hour_stale = 0, ws_last_hour_other_rejects = (\<lambda>_. 0),
      ws_last_other_reject_ts = 0, ws_last_other_reject_reason = None, ws_reject_window = RejectWindow_default\<rparr>"

definition mark_worker_online :: "u64 \<Rightarrow> string \<Rightarrow> u64 \<Rightarrow> pool_stats \<Rightarrow> pool_stats" where
  "mark_worker_online now worker current_vardiff p =
     (case map_of (st_worker_states p) worker of
        Some ws \<Rightarrow> with_worker worker (\<lambda>ws. ws\<lparr>ws_online := True, ws_current_vardiff := current_vardiff,
           ws_connected_ts := now, ws_active_sessions := sat_add (ws_active_sessions ws) 1\<rparr>) p
      | None \<Rightarrow> p\<lparr>st_worker_states := AList.update worker
           (WorkerState_fresh worker (lookup_or ''sv1'' (st_worker_protocol p) worker) True current_vardiff
              (lookup_or 0 (st_worker_best_shares p) worker) 1 now) (st_worker_states p)\<rparr>)"

definition mark_worker_offline :: "string \<Rightarrow> pool_stats \<Rightarrow> pool_stats" where
  "mark_worker_offline worker p =
     with_worker worker (\<lambda>ws. if ws_active_sessions ws > 1 then ws\<lparr>ws_active_sessions := ws_active_sessions ws - 1\<rparr>
       else ws\<lparr>ws_active_sessions := 0, ws_online := False\<rparr>) p"

definition stash_share_history :: "string \<Rightarrow> share_history \<Rightarrow> pool_stats \<Rightarrow> pool_stats" where
  "stash_share_history worker history p =
     p\<lparr>st_worker_share_history := AList.update worker history (st_worker_share_history p)\<rparr>"

definition PoolStats_take_share_history :: "nat \<Rightarrow> u64 \<Rightarrow> string \<Rightarrow> pool_stats \<Rightarrow> share_history option \<times> pool_stats" where
  "PoolStats_take_share_history instant now worker p =
     (case map_of (st_worker_share_history p) worker of
        Some history \<Rightarrow> (Some history, p\<lparr>st_worker_share_history := AList.delete worker (st_worker_share_history p)\<rparr>)
      | None \<Rightarrow>
          (case st_store p of
             None \<Rightarrow> (None, p)
           | Some s \<Rightarrow> (from_unix_rows instant (get_shares worker (sat_sub now HASHRATE_WINDOW_24H) s) now, p)))"

definition log_share :: "u64 \<Rightarrow> string \<Rightarrow> u64 \<Rightarrow> pool_stats \<Rightarrow> pool_stats" where
  "log_share now worker credited p =
     (if st_store p = None then p
      else if length (st_pending_shares p) \<ge> MAX_PENDING_SHARES then p
      else p\<lparr>st_pending_shares := st_pending_shares p @ [\<lparr>ls_worker = worker, ls_ts = now, ls_credited = credited\<rparr>]\<rparr>)"

definition flush_share_log :: "bool \<Rightarrow> u64 \<Rightarrow> pool_stats \<Rightarrow> pool_stats" where
  "flush_share_log ok now p =
     (case st_store p of
        None \<Rightarrow> p
      | Some s \<Rightarrow>
          (let batch = st_pending_shares p; p1 = p\<lparr>st_pending_shares := []\<rparr>
           in if batch = [] then p1
              else p1\<lparr>st_store := Some (snd (append_shares ok batch now s))\<rparr>))"

definition update_worker_vardiff :: "u64 \<Rightarrow> string \<Rightarrow> u64 \<Rightarrow> pool_stats \<Rightarrow> pool_stats" where
  "update_worker_vardiff now worker vardiff p =
     (case map_of (st_worker_states p) worker of
        Some ws \<Rightarrow> with_worker worker (\<lambda>ws. ws\<lparr>ws_current_vardiff := vardiff\<rparr>) p
      | None \<Rightarrow> mark_worker_online now worker vardiff p)"

definition worker_share_accepted :: "bool \<Rightarrow> u64 \<Rightarrow> string \<Rightarrow> u64 \<Rightarrow> pool_stats \<Rightarrow> pool_stats" where
  "worker_share_accepted ok now worker difficulty p =
     (let p1 = with_worker worker (\<lambda>ws. ws\<lparr>ws_shares_accepted := ws_shares_accepted ws + 1,
            ws_reject_window := record_accepted now (ws_reject_window ws),
            ws_best_share_difficulty := (if difficulty > ws_best_share_difficulty ws then difficulty
                                         else ws_best_share_difficulty ws)\<rparr>) p;
          entry = lookup_or 0 (st_worker_best_shares p1) worker
      in if difficulty > entry
         then p1\<lparr>st_worker_best_shares := AList.update worker difficulty (st_worker_best_shares p1),
                 st_store := map_option (set_worker_best_share ok worker difficulty) (st_store p1)\<rparr>
         else p1\<lparr>st_worker_best_shares := AList.update worker entry (st_worker_best_shares p1)\<rparr>)"

definition worker_share_rejected :: "u64 \<Rightarrow> string \<Rightarrow> string \<Rightarrow> pool_stats \<Rightarrow> pool_stats" where
  "worker_share_rejected now worker reason p =
     with_worker worker (\<lambda>ws.
       let ws1 = ws\<lparr>ws_shares_rejected := ws_shares_rejected ws + 1,
             ws_reject_reasons := AList.update reason (lookup_or 0 (ws_reject_reasons ws) reason + 1) (ws_reject_reasons ws)\<rparr>;
           ws2 = (if reason = ''stale'' then ws1\<lparr>ws_shares_stale := ws_shares_stale ws1 + 1\<rparr> else ws1)
       in if is_stale_reason reason then ws2\<lparr>ws_reject_window := record_stale now (ws_reject_window ws2)\<rparr>
          else ws2\<lparr>ws_reject_window := record_other now reason (ws_reject_window ws2),
                   ws_last_other_reject_ts := now, ws_last_other_reject_reason := Some reason\<rparr>) p"

definition idle_worker :: "u64 \<Rightarrow> pool_stats \<Rightarrow> string \<times> worker_state \<Rightarrow> bool" where
  "idle_worker cutoff p e =
     (\<not> ws_online (snd e)
      \<and> max (lookup_or (ws_last_submit_ts (snd e)) (st_worker_last_submit_ts p) (fst e)) (ws_connected_ts (snd e)) < cutoff)"

definition forget_worker :: "string \<Rightarrow> pool_stats \<Rightarrow> pool_stats" where
  "forget_worker w p =
     p\<lparr>st_worker_states := AList.delete w (st_worker_states p),
       st_worker_hashrates_60s := AList.delete w (st_worker_hashrates_60s p),
       st_worker_hashrates_10m := AList.delete w (st_worker_hashrates_10m p),
       st_worker_hashrates_3h := AList.delete w (st_worker_hashrates_3h p),
       st_worker_hashrates_24h := AList.delete w (st_worker_hashrates_24h p),
       st_worker_hashrate_updated_ts := AList.delete w (st_worker_hashrate_updated_ts p),
       st_worker_share_history := AList.delete w (st_worker_share_history p),
       st_worker_protocol := AList.delete w (st_worker_protocol p),
       st_worker_last_submit_ts := AList.delete w (st_worker_last_submit_ts p)\<rparr>"

definition trim_best_shares :: "arrangement \<Rightarrow> arrangement \<Rightarrow> bool \<Rightarrow> pool_stats \<Rightarrow> pool_stats" where
  "trim_best_shares arrange sql_arrange ok p =
     (if length (st_worker_best_shares p) > MAX_WORKER_BEST_SHARES
      then
        let all = map (\<lambda>(w, d). (w, int (unat d))) (st_worker_best_shares p);
            dropped = map fst (drop MAX_WORKER_BEST_SHARES (arrange all))
        in p\<lparr>st_worker_best_shares := filter (\<lambda>e. fst e \<notin> set dropped) (st_worker_best_shares p),
             st_store := map_option (prune_worker_best_shares sql_arrange ok MAX_WORKER_BEST_SHARES) (st_store p)\<rparr>
      else p)"

definition prune_idle_workers :: "arrangement \<Rightarrow> arrangement \<Rightarrow> bool \<Rightarrow> u64 \<Rightarrow> pool_stats \<Rightarrow> pool_stats" where
  "prune_idle_workers arrange sql_arrange ok now p =
     (let cutoff = sat_sub now IDLE_WORKER_EVICT_SECS;
          stale = map fst (filter (idle_worker cutoff p) (st_worker_states p))
      in trim_best_shares arrange sql_arrange ok (fold forget_worker stale p))"

definition load_setting :: "string \<Rightarrow> pool_stats \<Rightarrow> string option" where
  "load_setting key p = (case st_store p of None \<Rightarrow> None | Some s \<Rightarrow> get_setting key s)"

definition save_setting :: "bool \<Rightarrow> string \<Rightarrow> string \<Rightarrow> pool_stats \<Rightarrow> bool \<times> pool_stats" where
  "save_setting ok key v p =
     (case st_store p of
        None \<Rightarrow> (False, p)
      | Some s \<Rightarrow> (let (saved, s1) = set_setting ok key v s in (saved, p\<lparr>st_store := Some s1\<rparr>)))"

definition record_hashrate_snapshot :: "bool \<Rightarrow> bool \<Rightarrow> bool \<Rightarrow> u64 \<Rightarrow> pool_stats \<Rightarrow> pool_stats" where
  "record_hashrate_snapshot ok1 ok2 ok3 now p =
     persist_round_state ok3
       (p\<lparr>st_store := map_option (store_hashrate_snapshot ok1 ok2 now (total_10m now p)) (st_store p)\<rparr>)"

definition has_store :: "pool_stats \<Rightarrow> bool" where
  "has_store p \<longleftrightarrow> st_store p \<noteq> None"

definition PoolStats_get_hashrate_history :: "u64 \<Rightarrow> pool_stats \<Rightarrow> (u64 \<times> f64) list" where
  "PoolStats_get_hashrate_history since_ts p =
     (case st_store p of None \<Rightarrow> [] | Some s \<Rightarrow> get_hashrate_history since_ts s)"

definition set_network_hashrate :: "f64 \<Rightarrow> pool_stats \<Rightarrow> pool_stats" where
  "set_network_hashrate hps p = p\<lparr>st_network_hashrate_hps := hps\<rparr>"

definition set_network_difficulty :: "f64 \<Rightarrow> pool_stats \<Rightarrow> pool_stats" where
  "set_network_difficulty difficulty p = p\<lparr>st_network_difficulty := difficulty\<rparr>"

definition set_est_difficulty_change_pct :: "f64 \<Rightarrow> pool_stats \<Rightarrow> pool_stats" where
  "set_est_difficulty_change_pct pct p = p\<lparr>st_est_difficulty_change_pct := pct\<rparr>"

section \<open>The snapshot served to the dashboard\<close>

record worker_hashrate =
  wh_worker :: string
  wh_last_submit_ts :: u64
  wh_hashrate_60s_hps :: f64
  wh_hashrate_10m_hps :: f64
  wh_hashrate_3h_hps :: f64
  wh_hashrate_24h_hps :: f64

record stats_snapshot =
  sn_shares_accepted :: u64
  sn_shares_rejected :: u64
  sn_blocks_found :: u64
  sn_connected_miners :: u64
  sn_current_height :: u64
  sn_current_coinbase_value :: u64
  sn_current_block_transaction_count :: u64
  sn_template_version :: u32
  sn_best_share_difficulty :: u64
  sn_session_best_share_difficulty :: u64
  sn_best_hashrate_hps :: f64
  sn_total_hashrate_60s :: f64
  sn_total_hashrate_10m :: f64
  sn_total_hashrate_3h :: f64
  sn_total_hashrate_24h :: f64
  sn_network_hashrate_hps :: f64
  sn_network_difficulty :: f64
  sn_est_difficulty_change_pct :: f64
  sn_worker_hashrates :: "worker_hashrate list"
  sn_worker_states :: "worker_state list"
  sn_uptime_secs :: nat
  sn_session_best_hashrate_hps :: f64
  sn_last_block_worker :: string
  sn_last_block_hash :: string
  sn_last_block_ts :: u64
  sn_round_work :: f64
  sn_round_start_ts :: u64
  sn_found_blocks :: "found_block list"
  sn_template_age_secs :: "nat option"
  sn_template_error :: "template_failure option"
  sn_stats_store_error :: "string option"

text \<open>One row per worker with a hashrate, and the sums of their columns.\<close>

definition snapshot_hashrate :: "u64 \<Rightarrow> pool_stats \<Rightarrow> string \<Rightarrow> worker_hashrate" where
  "snapshot_hashrate now p worker =
     (let (hr_60s, hr_10m, hr_3h, hr_24h) = worker_hashrates worker now p
      in \<lparr>wh_worker = worker, wh_last_submit_ts = lookup_or 0 (st_worker_last_submit_ts p) worker,
          wh_hashrate_60s_hps = hr_60s, wh_hashrate_10m_hps = hr_10m, wh_hashrate_3h_hps = hr_3h,
          wh_hashrate_24h_hps = hr_24h\<rparr>)"

definition f64_sum :: "f64 list \<Rightarrow> f64" where
  "f64_sum xs = foldl f64_add (Fin 0) xs"

text \<open>A worker the object knows, brought up to date.\<close>

definition snapshot_state :: "u64 \<Rightarrow> pool_stats \<Rightarrow> string \<times> worker_state \<Rightarrow> worker_state" where
  "snapshot_state now p e =
     (let worker = fst e; state = snd e;
          (hr_60s, hr_10m, hr_3h, hr_24h) = worker_hashrates worker now p;
          (accepted, stale, other) = RejectWindow_summary now (ws_reject_window state)
      in state\<lparr>ws_worker := worker,
           ws_hashrate_60s_hps := hr_60s, ws_hashrate_10m_hps := hr_10m,
           ws_hashrate_3h_hps := hr_3h, ws_hashrate_24h_hps := hr_24h,
           ws_protocol := lookup_or (ws_protocol state) (st_worker_protocol p) worker,
           ws_last_submit_ts := lookup_or 0 (st_worker_last_submit_ts p) worker,
           ws_best_share_difficulty := lookup_or (ws_best_share_difficulty state) (st_worker_best_shares p) worker,
           ws_last_hour_accepted := accepted, ws_last_hour_stale := stale, ws_last_hour_other_rejects := other\<rparr>)"

definition snapshot_workers :: "u64 \<Rightarrow> pool_stats \<Rightarrow> worker_state list" where
  "snapshot_workers now p =
     map (snapshot_state now p) (st_worker_states p)
     @ map (\<lambda>(worker, best). WorkerState_fresh worker (lookup_or ''sv1'' (st_worker_protocol p) worker) False 0 best 0 0)
         (filter (\<lambda>e. fst e \<notin> set (map fst (st_worker_states p))) (st_worker_best_shares p))"

text \<open>The dash shown for a missing name (three bytes in UTF-8); the uptime counts whole seconds of the monotonic clock.\<close>

definition em_dash :: string where
  "em_dash = map char_of [0xE2, 0x80, 0x94 :: nat]"

definition PoolStats_snapshot :: "nat \<Rightarrow> u64 \<Rightarrow> pool_stats \<Rightarrow> stats_snapshot" where
  "PoolStats_snapshot instant now p =
     (let hashrates = map (\<lambda>e. snapshot_hashrate now p (fst e)) (st_worker_hashrates_10m p)
      in \<lparr>sn_shares_accepted = st_shares_accepted p, sn_shares_rejected = st_shares_rejected p,
          sn_blocks_found = st_blocks_found p, sn_connected_miners = st_connected_miners p,
          sn_current_height = st_current_height p, sn_current_coinbase_value = st_current_coinbase_value p,
          sn_current_block_transaction_count = st_current_block_transaction_count p, sn_template_version = 0,
          sn_best_share_difficulty = st_best_share_difficulty p,
          sn_session_best_share_difficulty = st_session_best_share_difficulty p,
          sn_best_hashrate_hps = st_best_hashrate_hps p,
          sn_total_hashrate_60s = f64_sum (map wh_hashrate_60s_hps hashrates),
          sn_total_hashrate_10m = f64_sum (map wh_hashrate_10m_hps hashrates),
          sn_total_hashrate_3h = f64_sum (map wh_hashrate_3h_hps hashrates),
          sn_total_hashrate_24h = f64_sum (map wh_hashrate_24h_hps hashrates),
          sn_network_hashrate_hps = st_network_hashrate_hps p, sn_network_difficulty = st_network_difficulty p,
          sn_est_difficulty_change_pct = st_est_difficulty_change_pct p,
          sn_worker_hashrates = hashrates, sn_worker_states = snapshot_workers now p,
          sn_uptime_secs = (instant - st_start_time p) div 10 ^ 9,
          sn_session_best_hashrate_hps = st_session_best_hashrate_hps p,
          sn_last_block_worker = (case st_last_block_worker p of None \<Rightarrow> em_dash | Some w \<Rightarrow> w),
          sn_last_block_hash = (case st_last_block_hash p of None \<Rightarrow> em_dash | Some h \<Rightarrow> h),
         
          sn_last_block_ts = st_last_block_ts p, sn_round_work = st_round_work p,
          sn_round_start_ts = st_round_start_ts p, sn_found_blocks = st_found_blocks p,
          sn_template_age_secs = None, sn_template_error = None, sn_stats_store_error = store_error p\<rparr>)"

end
