(* ===== verification/Stats_History.thy ===== *)
theory Stats_History
  imports Stats
begin

text \<open>
  Histories of the statistics object: the calls that sessions, the engine and the background
  tasks make, in any order. Its invariant, the reference for round accounting, what the
  database keeps of the object and what opening it again recovers, and what pruning drops.
\<close>

section \<open>Histories of the statistics\<close>

text \<open>The calls that sessions, the engine and the background tasks make, in any order.\<close>

datatype stats_op =
    OpMinerConnected | OpMinerDisconnected
  | OpShareAccepted bool u64 u64 | OpShareRejected | OpBlockFound bool bool u64 string string u64
  | OpUpdateHeight u64 u64 u64 | OpHashrate bool u64 string f64 f64 f64 f64 | OpResetHashrate bool
  | OpProtocol string string | OpSubmit u64 string | OpOnline u64 string u64 | OpOffline string
  | OpStash string share_history | OpTake nat u64 string | OpLog u64 string u64 | OpFlush bool u64
  | OpVardiff u64 string u64 | OpWorkerAccepted bool u64 string u64 | OpWorkerRejected u64 string string
  | OpPrune arrangement arrangement bool u64 | OpSaveSetting bool string string | OpSnapshot bool bool bool u64
  | OpNetwork f64 f64 f64

fun stats_step :: "stats_op \<Rightarrow> pool_stats \<Rightarrow> pool_stats" where
  "stats_step OpMinerConnected p = miner_connected p"
| "stats_step OpMinerDisconnected p = miner_disconnected p"
| "stats_step (OpShareAccepted ok d c) p = share_accepted ok d c p"
| "stats_step OpShareRejected p = share_rejected p"
| "stats_step (OpBlockFound ok1 ok2 now w h height) p = block_found ok1 ok2 now w h height p"
| "stats_step (OpUpdateHeight h v n) p = update_height h v n p"
| "stats_step (OpHashrate ok now w a b c d) p = update_worker_hashrate ok now w a b c d p"
| "stats_step (OpResetHashrate ok) p = reset_best_hashrate ok p"
| "stats_step (OpProtocol w pr) p = set_worker_protocol w pr p"
| "stats_step (OpSubmit now w) p = mark_worker_submit now w p"
| "stats_step (OpOnline now w v) p = mark_worker_online now w v p"
| "stats_step (OpOffline w) p = mark_worker_offline w p"
| "stats_step (OpStash w h) p = stash_share_history w h p"
| "stats_step (OpTake i now w) p = snd (PoolStats_take_share_history i now w p)"
| "stats_step (OpLog now w c) p = log_share now w c p"
| "stats_step (OpFlush ok now) p = flush_share_log ok now p"
| "stats_step (OpVardiff now w v) p = update_worker_vardiff now w v p"
| "stats_step (OpWorkerAccepted ok now w d) p = worker_share_accepted ok now w d p"
| "stats_step (OpWorkerRejected now w r) p = worker_share_rejected now w r p"
| "stats_step (OpPrune ar sql ok now) p = prune_idle_workers ar sql ok now p"
| "stats_step (OpSaveSetting ok k v) p = snd (save_setting ok k v p)"
| "stats_step (OpSnapshot ok1 ok2 ok3 now) p = record_hashrate_snapshot ok1 ok2 ok3 now p"
| "stats_step (OpNetwork hps difficulty pct) p =
     set_est_difficulty_change_pct pct (set_network_difficulty difficulty (set_network_hashrate hps p))"

lemmas network_setters = set_network_hashrate_def set_network_difficulty_def set_est_difficulty_change_pct_def

text \<open>The workers' part of the invariant and the rest of it.\<close>

definition workers_ok :: "(string \<times> worker_state) list \<Rightarrow> bool" where
  "workers_ok m \<longleftrightarrow> distinct (map fst m)
     \<and> (\<forall>w ws. map_of m w = Some ws \<longrightarrow> ws_worker ws = w \<and> (ws_online ws \<longleftrightarrow> 0 < ws_active_sessions ws))"

definition stats_ok :: "pool_stats \<Rightarrow> bool" where
  "stats_ok p \<longleftrightarrow> workers_ok (st_worker_states p) \<and> distinct (map fst (st_worker_best_shares p))
     \<and> distinct (map fb_hash (st_found_blocks p)) \<and> st_blocks_found p = of_nat (length (st_found_blocks p))
     \<and> length (st_pending_shares p) \<le> MAX_PENDING_SHARES"

lemma workers_ok_update:
  assumes "workers_ok m" and "ws_worker ws = w" and "ws_online ws \<longleftrightarrow> 0 < ws_active_sessions ws"
  shows "workers_ok (AList.update w ws m)"
  using assms by (auto simp: workers_ok_def update_conv' AList.distinct_update split: if_splits)

lemma workers_ok_delete: "workers_ok m \<Longrightarrow> workers_ok (AList.delete w m)"
  by (auto simp: workers_ok_def delete_conv' AList.distinct_delete split: if_splits)

lemma stats_ok_frame [simp]:
  "stats_ok (p\<lparr>st_store := s\<rparr>) = stats_ok p"
  "stats_ok (p\<lparr>st_worker_protocol := a\<rparr>) = stats_ok p"
  "stats_ok (p\<lparr>st_worker_last_submit_ts := b\<rparr>) = stats_ok p"
  "stats_ok (p\<lparr>st_worker_share_history := c\<rparr>) = stats_ok p"
  by (simp_all add: stats_ok_def)

lemma with_worker_ok:
  assumes "stats_ok p"
    and "\<And>ws. ws_worker (f ws) = ws_worker ws"
    and "\<And>ws. (ws_online ws \<longleftrightarrow> 0 < ws_active_sessions ws) \<Longrightarrow> (ws_online (f ws) \<longleftrightarrow> 0 < ws_active_sessions (f ws))"
  shows "stats_ok (with_worker w f p)"
proof (cases "map_of (st_worker_states p) w")
  case (Some ws)
  then have "ws_worker (f ws) = w" "ws_online (f ws) \<longleftrightarrow> 0 < ws_active_sessions (f ws)"
    using assms by (auto simp: stats_ok_def workers_ok_def)
  then have "workers_ok (AList.update w (f ws) (st_worker_states p))"
    using assms(1) by (intro workers_ok_update) (auto simp: stats_ok_def)
  then show ?thesis using Some assms(1) by (simp add: with_worker_def stats_ok_def)
qed (simp add: with_worker_def assms(1))

lemma sat_inc_pos: "0 < sat_add (x :: u64) 1"
  by (simp add: word_less_nat_alt unat_sat_add)

lemma mark_worker_online_ok: "stats_ok p \<Longrightarrow> stats_ok (mark_worker_online now w v p)"
proof (cases "map_of (st_worker_states p) w")
  case None
  assume ok: "stats_ok p"
  have "workers_ok (AList.update w (WorkerState_fresh w a True v b 1 now) (st_worker_states p))" for a b
    using ok by (intro workers_ok_update) (auto simp: stats_ok_def WorkerState_fresh_def)
  then show ?thesis using None ok by (simp add: mark_worker_online_def stats_ok_def)
next
  case (Some ws)
  assume "stats_ok p"
  then show ?thesis using Some by (auto simp: mark_worker_online_def sat_inc_pos intro!: with_worker_ok)
qed

lemma mark_worker_offline_ok: "stats_ok p \<Longrightarrow> stats_ok (mark_worker_offline w p)"
  unfolding mark_worker_offline_def
proof (rule with_worker_ok)
  fix ws :: worker_state
  assume "ws_online ws \<longleftrightarrow> 0 < ws_active_sessions ws"
  moreover have "0 < x - 1" if "1 < x" for x :: u64
  proof -
    have "x \<noteq> 0" using that by auto
    then show ?thesis using that by (simp add: word_less_nat_alt unat_minus_one)
  qed
  ultimately show "ws_online (if 1 < ws_active_sessions ws then ws\<lparr>ws_active_sessions := ws_active_sessions ws - 1\<rparr>
        else ws\<lparr>ws_active_sessions := 0, ws_online := False\<rparr>)
      \<longleftrightarrow> 0 < ws_active_sessions (if 1 < ws_active_sessions ws then ws\<lparr>ws_active_sessions := ws_active_sessions ws - 1\<rparr>
        else ws\<lparr>ws_active_sessions := 0, ws_online := False\<rparr>)"
    by (auto intro: less_trans [of 0 1])
qed auto

lemma worker_share_accepted_ok:
  assumes "stats_ok p"
  shows "stats_ok (worker_share_accepted ok now w d p)"
proof -
  define p1 where "p1 = with_worker w (\<lambda>ws. ws\<lparr>ws_shares_accepted := ws_shares_accepted ws + 1,
            ws_reject_window := record_accepted now (ws_reject_window ws),
            ws_best_share_difficulty := (if d > ws_best_share_difficulty ws then d
                                         else ws_best_share_difficulty ws)\<rparr>) p"
  have "stats_ok p1" unfolding p1_def by (rule with_worker_ok) (use assms in auto)
  then show ?thesis
    by (simp add: worker_share_accepted_def Let_def p1_def [symmetric] stats_ok_def AList.distinct_update)
qed

lemma worker_share_rejected_ok: "stats_ok p \<Longrightarrow> stats_ok (worker_share_rejected now w r p)"
  unfolding worker_share_rejected_def by (rule with_worker_ok) (auto simp: Let_def)

lemma forget_worker_ok: "stats_ok p \<Longrightarrow> stats_ok (forget_worker w p)"
  by (simp add: forget_worker_def stats_ok_def workers_ok_delete)

lemma trim_ok: "stats_ok p \<Longrightarrow> stats_ok (trim_best_shares ar sql ok p)"
  by (auto simp: trim_best_shares_def stats_ok_def Let_def intro: distinct_keys_filter)

lemma prune_ok: "stats_ok p \<Longrightarrow> stats_ok (prune_idle_workers ar sql ok now p)"
proof -
  assume "stats_ok p"
  then have "stats_ok (fold forget_worker ws p)" for ws
    by (induction ws arbitrary: p) (simp_all add: forget_worker_ok)
  then show ?thesis by (simp add: prune_idle_workers_def Let_def trim_ok)
qed

lemma block_found_ok: "stats_ok p \<Longrightarrow> stats_ok (block_found ok1 ok2 now w h height p)"
  by (auto simp: block_found_def stats_ok_def Let_def)

lemma stats_step_ok:
  assumes "stats_ok p"
  shows "stats_ok (stats_step op p)"
proof (cases op)
  case (OpOnline now w v)
  then show ?thesis using assms mark_worker_online_ok by simp
next
  case (OpVardiff now w v)
  then show ?thesis
    using assms by (auto simp: update_worker_vardiff_def mark_worker_online_ok split: option.splits intro!: with_worker_ok)
next
  case (OpFlush ok now)
  then show ?thesis
    using assms by (auto simp: flush_share_log_def stats_ok_def Let_def split: option.splits)
next
  case (OpProtocol w pr)
  then show ?thesis using assms by (auto simp: set_worker_protocol_def intro!: with_worker_ok)
next
  case (OpSubmit now w)
  then show ?thesis using assms by (auto simp: mark_worker_submit_def intro!: with_worker_ok)
next
  case (OpSaveSetting ok k v)
  then show ?thesis using assms by (auto simp: save_setting_def split: option.splits prod.splits)
next
  case (OpTake i now w)
  then show ?thesis using assms by (auto simp: PoolStats_take_share_history_def split: option.splits)
qed (use assms in \<open>simp_all add: mark_worker_offline_ok worker_share_accepted_ok worker_share_rejected_ok prune_ok block_found_ok,
    simp_all add: stats_ok_def miner_connected_def miner_disconnected_def share_accepted_def share_rejected_def update_height_def network_setters
      update_worker_hashrate_def reset_best_hashrate_def stash_share_history_def log_share_def record_hashrate_snapshot_def
      persist_round_state_def Let_def\<close>)

section \<open>Rounds\<close>

text \<open>
  The reference for round accounting: the closed rounds, each with the hash of its block and
  the credits of its shares in order, and the credits of the open round.
\<close>

fun round_step :: "stats_op \<Rightarrow> (string \<times> u64 list) list \<times> u64 list \<Rightarrow> (string \<times> u64 list) list \<times> u64 list" where
  "round_step (OpShareAccepted ok d c) (done_rounds, cur) = (done_rounds, cur @ [c])"
| "round_step (OpBlockFound ok1 ok2 now w h height) (done_rounds, cur) =
     (if h \<in> set (map fst done_rounds) then (done_rounds, cur) else (done_rounds @ [(h, cur)], []))"
| "round_step op st = st"

definition round_value :: "u64 list \<Rightarrow> f64" where
  "round_value credits = foldl (\<lambda>acc c. f64_add acc (f64_of_u64 c)) (Fin 0) credits"

definition rounds_of :: "pool_stats \<Rightarrow> (string \<times> f64) list \<times> f64" where
  "rounds_of p = (map (\<lambda>b. (fb_hash b, fb_round_work b)) (st_found_blocks p), st_round_work p)"

definition round_values :: "(string \<times> u64 list) list \<times> u64 list \<Rightarrow> (string \<times> f64) list \<times> f64" where
  "round_values st = (map (\<lambda>(h, cs). (h, round_value cs)) (fst st), round_value (snd st))"

lemma with_worker_rest [simp]:
  "rounds_of (with_worker w f p) = rounds_of p"
  "st_store (with_worker w f p) = st_store p"
  "st_best_share_difficulty (with_worker w f p) = st_best_share_difficulty p"
  "st_found_blocks (with_worker w f p) = st_found_blocks p"
  by (auto simp: with_worker_def rounds_of_def split: option.splits)

lemma forget_workers_rest [simp]:
  "rounds_of (fold forget_worker ws p) = rounds_of p"
  "st_store (fold forget_worker ws p) = st_store p"
  "st_best_share_difficulty (fold forget_worker ws p) = st_best_share_difficulty p"
  "st_found_blocks (fold forget_worker ws p) = st_found_blocks p"
  "st_worker_best_shares (fold forget_worker ws p) = st_worker_best_shares p"
  by (induction ws arbitrary: p) (simp_all add: forget_worker_def rounds_of_def)

lemma round_step_refines:
  assumes "rounds_of p = round_values (done_rounds, cur)"
  shows "rounds_of (stats_step op p) = round_values (round_step op (done_rounds, cur))"
proof (cases op)
  case (OpBlockFound ok1 ok2 now w h height)
  have "map fb_hash (st_found_blocks p) = map fst done_rounds"
    using arg_cong [OF assms, of "\<lambda>x. map fst (fst x)"] by (simp add: rounds_of_def round_values_def comp_def case_prod_unfold)
  then have "(h \<in> fb_hash ` set (st_found_blocks p)) = (h \<in> fst ` set done_rounds)"
    by (metis list.set_map)
  then show ?thesis
    using assms OpBlockFound
    by (auto simp: block_found_def rounds_of_def round_values_def round_value_def Let_def)
next
  case (OpShareAccepted ok d c)
  then show ?thesis
    using assms by (simp add: share_accepted_def rounds_of_def round_values_def round_value_def Let_def)
next
  case (OpFlush ok now)
  then show ?thesis using assms by (auto simp: flush_share_log_def rounds_of_def Let_def split: option.splits)
next
  case (OpTake i now w)
  then show ?thesis using assms by (auto simp: PoolStats_take_share_history_def rounds_of_def split: option.splits)
next
  case (OpSaveSetting ok k v)
  then show ?thesis using assms by (auto simp: save_setting_def rounds_of_def split: option.splits prod.splits)
next
  case (OpProtocol w pr)
  then show ?thesis using assms by (simp add: set_worker_protocol_def) (simp add: rounds_of_def)
next
  case (OpSubmit now w)
  then show ?thesis using assms by (simp add: mark_worker_submit_def) (simp add: rounds_of_def)
next
  case (OpOnline now w v)
  then show ?thesis using assms by (auto simp: mark_worker_online_def split: option.splits) (simp add: rounds_of_def)
next
  case (OpVardiff now w v)
  then show ?thesis
    using assms by (auto simp: update_worker_vardiff_def mark_worker_online_def split: option.splits) (simp add: rounds_of_def)
next
  case (OpWorkerAccepted ok now w d)
  have "rounds_of (p1\<lparr>st_worker_best_shares := a, st_store := b\<rparr>) = rounds_of p1"
    "rounds_of (p1\<lparr>st_worker_best_shares := a\<rparr>) = rounds_of p1" for p1 a b by (simp_all add: rounds_of_def)
  then show ?thesis using assms OpWorkerAccepted by (simp add: worker_share_accepted_def Let_def)
next
  case (OpPrune ar sql ok now)
  have "rounds_of (trim_best_shares ar sql ok q) = rounds_of q" for q
    by (simp add: trim_best_shares_def rounds_of_def Let_def)
  then show ?thesis using assms OpPrune by (simp add: prune_idle_workers_def Let_def)
qed (use assms in \<open>simp_all add: mark_worker_offline_def worker_share_rejected_def,
    simp_all add: rounds_of_def miner_connected_def miner_disconnected_def share_rejected_def update_height_def network_setters
      update_worker_hashrate_def reset_best_hashrate_def stash_share_history_def log_share_def record_hashrate_snapshot_def
      persist_round_state_def Let_def\<close>)

interpretation rounds: simulation "\<lambda>p st. rounds_of p = round_values st" stats_step round_step
proof unfold_locales
  fix p st op
  assume "rounds_of p = round_values st"
  then show "rounds_of (stats_step op p) = round_values (round_step op st)"
    using round_step_refines [of p "fst st" "snd st" op] by simp
qed

section \<open>Eviction\<close>

lemma forget_workers_states:
  "map_of (st_worker_states (fold forget_worker ws p)) = (map_of (st_worker_states p)) |` (- set ws)"
proof (induction ws arbitrary: p)
  case (Cons w ws)
  have "map_of (st_worker_states (forget_worker w p)) = (map_of (st_worker_states p)) |` (- {w})"
    by (rule ext) (simp add: forget_worker_def delete_conv' restrict_map_def)
  then show ?case using Cons.IH [of "forget_worker w p"] by (simp add: restrict_map_def fun_eq_iff)
qed (simp add: restrict_map_def)

text \<open>The rows of the best shares that survive a trim.\<close>

lemma trim_keeps_best:
  fixes n :: nat and m :: "(string \<times> int) list" and ar :: arrangement
  assumes ar: "arrange_ok ar" and d: "distinct (map fst m)"
  defines "kept \<equiv> filter (\<lambda>e. fst e \<notin> set (map fst (drop n (ar m)))) m"
  shows "length kept = min n (length m)" and "e \<in> set kept \<Longrightarrow> f \<in> set m - set kept \<Longrightarrow> snd f \<le> snd e"
proof -
  have ms: "mset (ar m) = mset m" and so: "sorted_wrt (\<lambda>a b. snd a \<ge> snd b) (ar m)"
    using ar by (auto simp: arrange_ok_def)
  have set_eq: "set (ar m) = set m" using ms by (metis set_mset_mset)
  have da: "distinct (map fst (ar m))"
    using d mset_eq_imp_distinct_iff [of "map fst (ar m)" "map fst m"] ms by simp
  have split: "ar m = take n (ar m) @ drop n (ar m)" by simp
  have not: "fst e \<notin> set (map fst (drop n (ar m))) \<longleftrightarrow> e \<in> set (take n (ar m))" if "e \<in> set m" for e
  proof -
    have "e \<in> set (take n (ar m)) \<or> e \<in> set (drop n (ar m))"
      using that set_eq split by (metis Un_iff set_append)
    moreover have "set (map fst (take n (ar m))) \<inter> set (map fst (drop n (ar m))) = {}"
      using da split by (metis distinct_append map_append)
    ultimately show ?thesis by auto
  qed
  have "set kept = set (take n (ar m))"
    using not set_eq by (auto simp: kept_def dest: in_set_takeD)
  moreover have "distinct kept" "distinct (take n (ar m))"
    using d da by (auto simp: kept_def distinct_map)
  ultimately have "length kept = length (take n (ar m))" by (metis distinct_card)
  then show "length kept = min n (length m)" using ms by (metis length_take mset_eq_length min.commute)
  have best: "snd f \<le> snd e" if "e \<in> set kept" "f \<in> set m - set kept" for e f
  proof -
    have e: "e \<in> set (take n (ar m))" using that(1) \<open>set kept = _\<close> by simp
    have "f \<in> set (drop n (ar m))"
      using that(2) \<open>set kept = _\<close> set_eq split by (metis Diff_iff Un_iff set_append)
    moreover have "\<forall>x \<in> set (take n (ar m)). \<forall>y \<in> set (drop n (ar m)). snd y \<le> snd x"
      using so split by (metis sorted_wrt_append)
    ultimately show ?thesis using e by blast
  qed
  show "e \<in> set kept \<Longrightarrow> f \<in> set m - set kept \<Longrightarrow> snd f \<le> snd e" by (rule best)
qed

section \<open>What the database keeps\<close>

definition block_row_of :: "found_block \<Rightarrow> block_row" where
  "block_row_of b = \<lparr>br_hash = fb_hash b, br_height = db_u64 (fb_height b), br_worker = fb_worker b,
     br_ts = db_u64 (fb_ts b), br_round_work = fb_round_work b, br_network_difficulty = fb_network_difficulty b\<rparr>"

text \<open>The primary keys of the tables.\<close>

definition tables_keyed :: "stats_store \<Rightarrow> bool" where
  "tables_keyed s \<longleftrightarrow> distinct (map fst (db_worker_best_shares s)) \<and> distinct (map br_hash (db_found_blocks s))"

definition tables_ok :: "stats_store \<Rightarrow> bool" where
  "tables_ok s \<longleftrightarrow> 0 \<le> db_best_share_difficulty s \<and> db_best_share_difficulty s < 2 ^ 63
     \<and> 0 \<le> db_round_start_ts s
     \<and> (\<forall>row \<in> set (db_worker_best_shares s). 0 \<le> snd row)
     \<and> (\<forall>row \<in> set (db_found_blocks s). 0 \<le> br_height row \<and> br_height row < 2 ^ 63 \<and> 0 \<le> br_ts row \<and> br_ts row < 2 ^ 63)
     \<and> tables_keyed s"

text \<open>The database agrees with the object: the best share and the blocks found.\<close>

definition persisted :: "pool_stats \<Rightarrow> bool" where
  "persisted p \<longleftrightarrow> (case st_store p of
      None \<Rightarrow> False
    | Some s \<Rightarrow> tables_ok s \<and> db_best_share_difficulty s = db_u64 (st_best_share_difficulty p)
        \<and> mset (db_found_blocks s) = mset (map block_row_of (st_found_blocks p)))"

fun writes_ok :: "stats_op \<Rightarrow> bool" where
  "writes_ok (OpShareAccepted ok d c) = ok"
| "writes_ok (OpBlockFound ok1 ok2 now w h height) = (ok1 \<and> ok2)"
| "writes_ok op = True"

lemma db_u64_range: "0 \<le> db_u64 v" "db_u64 v < 2 ^ 63"
  by (simp_all add: db_u64_def)

lemma get_db_u64: "0 \<le> v \<Longrightarrow> v < 2 ^ 63 \<Longrightarrow> \<exists>u. get_u64 v = Some u \<and> db_u64 u = v"
proof -
  assume v: "0 \<le> v" "v < 2 ^ 63"
  then obtain n where n: "v = int n" by (metis nonneg_int_cases)
  have "unat (of_nat n :: u64) = n" using v n by (simp only: unat_of_nat) simp
  then have "int (unat (of_int v :: u64)) = v" using n by simp
  then show ?thesis using v by (simp add: get_u64_def db_u64_def)
qed

lemma db_u64_mono: "a \<le> b \<Longrightarrow> db_u64 a \<le> db_u64 b"
  by (simp add: db_u64_def word_le_nat_alt)

lemma persisted_frame:
  assumes "st_best_share_difficulty p' = st_best_share_difficulty p" and "st_found_blocks p' = st_found_blocks p"
    and "st_store p' = map_option f (st_store p)"
    and "\<And>s. tables_ok s \<Longrightarrow> tables_ok (f s) \<and> db_best_share_difficulty (f s) = db_best_share_difficulty s
           \<and> db_found_blocks (f s) = db_found_blocks s"
    and "persisted p"
  shows "persisted p'"
  using assms by (auto simp: persisted_def split: option.splits)

lemma tables_ok_frame [simp]:
  "tables_ok (s\<lparr>db_write_error := e\<rparr>) = tables_ok s"
  "tables_ok (s\<lparr>db_share_log := l\<rparr>) = tables_ok s"
  "tables_ok (s\<lparr>db_settings := x\<rparr>) = tables_ok s"
  "tables_ok (s\<lparr>db_hashrate_history := h\<rparr>) = tables_ok s"
  "tables_ok (s\<lparr>db_best_hashrate_hps := r\<rparr>) = tables_ok s"
  "tables_ok (s\<lparr>db_round_work := r\<rparr>) = tables_ok s"
  by (simp_all add: tables_ok_def tables_keyed_def)

lemmas store_defs = set_round_def StatsStore_succeeded_def StatsStore_failed_def append_shares_def set_setting_def
  store_hashrate_snapshot_def force_best_hashrate_hps_def set_best_hashrate_hps_def

lemma set_round_tables: "tables_ok s \<Longrightarrow> tables_ok (set_round ok r t s)"
  by (auto simp: tables_ok_def tables_keyed_def set_round_def StatsStore_succeeded_def StatsStore_failed_def db_u64_range)

lemma set_round_rest [simp]:
  "db_best_share_difficulty (set_round ok r t s) = db_best_share_difficulty s"
  "db_found_blocks (set_round ok r t s) = db_found_blocks s"
  by (simp_all add: set_round_def StatsStore_succeeded_def StatsStore_failed_def)

lemma set_best_tables: "tables_ok s \<Longrightarrow> tables_ok (s\<lparr>db_best_share_difficulty := db_u64 d\<rparr>)"
  unfolding tables_ok_def tables_keyed_def using db_u64_range by auto

lemma share_accepted_persists: "persisted p \<Longrightarrow> persisted (share_accepted True d c p)"
  using db_u64_mono [of "st_best_share_difficulty p" d]
  by (auto simp: persisted_def share_accepted_def set_best_share_difficulty_def set_best_tables Let_def
      split: option.splits)

lemma block_found_persists: "persisted p \<Longrightarrow> persisted (block_found True True now w h height p)"
proof (cases "h \<in> set (map fb_hash (st_found_blocks p))")
  case False
  assume ps: "persisted p"
  then obtain s where s: "st_store p = Some s" "tables_ok s" "db_best_share_difficulty s = db_u64 (st_best_share_difficulty p)"
    "mset (db_found_blocks s) = mset (map block_row_of (st_found_blocks p))"
    by (auto simp: persisted_def split: option.splits)
  have "set (map br_hash (db_found_blocks s)) = set (map fb_hash (st_found_blocks p))"
    using arg_cong [OF s(4), of "\<lambda>x. br_hash ` set_mset x"] by (simp add: image_image block_row_of_def)
  then have new: "h \<notin> set (map br_hash (db_found_blocks s))" using False by simp
  define b where "b = \<lparr>fb_height = height, fb_hash = h, fb_worker = w, fb_ts = now,
     fb_round_work = st_round_work p, fb_network_difficulty = st_network_difficulty p\<rparr>"
  have ins: "insert_found_block True b s = s\<lparr>db_found_blocks := db_found_blocks s @ [block_row_of b]\<rparr>"
    using new by (simp add: insert_found_block_def b_def block_row_of_def)
  have row: "br_hash (block_row_of b) = h" "0 \<le> br_height (block_row_of b)" "br_height (block_row_of b) < 2 ^ 63"
    "0 \<le> br_ts (block_row_of b)" "br_ts (block_row_of b) < 2 ^ 63"
    unfolding block_row_of_def using db_u64_range by (simp_all add: b_def)
  have t: "tables_ok (set_round True (Fin 0) now (insert_found_block True b s))"
    using s(2) new row by (intro set_round_tables) (auto simp: ins tables_ok_def tables_keyed_def)
  have "block_found True True now w h height p = p\<lparr>st_round_work := Fin 0, st_blocks_found := st_blocks_found p + 1,
       st_last_block_worker := Some w, st_last_block_hash := Some h, st_last_block_ts := now,
       st_round_start_ts := now, st_found_blocks := st_found_blocks p @ [b],
       st_store := Some (set_round True (Fin 0) now (insert_found_block True b s))\<rparr>"
    using False s(1) by (simp add: block_found_def Let_def b_def)
  then show ?thesis using s(3,4) t by (simp add: persisted_def ins)
next
  case True
  assume "persisted p"
  then show ?thesis using True by (simp add: block_found_def)
qed

lemma set_worker_best_share_tables:
  "tables_ok s \<Longrightarrow> tables_ok (set_worker_best_share ok w d s)
     \<and> db_best_share_difficulty (set_worker_best_share ok w d s) = db_best_share_difficulty s
     \<and> db_found_blocks (set_worker_best_share ok w d s) = db_found_blocks s"
proof -
  assume ok: "tables_ok s"
  have "set (AList.update w x m) \<subseteq> insert (w, x) (set m)" for x :: int and m
    by (induction m) auto
  then have "tables_ok (s\<lparr>db_worker_best_shares := AList.update w (db_u64 d) (db_worker_best_shares s)\<rparr>)"
    using ok db_u64_range(1) [of d] by (fastforce simp: tables_ok_def tables_keyed_def AList.distinct_update)
  then show ?thesis
    using ok by (auto simp: set_worker_best_share_def StatsStore_failed_def split: option.splits)
qed

lemma prune_tables:
  "tables_ok s \<Longrightarrow> tables_ok (prune_worker_best_shares ar ok n s)
     \<and> db_best_share_difficulty (prune_worker_best_shares ar ok n s) = db_best_share_difficulty s
     \<and> db_found_blocks (prune_worker_best_shares ar ok n s) = db_found_blocks s"
  by (auto simp: prune_worker_best_shares_def tables_ok_def tables_keyed_def StatsStore_failed_def intro: distinct_keys_filter)

lemma stats_step_persists:
  assumes ps: "persisted p" and w: "writes_ok op"
  shows "persisted (stats_step op p)"
proof (cases op)
  case (OpWorkerAccepted ok now w d)
  let ?p1 = "with_worker w (\<lambda>ws. ws\<lparr>ws_shares_accepted := ws_shares_accepted ws + 1,
            ws_reject_window := record_accepted now (ws_reject_window ws),
            ws_best_share_difficulty := (if d > ws_best_share_difficulty ws then d
                                         else ws_best_share_difficulty ws)\<rparr>) p"
  let ?f = "if d > lookup_or 0 (st_worker_best_shares ?p1) w then set_worker_best_share ok w d else id"
  have "persisted (worker_share_accepted ok now w d p)"
    by (rule persisted_frame [where f = ?f, OF _ _ _ _ ps])
      (auto simp: worker_share_accepted_def Let_def set_worker_best_share_tables option.map_id)
  then show ?thesis using OpWorkerAccepted by simp
next
  case (OpPrune ar sql ok now)
  let ?f = "if length (st_worker_best_shares p) > MAX_WORKER_BEST_SHARES
     then prune_worker_best_shares sql ok MAX_WORKER_BEST_SHARES else id"
  have "persisted (prune_idle_workers ar sql ok now p)"
    by (rule persisted_frame [where f = ?f, OF _ _ _ _ ps])
      (auto simp: prune_idle_workers_def trim_best_shares_def Let_def prune_tables option.map_id)
  then show ?thesis using OpPrune by simp
next
  case (OpFlush ok now)
  have "persisted (flush_share_log ok now p)"
    using ps by (auto simp: flush_share_log_def persisted_def store_defs Let_def split: option.splits)
  then show ?thesis using OpFlush by simp
next
  case (OpTake i now w)
  then show ?thesis using ps by (auto simp: PoolStats_take_share_history_def persisted_def split: option.splits)
next
  case (OpSaveSetting ok k v)
  then show ?thesis using ps by (auto simp: save_setting_def persisted_def store_defs split: option.splits prod.splits if_splits)
next
  case (OpSnapshot ok1 ok2 ok3 now)
  have "persisted (record_hashrate_snapshot ok1 ok2 ok3 now p)"
    using ps
    by (auto simp: record_hashrate_snapshot_def persist_round_state_def persisted_def store_hashrate_snapshot_def
        StatsStore_succeeded_def StatsStore_failed_def Let_def set_round_tables split: option.splits)
  then show ?thesis using OpSnapshot by simp
next
  case (OpOnline now w v)
  then show ?thesis
    using ps by (auto simp: mark_worker_online_def persisted_def split: option.splits)
next
  case (OpVardiff now w v)
  then show ?thesis
    using ps by (auto simp: update_worker_vardiff_def mark_worker_online_def persisted_def split: option.splits)
next
  case (OpHashrate ok now w a b c d)
  have "tables_ok (set_best_hashrate_hps ok t s) = tables_ok s"
    "db_best_share_difficulty (set_best_hashrate_hps ok t s) = db_best_share_difficulty s"
    "db_found_blocks (set_best_hashrate_hps ok t s) = db_found_blocks s" for t s
    by (simp_all add: set_best_hashrate_hps_def StatsStore_failed_def)
  then show ?thesis
    using ps OpHashrate by (auto simp: update_worker_hashrate_def persisted_def Let_def split: option.splits)
qed (use ps w share_accepted_persists block_found_persists in
    \<open>auto simp: mark_worker_offline_def worker_share_rejected_def miner_connected_def miner_disconnected_def share_rejected_def
      update_height_def network_setters reset_best_hashrate_def stash_share_history_def log_share_def set_worker_protocol_def
      mark_worker_submit_def persisted_def force_best_hashrate_hps_def StatsStore_failed_def split: option.splits\<close>)

section \<open>Opening\<close>

lemma read_all_some: "read_all f xs = Some ys \<Longrightarrow> list_all2 (\<lambda>x y. f x = Some y) xs ys"
  by (induction xs arbitrary: ys) (auto split: option.splits)

lemma read_all_total:
  assumes "\<And>x. x \<in> set xs \<Longrightarrow> \<exists>y. f x = Some y"
  shows "\<exists>ys. read_all f xs = Some ys"
  using assms
proof (induction xs)
  case (Cons x xs)
  obtain y where "f x = Some y" using Cons.prems [of x] by auto
  moreover obtain ys where "read_all f xs = Some ys" using Cons.IH Cons.prems by auto
  ultimately show ?case by simp
qed simp

lemma read_all_map:
  assumes "read_all f xs = Some ys" and "\<And>x y. x \<in> set xs \<Longrightarrow> f x = Some y \<Longrightarrow> g y = h x"
  shows "map g ys = map h xs"
  using assms by (induction xs arbitrary: ys) (auto split: option.splits)

lemma read_block_row:
  assumes "0 \<le> br_height r" "br_height r < 2 ^ 63" "0 \<le> br_ts r" "br_ts r < 2 ^ 63"
  obtains b where "read_block r = Some b" and "block_row_of b = r"
proof -
  obtain h where h: "get_u64 (br_height r) = Some h" "db_u64 h = br_height r" using get_db_u64 assms(1,2) by blast
  obtain t where t: "get_u64 (br_ts r) = Some t" "db_u64 t = br_ts r" using get_db_u64 assms(3,4) by blast
  show thesis by (rule that) (use h t in \<open>simp add: read_block_def, simp add: block_row_of_def\<close>)
qed

lemma load_values_ok:
  assumes "tables_ok s"
  obtains l where "load_values s = Some l"
    and "db_u64 (lo_best_share_difficulty l) = db_best_share_difficulty s"
    and "mset (map block_row_of (lo_found_blocks l)) = mset (db_found_blocks s)"
proof -
  obtain best where best: "get_u64 (db_best_share_difficulty s) = Some best" "db_u64 best = db_best_share_difficulty s"
    using assms get_db_u64 unfolding tables_ok_def by blast
  obtain start where start: "get_u64 (db_round_start_ts s) = Some start"
    using assms by (auto simp: tables_ok_def get_u64_def)
  have "\<exists>ys. read_all (\<lambda>(w, d). map_option (Pair w) (get_u64 d)) (db_worker_best_shares s) = Some ys"
    by (rule read_all_total) (use assms in \<open>auto simp: tables_ok_def get_u64_def\<close>)
  then obtain ws where ws: "read_all (\<lambda>(w, d). map_option (Pair w) (get_u64 d)) (db_worker_best_shares s) = Some ws" ..
  let ?rows = "sort_key br_ts (sort_key br_height (db_found_blocks s))"
  have row: "\<exists>b. read_block r = Some b \<and> block_row_of b = r" if "r \<in> set ?rows" for r
    using that assms by (auto simp: tables_ok_def intro: read_block_row [of r])
  then have "\<exists>bs. read_all read_block ?rows = Some bs" by (intro read_all_total) blast
  then obtain bs where bs: "read_all read_block ?rows = Some bs" ..
  have "map block_row_of bs = map (\<lambda>r. r) ?rows"
    by (rule read_all_map [OF bs]) (use row in fastforce)
  then have "mset (map block_row_of bs) = mset (db_found_blocks s)" by simp
  with best start ws bs show thesis by (intro that) (simp add: load_values_def, simp_all)
qed

lemma loaded_keys:
  assumes "load_values s = Some l" and "tables_keyed s"
  shows "distinct (map fst (lo_worker_best_shares l))" and "distinct (map fb_hash (lo_found_blocks l))"
proof -
  let ?rows = "sort_key br_ts (sort_key br_height (db_found_blocks s))"
  have l: "read_all (\<lambda>(w, d). map_option (Pair w) (get_u64 d)) (db_worker_best_shares s) = Some (lo_worker_best_shares l)"
    "read_all read_block ?rows = Some (lo_found_blocks l)"
    using assms(1) by (auto simp: load_values_def split: option.splits)
  have "map fst (lo_worker_best_shares l) = map fst (db_worker_best_shares s)"
    by (rule read_all_map [OF l(1)]) auto
  then show "distinct (map fst (lo_worker_best_shares l))" using assms(2) by (simp add: tables_keyed_def)
  have "map fb_hash (lo_found_blocks l) = map br_hash ?rows"
    by (rule read_all_map [OF l(2)]) (auto simp: read_block_def split: option.splits)
  moreover have "mset (map br_hash ?rows) = mset (map br_hash (db_found_blocks s))" by simp
  ultimately show "distinct (map fb_hash (lo_found_blocks l))"
    using assms(2) mset_eq_imp_distinct_iff by (metis tables_keyed_def)
qed

lemma new_ok:
  assumes "\<And>s. opened = Opened s \<Longrightarrow> tables_keyed s"
  shows "stats_ok (PoolStats_new_with_store i now ok opened)"
proof -
  have "workers_ok []" by (simp add: workers_ok_def)
  then show ?thesis
    using assms loaded_keys
    by (auto simp: PoolStats_new_with_store_def Let_def stats_ok_def LoadedStats_default_def split: store_opened.splits option.splits)
qed

lemma StatsStore_open_tables: "tables_ok s \<Longrightarrow> tables_ok (StatsStore_open ar ok s)
     \<and> db_best_share_difficulty (StatsStore_open ar ok s) = db_best_share_difficulty s
     \<and> db_found_blocks (StatsStore_open ar ok s) = db_found_blocks s"
  using prune_tables [of "s\<lparr>db_write_error := None\<rparr>" ar ok MAX_WORKER_BEST_SHARES] by (simp add: StatsStore_open_def)

lemma reopened:
  fixes s :: stats_store and ar :: arrangement and i :: nat and now :: u64 and ok ok' :: bool
  assumes "tables_ok s"
  defines "q \<equiv> PoolStats_new_with_store i now ok (Opened (StatsStore_open ar ok' s))"
  shows "persisted q" and "st_store_open_error q = None"
    and "db_u64 (st_best_share_difficulty q) = db_best_share_difficulty s"
    and "mset (map block_row_of (st_found_blocks q)) = mset (db_found_blocks s)"
proof -
  note t = StatsStore_open_tables [OF assms(1), of ar ok']
  obtain l where l: "load_values (StatsStore_open ar ok' s) = Some l"
    "db_u64 (lo_best_share_difficulty l) = db_best_share_difficulty s"
    "mset (map block_row_of (lo_found_blocks l)) = mset (db_found_blocks s)"
    using load_values_ok [of "StatsStore_open ar ok' s"] t by metis
  show "st_store_open_error q = None" and "db_u64 (st_best_share_difficulty q) = db_best_share_difficulty s"
    and "mset (map block_row_of (st_found_blocks q)) = mset (db_found_blocks s)"
    using l by (simp_all add: q_def PoolStats_new_with_store_def Let_def)
  show "persisted q"
    using l t by (auto simp: q_def persisted_def PoolStats_new_with_store_def Let_def set_round_tables)
qed

lemma stats_ok_bound: "stats_ok p \<Longrightarrow> length (st_pending_shares p) \<le> MAX_PENDING_SHARES"
  by (simp add: stats_ok_def)

interpretation pool: bounded_store stats_ok stats_step "\<lambda>p. length (st_pending_shares p)" MAX_PENDING_SHARES
  by unfold_locales (auto dest: stats_step_ok simp: stats_ok_bound)

lemma stats_run_persists: "persisted p \<Longrightarrow> list_all writes_ok ops \<Longrightarrow> persisted (fold stats_step ops p)"
  by (induction ops arbitrary: p) (simp_all add: stats_step_persists)

lemma db_u64_inj: "unat a < 2 ^ 63 - 1 \<Longrightarrow> db_u64 a = db_u64 b \<Longrightarrow> a = b"
  by (simp add: db_u64_def min_def word_unat_eq_iff split: if_splits)

lemma trim_best_shares_kept:
  fixes p :: pool_stats and ar sql :: arrangement and ok :: bool
  assumes ar: "arrange_ok ar" and d: "distinct (map fst (st_worker_best_shares p))"
  defines "q \<equiv> trim_best_shares ar sql ok p"
  shows "length (st_worker_best_shares q) = min MAX_WORKER_BEST_SHARES (length (st_worker_best_shares p))"
    and "e \<in> set (st_worker_best_shares q) \<Longrightarrow> f \<in> set (st_worker_best_shares p) - set (st_worker_best_shares q)
      \<Longrightarrow> snd f \<le> snd e"
proof -
  let ?g = "\<lambda>(w :: string, d :: u64). (w, int (unat d))"
  let ?m = "st_worker_best_shares p"
  let ?dropped = "set (map fst (drop MAX_WORKER_BEST_SHARES (ar (map ?g ?m))))"
  let ?kept = "filter (\<lambda>e. fst e \<notin> ?dropped) ?m"
  have g: "fst (?g e) = fst e" "snd (?g e) = int (unat (snd e))" for e by (auto split: prod.splits)
  have map_kept: "map ?g ?kept = filter (\<lambda>e. fst e \<notin> ?dropped) (map ?g ?m)"
    by (simp only: filter_map comp_def g)
  have "distinct (map fst (map ?g ?m))" using d by (simp add: comp_def case_prod_unfold)
  note best = trim_keeps_best [OF ar this, where n = MAX_WORKER_BEST_SHARES, folded map_kept]
  have q: "st_worker_best_shares q = (if length ?m > MAX_WORKER_BEST_SHARES then ?kept else ?m)"
    by (simp add: q_def trim_best_shares_def Let_def)
  show "length (st_worker_best_shares q) = min MAX_WORKER_BEST_SHARES (length ?m)"
    using best(1) q by auto
  show "snd f \<le> snd e" if "e \<in> set (st_worker_best_shares q)" "f \<in> set ?m - set (st_worker_best_shares q)"
  proof (cases "length ?m > MAX_WORKER_BEST_SHARES")
    case True
    have "inj ?g" by (auto simp: inj_def word_unat_eq_iff)
    then have "?g e \<in> set (map ?g ?kept)" "?g f \<in> set (map ?g ?m) - set (map ?g ?kept)"
      using that True q by (auto simp: inj_image_mem_iff simp del: filter_map)
    then have "snd (?g f) \<le> snd (?g e)" by (rule best(2))
    then show ?thesis by (simp add: g word_le_nat_alt)
  qed (use that q in simp)
qed

section \<open>Properties\<close>

text \<open>
  C27: whatever calls the sessions, the engine and the background tasks make, and in whatever
  order, the statistics stay well formed: a worker is online exactly while it has an open
  session, its entry carries its own name, no block is counted twice, the counter of blocks
  is the length of the list of blocks, and at most 65,536 shares wait to be written. The
  database only has to have its primary keys; a store that could not be opened is covered.
\<close>

theorem statistics_stay_well_formed:
  assumes "\<And>s. opened = Opened s \<Longrightarrow> tables_keyed s"
  shows "stats_ok (fold stats_step ops (PoolStats_new_with_store i now ok opened))"
  by (rule pool.run_inv [OF new_ok [OF assms]])

definition empty_tables :: stats_store where
  "empty_tables = \<lparr>db_best_share_difficulty = 0, db_best_hashrate_hps = Fin 0, db_round_work = Fin 0,
     db_round_start_ts = 0, db_worker_best_shares = [], db_found_blocks = [], db_share_log = [],
     db_hashrate_history = [], db_settings = [], db_write_error = None\<rparr>"

definition example_ops :: "stats_op list" where
  "example_ops = [OpMinerConnected, OpOnline 10 ''rig'' 64, OpShareAccepted True 70 64, OpLog 11 ''rig'' 64,
     OpBlockFound True True 12 ''rig'' ''0a'' 5, OpOnline 13 ''rig'' 64, OpOffline ''rig'',
     OpBlockFound True True 14 ''rig'' ''0a'' 5, OpBlockFound True True 15 ''rig'' ''0b'' 6]"

lemma empty_tables_ok: "tables_ok empty_tables"
  by (simp add: tables_ok_def tables_keyed_def empty_tables_def)

theorem statistics_witness:
  "stats_ok (fold stats_step example_ops (PoolStats_new_with_store 0 9 True (Opened empty_tables)))"
  by (rule statistics_stay_well_formed) (simp add: tables_keyed_def empty_tables_def)


lemma restart_facts:
  assumes "tables_ok tables" and "list_all writes_ok ops"
    and "p = fold stats_step ops (PoolStats_new_with_store i now ok (Opened (StatsStore_open ar ok' tables)))"
    and "q = PoolStats_new_with_store i' now' ok2 (Opened (StatsStore_open ar ok2' (the (st_store p))))"
  shows "st_store p \<noteq> None" and "st_store q \<noteq> None" and "st_store_open_error q = None"
    and "mset (map block_row_of (st_found_blocks q)) = mset (map block_row_of (st_found_blocks p))"
    and "st_blocks_found q = st_blocks_found p"
    and "unat (st_best_share_difficulty p) < 2 ^ 63 - 1 \<longrightarrow> st_best_share_difficulty q = st_best_share_difficulty p"
proof -
  have "persisted p" using assms(2,3) reopened(1) [OF assms(1)] by (simp add: stats_run_persists)
  then obtain s where s: "st_store p = Some s" "tables_ok s" "db_best_share_difficulty s = db_u64 (st_best_share_difficulty p)"
    "mset (db_found_blocks s) = mset (map block_row_of (st_found_blocks p))"
    by (auto simp: persisted_def split: option.splits)
  have q: "q = PoolStats_new_with_store i' now' ok2 (Opened (StatsStore_open ar ok2' s))" using assms(4) s(1) by simp
  note r = reopened [OF s(2), of i' now' ok2 ar ok2', folded q]
  show "st_store p \<noteq> None" using s(1) by simp
  show "st_store q \<noteq> None" using r(1) by (cases "st_store q") (simp_all add: persisted_def)
  show "st_store_open_error q = None" by (rule r(2))
  show same: "mset (map block_row_of (st_found_blocks q)) = mset (map block_row_of (st_found_blocks p))"
    using r(4) s(4) by simp
  have "tables_keyed (StatsStore_open ar ok' tables)"
    using StatsStore_open_tables [OF assms(1), of ar ok'] unfolding tables_ok_def by blast
  then have "stats_ok p" unfolding assms(3) by (intro pool.run_inv new_ok) simp
  have "tables_keyed (StatsStore_open ar ok2' s)"
    using StatsStore_open_tables [OF s(2), of ar ok2'] unfolding tables_ok_def by blast
  then have "stats_ok q" unfolding q by (intro new_ok) simp
  have "length (st_found_blocks q) = length (st_found_blocks p)"
    using same mset_eq_length length_map by metis
  then show "st_blocks_found q = st_blocks_found p"
    using \<open>stats_ok p\<close> \<open>stats_ok q\<close> by (simp add: stats_ok_def)
  show "unat (st_best_share_difficulty p) < 2 ^ 63 - 1 \<longrightarrow> st_best_share_difficulty q = st_best_share_difficulty p"
    using db_u64_inj [of "st_best_share_difficulty p" "st_best_share_difficulty q"] r(3) s(3) by simp
qed

text \<open>
  C25: nothing earned is lost by a restart. When the writes of accepted shares and found blocks
  succeed, then after any history the database opens again, and the new object has the same
  blocks (as the rows of the table hold them), the same number of them, and the same best
  share, exactly so below the range of the signed column.
\<close>

theorem statistics_survive_restart:
  assumes "tables_ok tables" and "list_all writes_ok ops"
    and "p = fold stats_step ops (PoolStats_new_with_store i now ok (Opened (StatsStore_open ar ok' tables)))"
    and "q = PoolStats_new_with_store i' now' ok2 (Opened (StatsStore_open ar ok2' (the (st_store p))))"
  shows "st_store p \<noteq> None \<and> st_store q \<noteq> None \<and> st_store_open_error q = None
    \<and> mset (map block_row_of (st_found_blocks q)) = mset (map block_row_of (st_found_blocks p))
    \<and> st_blocks_found q = st_blocks_found p
    \<and> (unat (st_best_share_difficulty p) < 2 ^ 63 - 1 \<longrightarrow> st_best_share_difficulty q = st_best_share_difficulty p)"
  using restart_facts [OF assms] by blast

theorem survive_restart_witness:
  "st_blocks_found (PoolStats_new_with_store 0 99 True (Opened (StatsStore_open (sort_key (\<lambda>e. - snd e)) True
      (the (st_store (fold stats_step example_ops
        (PoolStats_new_with_store 0 9 True (Opened (StatsStore_open (sort_key (\<lambda>e. - snd e)) True empty_tables)))))))))
    = st_blocks_found (fold stats_step example_ops
        (PoolStats_new_with_store 0 9 True (Opened (StatsStore_open (sort_key (\<lambda>e. - snd e)) True empty_tables))))"
proof -
  have "list_all writes_ok example_ops" by (simp add: example_ops_def)
  from statistics_survive_restart [OF empty_tables_ok this refl refl] show ?thesis by blast
qed

lemma prune_facts:
  assumes "arrange_ok ar" and "stats_ok p" and "q = prune_idle_workers ar sql ok now p"
  shows "map_of (st_worker_states q) w =
      (case map_of (st_worker_states p) w of
         None \<Rightarrow> None
       | Some ws \<Rightarrow> if idle_worker (sat_sub now IDLE_WORKER_EVICT_SECS) p (w, ws) then None else Some ws)"
    and "length (st_worker_best_shares q) = min 512 (length (st_worker_best_shares p))"
    and "kept \<in> set (st_worker_best_shares q)
      \<Longrightarrow> gone \<in> set (st_worker_best_shares p) - set (st_worker_best_shares q) \<Longrightarrow> snd gone \<le> snd kept"
proof -
  let ?idle = "idle_worker (sat_sub now IDLE_WORKER_EVICT_SECS) p"
  let ?stale = "map fst (filter ?idle (st_worker_states p))"
  let ?p1 = "fold forget_worker ?stale p"
  have q: "q = trim_best_shares ar sql ok ?p1" using assms(3) by (simp add: prune_idle_workers_def)
  have d: "distinct (map fst (st_worker_states p))" "distinct (map fst (st_worker_best_shares ?p1))"
    using assms(2) by (simp_all add: stats_ok_def workers_ok_def)
  have "st_worker_states q = st_worker_states ?p1" by (simp add: q trim_best_shares_def Let_def)
  then have m: "map_of (st_worker_states q) = map_of (st_worker_states p) |` (- set ?stale)"
    by (simp add: forget_workers_states)
  have "w \<in> set ?stale \<longleftrightarrow> ?idle (w, ws)" if "map_of (st_worker_states p) w = Some ws" for ws
  proof
    assume "w \<in> set ?stale"
    then obtain ws' where "(w, ws') \<in> set (st_worker_states p)" "?idle (w, ws')" by auto
    then show "?idle (w, ws)" using that d(1) by (metis map_of_is_SomeI option.inject)
  next
    assume "?idle (w, ws)"
    then show "w \<in> set ?stale" using map_of_SomeD [OF that] by force
  qed
  then show "map_of (st_worker_states q) w =
      (case map_of (st_worker_states p) w of None \<Rightarrow> None | Some ws \<Rightarrow> if ?idle (w, ws) then None else Some ws)"
    by (auto simp: m restrict_map_def simp del: set_map split: option.splits)
  note kept = trim_best_shares_kept [OF assms(1) d(2), where sql = sql and ok = ok, folded q]
  show "length (st_worker_best_shares q) = min 512 (length (st_worker_best_shares p))"
    using kept(1) by (simp add: MAX_WORKER_BEST_SHARES_def)
  show "kept \<in> set (st_worker_best_shares q)
      \<Longrightarrow> gone \<in> set (st_worker_best_shares p) - set (st_worker_best_shares q) \<Longrightarrow> snd gone \<le> snd kept"
    using kept(2) by simp
qed

text \<open>
  Pruning forgets exactly the workers that are offline and have been idle for a day, and
  of the best shares it keeps the 512 highest (all of them when there are fewer).
\<close>

theorem pruning_forgets_only_the_idle:
  assumes "arrange_ok ar" and "stats_ok p" and "q = prune_idle_workers ar sql ok now p"
  shows "map_of (st_worker_states q) w =
      (case map_of (st_worker_states p) w of
         None \<Rightarrow> None
       | Some ws \<Rightarrow> if idle_worker (sat_sub now IDLE_WORKER_EVICT_SECS) p (w, ws) then None else Some ws)
    \<and> length (st_worker_best_shares q) = min 512 (length (st_worker_best_shares p))
    \<and> (\<forall>kept \<in> set (st_worker_best_shares q). \<forall>gone \<in> set (st_worker_best_shares p) - set (st_worker_best_shares q).
          snd gone \<le> snd kept)"
  using prune_facts [OF assms] by blast

lemma arrange_example: "arrange_ok (sort_key (\<lambda>e. - snd e))"
proof -
  have "sorted (map (\<lambda>e. - snd e) (sort_key (\<lambda>e. - snd e) xs))" for xs :: "(string \<times> int) list" by simp
  then show ?thesis by (simp add: arrange_ok_def sorted_map)
qed

theorem pruning_witness:
  "map_of (st_worker_states (prune_idle_workers (sort_key (\<lambda>e. - snd e)) rev True 100000
      (fold stats_step [OpOnline 10 ''rig'' 64, OpOffline ''rig'']
        (PoolStats_new_with_store 0 9 True NoStore)))) ''rig'' = None"
proof -
  let ?ar = "sort_key (\<lambda>e :: string \<times> int. - snd e)"
  let ?p = "fold stats_step [OpOnline 10 ''rig'' 64, OpOffline ''rig''] (PoolStats_new_with_store 0 9 True NoStore)"
  have ok: "stats_ok ?p" by (intro pool.run_inv new_ok) simp
  have "map_option (\<lambda>ws. idle_worker 13600 ?p (''rig'', ws)) (map_of (st_worker_states ?p) ''rig'') = Some True"
    by (simp add: mark_worker_online_def mark_worker_offline_def with_worker_def PoolStats_new_with_store_def Let_def
        LoadedStats_default_def WorkerState_fresh_def idle_worker_def lookup_or_def)
  moreover have "sat_sub 100000 IDLE_WORKER_EVICT_SECS = (13600 :: u64)" by (simp add: sat_sub_def IDLE_WORKER_EVICT_SECS_def)
  ultimately show ?thesis
    using conjunct1 [OF pruning_forgets_only_the_idle [OF arrange_example ok refl, of rev True 100000 "''rig''"]]
    by (auto split: option.splits)
qed

section \<open>The snapshot\<close>

lemma snapshot_state_fields [simp]:
  "ws_worker (snapshot_state now p e) = fst e" "ws_online (snapshot_state now p e) = ws_online (snd e)"
  "ws_active_sessions (snapshot_state now p e) = ws_active_sessions (snd e)"
  "ws_best_share_difficulty (snapshot_state now p e)
     = lookup_or (ws_best_share_difficulty (snd e)) (st_worker_best_shares p) (fst e)"
  by (simp_all add: snapshot_state_def Let_def split: prod.split)

lemma snapshot_names:
  "map ws_worker (snapshot_workers now p) = map fst (st_worker_states p)
     @ filter (\<lambda>w. w \<notin> set (map fst (st_worker_states p))) (map fst (st_worker_best_shares p))"
  by (simp add: snapshot_workers_def comp_def case_prod_unfold WorkerState_fresh_def filter_map)

text \<open>
  The snapshot lists every worker the pool knows exactly once, those it only remembers by
  their best share included; it shows a worker online exactly when it has an open session, and
  with the best share on record for it.
\<close>

theorem snapshot_lists_every_worker_once:
  assumes "stats_ok p" and "sn = PoolStats_snapshot i now p"
  shows "distinct (map ws_worker (sn_worker_states sn))
    \<and> set (map ws_worker (sn_worker_states sn)) = fst ` set (st_worker_states p) \<union> fst ` set (st_worker_best_shares p)
    \<and> (\<forall>ws \<in> set (sn_worker_states sn). ws_online ws = worker_online p (ws_worker ws)
         \<and> ws_online ws = (0 < ws_active_sessions ws)
         \<and> ws_best_share_difficulty ws = lookup_or (ws_best_share_difficulty ws) (st_worker_best_shares p) (ws_worker ws))"
proof -
  have sn: "sn_worker_states sn = snapshot_workers now p" using assms(2) by (simp add: PoolStats_snapshot_def Let_def)
  have d: "distinct (map fst (st_worker_states p))" "distinct (map fst (st_worker_best_shares p))"
    and w: "\<And>w ws. map_of (st_worker_states p) w = Some ws \<Longrightarrow> ws_online ws \<longleftrightarrow> 0 < ws_active_sessions ws"
    using assms(1) by (auto simp: stats_ok_def workers_ok_def)
  have known: "map_of (st_worker_states p) (fst e) = Some (snd e)" if "e \<in> set (st_worker_states p)" for e
    using map_of_is_SomeI [OF d(1), of "fst e" "snd e"] that by simp
  have best: "map_of (st_worker_best_shares p) (fst e) = Some (snd e)" if "e \<in> set (st_worker_best_shares p)" for e
    using map_of_is_SomeI [OF d(2), of "fst e" "snd e"] that by simp
  have forgotten: "map_of (st_worker_states p) w = None" if "w \<notin> set (map fst (st_worker_states p))" for w
    using that by (simp add: map_of_eq_None_iff)
  have "ws_online ws = worker_online p (ws_worker ws) \<and> ws_online ws = (0 < ws_active_sessions ws)
      \<and> ws_best_share_difficulty ws = lookup_or (ws_best_share_difficulty ws) (st_worker_best_shares p) (ws_worker ws)"
    if "ws \<in> set (snapshot_workers now p)" for ws
  proof -
    consider e where "e \<in> set (st_worker_states p)" "ws = snapshot_state now p e"
      | e pr where "e \<in> set (st_worker_best_shares p)" "fst e \<notin> set (map fst (st_worker_states p))"
          "ws = WorkerState_fresh (fst e) pr False 0 (snd e) 0 0"
      using \<open>ws \<in> set (snapshot_workers now p)\<close> by (auto simp: snapshot_workers_def)
    then show ?thesis
    proof cases
      case (1 e)
      then show ?thesis
        using known [OF 1(1)] w [OF known [OF 1(1)]] by (auto simp: worker_online_def lookup_or_def split: option.splits)
    next
      case (2 e pr)
      then show ?thesis
        using best [OF 2(1)] forgotten [OF 2(2)] by (simp add: worker_online_def lookup_or_def WorkerState_fresh_def)
    qed
  qed
  moreover have "distinct (map ws_worker (snapshot_workers now p))" using d by (auto simp: snapshot_names)
  moreover have "set (map ws_worker (snapshot_workers now p))
      = fst ` set (st_worker_states p) \<union> fst ` set (st_worker_best_shares p)"
    by (simp only: snapshot_names set_append set_filter set_map) blast
  ultimately show ?thesis unfolding sn by blast
qed

theorem snapshot_witness:
  "distinct (map ws_worker (sn_worker_states (PoolStats_snapshot 0 20
     (fold stats_step example_ops (PoolStats_new_with_store 0 9 True NoStore)))))"
proof -
  have "stats_ok (fold stats_step example_ops (PoolStats_new_with_store 0 9 True NoStore))"
    by (intro pool.run_inv new_ok) simp
  from snapshot_lists_every_worker_once [OF this refl] show ?thesis by blast
qed

end
