(* ===== verification/Accounting.thy ===== *)
theory Accounting
  imports Loops Stats_History
begin

text \<open>
  The sessions of both protocols, as the loops of \<open>Loops\<close> run them, against the shared
  statistics. Each session emits its calls on the statistics in order (\<open>session_effect\<close>); here
  they are carried out one at a time, interleaved with those of all other sessions and with the
  background tasks. The question is whether the pool's picture of who is connected stays true: a
  worker counts one active session for every open session that carries its name, through changes
  of identity, disconnects, eviction of idle workers and vardiff updates.
\<close>

section \<open>The calls of an effect\<close>

text \<open>The outcome of database writes and the clocks, as the call reads them.\<close>

record stats_io =
  sio_ok1 :: bool
  sio_ok2 :: bool
  sio_now :: u64
  sio_instant :: nat

fun effect_ops :: "stats_io \<Rightarrow> session_effect \<Rightarrow> stats_op list" where
  "effect_ops io SShareRejected = [OpShareRejected]"
| "effect_ops io (SWorkerShareRejected w r) = [OpWorkerRejected (sio_now io) w r]"
| "effect_ops io (SMarkWorkerOffline w) = [OpOffline w]"
| "effect_ops io (SStashShareHistory w h) = [OpStash w h]"
| "effect_ops io (SMarkWorkerOnline w d) = [OpOnline (sio_now io) w d]"
| "effect_ops io (SSetWorkerProtocol w p) = [OpProtocol w p]"
| "effect_ops io (STakeShareHistory w) = [OpTake (sio_instant io) (sio_now io) w]"
| "effect_ops io (SLogShare w c) = [OpLog (sio_now io) w c]"
| "effect_ops io (SShareAccepted d c) = [OpShareAccepted (sio_ok1 io) d c]"
| "effect_ops io (SWorkerShareAccepted w d) = [OpWorkerAccepted (sio_ok1 io) (sio_now io) w d]"
| "effect_ops io (SMarkWorkerSubmit w) = [OpSubmit (sio_now io) w]"
| "effect_ops io (SBlockFound w h height) = [OpBlockFound (sio_ok1 io) (sio_ok2 io) (sio_now io) w h height]"
| "effect_ops io (SUpdateWorkerVardiff w d) = [OpVardiff (sio_now io) w d]"
| "effect_ops io _ = []"

definition apply_effect :: "stats_io \<Rightarrow> session_effect \<Rightarrow> pool_stats \<Rightarrow> pool_stats" where
  "apply_effect io eff p = fold stats_step (effect_ops io eff) p"

section \<open>Active sessions in the statistics\<close>

definition active :: "pool_stats \<Rightarrow> string \<Rightarrow> nat" where
  "active p w = (case map_of (st_worker_states p) w of None \<Rightarrow> 0 | Some ws \<Rightarrow> unat (ws_active_sessions ws))"

lemma active_frame:
  "st_worker_states p' = st_worker_states p \<Longrightarrow> active p' = active p"
  by (simp add: active_def fun_eq_iff)

lemma active_fields [simp]:
  "active (p\<lparr>st_store := s\<rparr>) = active p"
  "active (p\<lparr>st_pending_shares := ps\<rparr>) = active p"
  "active (p\<lparr>st_worker_best_shares := bs\<rparr>) = active p"
  "active (p\<lparr>st_worker_protocol := pr\<rparr>) = active p"
  "active (p\<lparr>st_worker_last_submit_ts := ts\<rparr>) = active p"
  "active (p\<lparr>st_worker_share_history := sh\<rparr>) = active p"
  by (simp_all add: active_def fun_eq_iff)

lemma active_update: "st_worker_states p' = AList.update w ws (st_worker_states p) \<Longrightarrow>
    active p' = (active p)(w := unat (ws_active_sessions ws))"
  by (auto simp: active_def fun_eq_iff update_conv')

lemma active_with_worker:
  assumes "\<And>ws. ws_active_sessions (f ws) = ws_active_sessions ws"
  shows "active (with_worker w f p) = active p"
proof (cases "map_of (st_worker_states p) w")
  case (Some ws)
  then have "active (with_worker w f p) = (active p)(w := unat (ws_active_sessions (f ws)))"
    by (intro active_update) (simp add: with_worker_def)
  then show ?thesis using Some assms by (auto simp: active_def fun_eq_iff)
qed (simp add: with_worker_def)

lemma active_online:
  assumes "active p w < 2 ^ 64 - 1"
  shows "active (mark_worker_online now w v p) = (active p)(w := Suc (active p w))"
proof (cases "map_of (st_worker_states p) w")
  case None
  then have "active (mark_worker_online now w v p) = (active p)(w := unat (1 :: u64))"
    by (subst active_update) (auto simp: mark_worker_online_def WorkerState_fresh_def)
  then show ?thesis using None by (simp add: active_def)
next
  case (Some ws)
  have "active (mark_worker_online now w v p) = (active p)(w := unat (sat_add (ws_active_sessions ws) 1))"
    using Some by (subst active_update) (auto simp: mark_worker_online_def with_worker_def)
  then show ?thesis using Some assms by (simp add: active_def unat_sat_add)
qed

lemma active_offline: "active (mark_worker_offline w p) = (active p)(w := active p w - 1)"
proof (cases "map_of (st_worker_states p) w")
  case None
  then show ?thesis by (auto simp: mark_worker_offline_def with_worker_def active_def fun_eq_iff)
next
  case (Some ws)
  let ?n = "ws_active_sessions ws"
  have "active (mark_worker_offline w p) = (active p)(w := unat (if ?n > 1 then ?n - 1 else 0))"
    using Some by (subst active_update) (auto simp: mark_worker_offline_def with_worker_def)
  moreover have "unat (if ?n > 1 then ?n - 1 else 0) = unat ?n - 1"
  proof (cases "?n > 1")
    case True
    then have "?n \<noteq> 0" by auto
    then show ?thesis using True by (simp add: unat_minus_one)
  next
    case False
    then have "unat ?n \<le> 1" by (simp add: word_less_nat_alt)
    then show ?thesis using False by simp
  qed
  ultimately show ?thesis using Some by (simp add: active_def)
qed

lemma active_vardiff: "0 < active p w \<Longrightarrow> active (update_worker_vardiff now w v p) = active p"
  by (auto simp: update_worker_vardiff_def active_def [of p w] split: option.splits intro!: active_with_worker)

lemma active_prune:
  assumes "stats_ok p"
  shows "active (prune_idle_workers ar sql ok now p) = active p"
proof -
  let ?stale = "map fst (filter (idle_worker (sat_sub now IDLE_WORKER_EVICT_SECS) p) (st_worker_states p))"
  have states: "st_worker_states (prune_idle_workers ar sql ok now p) = st_worker_states (fold forget_worker ?stale p)"
    by (simp add: prune_idle_workers_def trim_best_shares_def Let_def)
  have d: "distinct (map fst (st_worker_states p))"
    and off: "\<And>w ws. map_of (st_worker_states p) w = Some ws \<Longrightarrow> ws_online ws \<longleftrightarrow> 0 < ws_active_sessions ws"
    using assms by (auto simp: stats_ok_def workers_ok_def)
  have "active p w = 0" if "w \<in> set ?stale" for w
  proof -
    obtain ws where ws: "(w, ws) \<in> set (st_worker_states p)" "\<not> ws_online ws"
      using \<open>w \<in> set ?stale\<close> by (auto simp: idle_worker_def)
    then have "map_of (st_worker_states p) w = Some ws" using d by (simp add: map_of_is_SomeI)
    then show ?thesis using off [of w ws] ws(2) by (simp add: active_def word_neq_0_conv [symmetric])
  qed
  then show ?thesis
    unfolding active_def states forget_workers_states by (auto simp: restrict_map_def fun_eq_iff split: option.splits)
qed

text \<open>Every other call leaves the active sessions alone.\<close>

fun counts_sessions :: "stats_op \<Rightarrow> bool" where
  "counts_sessions (OpOnline _ _ _) = True"
| "counts_sessions (OpOffline _) = True"
| "counts_sessions (OpVardiff _ _ _) = True"
| "counts_sessions OpMinerConnected = True"
| "counts_sessions OpMinerDisconnected = True"
| "counts_sessions _ = False"

lemma active_other:
  assumes "\<not> counts_sessions op" and "stats_ok p"
  shows "active (stats_step op p) = active p"
proof (cases op)
  case (OpPrune ar sql ok now)
  then show ?thesis using active_prune [OF assms(2)] by simp
next
  case (OpWorkerAccepted ok now w d)
  have "active (with_worker w (\<lambda>ws. ws\<lparr>ws_shares_accepted := ws_shares_accepted ws + 1,
            ws_reject_window := record_accepted now (ws_reject_window ws),
            ws_best_share_difficulty := (if d > ws_best_share_difficulty ws then d
                                         else ws_best_share_difficulty ws)\<rparr>) p) = active p"
    by (rule active_with_worker) simp
  then show ?thesis using OpWorkerAccepted by (simp only: stats_step.simps worker_share_accepted_def Let_def split: if_split) simp
next
  case (OpWorkerRejected now w r)
  then show ?thesis by (simp only: stats_step.simps worker_share_rejected_def) (rule active_with_worker, simp add: Let_def)
next
  case (OpProtocol w pr)
  then show ?thesis by (simp add: set_worker_protocol_def active_with_worker)
next
  case (OpSubmit now w)
  then show ?thesis by (simp add: mark_worker_submit_def active_with_worker)
next
  case (OpFlush ok now)
  then show ?thesis by (simp add: flush_share_log_def Let_def split: option.split)
next
  case (OpTake i now w)
  then show ?thesis by (simp add: PoolStats_take_share_history_def split: option.split)
next
  case (OpSaveSetting ok k v)
  then show ?thesis by (simp add: save_setting_def split: option.split prod.split)
next
  case (OpShareAccepted ok d c)
  then show ?thesis by (simp add: share_accepted_def Let_def active_def fun_eq_iff)
next
  case (OpBlockFound ok1 ok2 now w h height)
  then show ?thesis by (simp add: block_found_def Let_def active_def fun_eq_iff)
next
  case (OpUpdateHeight h v n)
  then show ?thesis by (simp add: update_height_def Let_def active_def fun_eq_iff)
next
  case (OpHashrate ok now w a b c d)
  then show ?thesis by (simp add: update_worker_hashrate_def Let_def active_def fun_eq_iff)
next
  case (OpResetHashrate ok)
  then show ?thesis by (simp add: reset_best_hashrate_def Let_def active_def fun_eq_iff)
next
  case (OpSnapshot ok1 ok2 ok3 now)
  then show ?thesis by (simp add: record_hashrate_snapshot_def persist_round_state_def)
qed (use assms(1) in \<open>simp_all add: share_rejected_def stash_share_history_def log_share_def network_setters
    active_def fun_eq_iff\<close>)

section \<open>The identity a session reports\<close>

text \<open>
  The calls of an effect sequence that say who is there: \<open>(True, w)\<close> for a session that joins
  worker \<open>w\<close>, \<open>(False, w)\<close> for one that leaves it; and the workers whose difficulty is reported.
\<close>

fun mark :: "session_effect \<Rightarrow> (bool \<times> string) list" where
  "mark (SMarkWorkerOnline w _) = [(True, w)]"
| "mark (SMarkWorkerOffline w) = [(False, w)]"
| "mark _ = []"

fun retarget_mark :: "session_effect \<Rightarrow> string list" where
  "retarget_mark (SUpdateWorkerVardiff w _) = [w]"
| "retarget_mark _ = []"

definition marks :: "session_effect list \<Rightarrow> (bool \<times> string) list" where
  "marks effs = concat (map mark effs)"

definition retargeted :: "session_effect list \<Rightarrow> string list" where
  "retargeted effs = concat (map retarget_mark effs)"

lemma marks_simps [simp]: "marks [] = []" "marks (e # effs) = mark e @ marks effs" "marks (a @ b) = marks a @ marks b"
  by (simp_all add: marks_def)

lemma retargeted_simps [simp]:
  "retargeted [] = []" "retargeted (e # effs) = retarget_mark e @ retargeted effs"
  "retargeted (a @ b) = retargeted a @ retargeted b"
  by (simp_all add: retargeted_def)

lemma spawned_marks [simp]: "marks (map Spawned ts) = []" "retargeted (map Spawned ts) = []"
  by (induction ts) simp_all

fun leave :: "string option \<Rightarrow> (bool \<times> string) list" where
  "leave None = []" | "leave (Some w) = [(False, w)]"

fun join :: "string option \<Rightarrow> (bool \<times> string) list" where
  "join None = []" | "join (Some w) = [(True, w)]"

definition marks_fit :: "string option \<Rightarrow> string option \<Rightarrow> session_effect list \<Rightarrow> bool" where
  "marks_fit a b effs \<longleftrightarrow> marks effs = (if a = b then [] else leave a @ join b)
     \<and> (\<forall>w \<in> set (retargeted effs). a = Some w \<and> b = Some w)"

lemma marks_fit_same: "marks_fit a a effs \<longleftrightarrow> marks effs = [] \<and> (\<forall>w \<in> set (retargeted effs). a = Some w)"
  by (simp add: marks_fit_def)

section \<open>Stratum V1\<close>

lemma settle_share_marks:
  "settle_share C io i entry verdict e s = (res, s', e', effs) \<Longrightarrow>
     marks effs = [] \<and> retargeted effs = [] \<and> se_worker s' = se_worker s"
  by (auto simp: settle_share_def Let_def split_beta credit_share_def count_invalid_def
      split: outcome.splits share_result.splits if_splits)

lemma handle_submit_marks:
  assumes "handle_submit C io req params e s = (res, s', e', effs)"
  shows "marks effs = [] \<and> retargeted effs = [] \<and> se_worker s' = se_worker s"
proof -
  have "marks effs = [] \<and> retargeted effs = [] \<and> se_worker s' = se_worker s"
    if "settle_share C io i entry verdict e (s\<lparr>se_share_set := t\<rparr>) = (res, s', e', effs)" for i entry verdict t
    using settle_share_marks [OF that] by simp
  then show ?thesis
    using assms by (auto simp: handle_submit_def Let_def split_beta count_invalid_def split: if_splits option.splits)
qed

lemma handle_authorize_marks:
  assumes "handle_authorize C io req params e s = (res, s', effs)"
  shows "marks_fit (se_worker s) (se_worker s') effs"
  using assms
  by (auto simp: handle_authorize_def switch_worker_def marks_fit_def Let_def split_beta
      split: outcome.splits if_splits option.splits)

lemma dispatch_marks:
  assumes "dispatch C io req msg e s = Ok (res, s', e', effs)"
  shows "marks_fit (se_worker s) (se_worker s') effs"
proof (cases msg)
  case (Authorize params)
  then have "handle_authorize C io req params e s = (res, s', effs)"
    using assms by (auto simp: dispatch_def split_beta prod_eq_iff)
  then show ?thesis by (rule handle_authorize_marks)
next
  case (Submit params)
  then show ?thesis using assms handle_submit_marks [of C io req params e s] by (auto simp: dispatch_def marks_fit_same)
qed (use assms in \<open>auto simp: dispatch_def split_beta handle_configure_def handle_subscribe_def
    handle_suggest_difficulty_def Let_def marks_fit_same split: if_splits option.splits\<close>)

lemma handle_line_marks:
  assumes "handle_line C parse io line e s = Ok (res, s', e', effs)"
  shows "marks_fit (se_worker s) (se_worker s') effs"
  using assms dispatch_marks [of C io _ _ e "s\<lparr>se_guard := _\<rparr>" res s' e' effs]
  by (auto simp: handle_line_def Let_def split_beta marks_fit_same split: if_splits option.splits outcome.splits)

lemma on_retarget_marks:
  "on_retarget_timer now1 now2 now3 s = Ok (ms, s', effs) \<Longrightarrow> marks_fit (se_worker s) (se_worker s') effs"
  by (cases "check_retarget now1 now2 now3 (se_vardiff s)"; cases "se_worker s")
    (auto simp: on_retarget_timer_def Let_def split_beta marks_fit_same split: if_splits option.splits)

lemma on_job_broadcast_marks: "on_job_broadcast C b s = (ms, s') \<Longrightarrow> se_worker s' = se_worker s"
  by (auto simp: on_job_broadcast_def Let_def split: if_splits)

lemma close_marks: "marks (close_session now s) = leave (se_worker s) \<and> retargeted (close_session now s) = []"
  by (simp add: close_session_def split: option.split)

section \<open>Stratum V2\<close>

lemma sv2_settle_marks:
  "sv2_settle_share C io seq entry verdict e s = (flw, s', e', sent, effs) \<Longrightarrow>
     marks effs = [] \<and> retargeted effs = [] \<and> s2_worker s' = s2_worker s"
  by (auto simp: sv2_settle_share_def Let_def split_beta sv2_credit_def sv2_count_invalid_def
      split: outcome.splits share_result.splits if_splits)

lemma sv2_submit_marks:
  assumes "sv2_handle_submit C K io payload e s = (flw, s', e', sent, effs)"
  shows "marks effs = [] \<and> retargeted effs = [] \<and> s2_worker s' = s2_worker s"
proof -
  have "marks effs = [] \<and> retargeted effs = [] \<and> s2_worker s' = s2_worker s"
    if "sv2_settle_share C io q entry verdict e (s\<lparr>s2_share_set := t\<rparr>) = (flw, s', e', sent, effs)" for q entry verdict t
    using sv2_settle_marks [OF that] by simp
  then show ?thesis
    using assms
    by (auto simp: sv2_handle_submit_def Let_def split_beta sv2_count_invalid_def split: if_splits option.splits)
qed

lemma send_job_worker: "s2_worker (fst (snd (send_job C w k job future s))) = s2_worker s"
  using send_job_fields [of C w k job future s] by (simp add: prod_eq_iff)

lemma announce_worker: "s2_worker (fst (snd (announce_channel C w i target s))) = s2_worker s"
  by (simp add: announce_channel_def Let_def split_beta send_job_worker split: option.split)

lemma grant_worker: "grant_channel gl op s = Ok (target, s', gl') \<Longrightarrow> s2_worker s' = Some (oe_user_identity op)"
  by (auto simp: grant_channel_def Let_def split_beta split: if_splits)

lemma open_channel_marks:
  assumes "open_channel C io op gl s = Ok ((flw, s', sent, effs), gl')"
  shows "marks_fit (s2_worker s) (s2_worker s') effs"
  using assms grant_worker [of gl op]
  by (auto simp: open_channel_def sv2_leave_worker_def sv2_join_worker_def marks_fit_def Let_def split_beta announce_worker
      prod_eq_iff split: if_splits option.splits)

lemma handle_message_marks:
  assumes h: "handle_message C K io t payload e gl s = Ok ((flw, s', e', sent, effs), gl')"
  shows "marks_fit (s2_worker s) (s2_worker s') effs"
proof (rule handle_message_cases [of C K io t payload e gl s])
  fix g flw1 s1 sent1 effs1
  assume "handle_setup_connection K (ix_write io) payload (s\<lparr>s2_guard := g\<rparr>) = (flw1, s1, sent1, effs1)"
    "handle_message C K io t payload e gl s = Ok ((flw1, s1, e, sent1, effs1), gl)"
  then show ?thesis using h
    by (auto simp: handle_setup_connection_def setup_error_def marks_fit_same Let_def split_beta split: if_splits option.splits)
next
  fix g
  assume "\<And>flw s' e' sent effs gl'. handle_message C K io t payload e gl s = Ok ((flw, s', e', sent, effs), gl') \<Longrightarrow>
        handle_open_extended C K io payload gl (s\<lparr>s2_guard := g\<rparr>) = Ok ((flw, s', sent, effs), gl')"
  note o = this [OF h]
  show ?thesis
    by (rule handle_open_cases [of C K io payload gl "s\<lparr>s2_guard := g\<rparr>"])
      (use o open_channel_marks [of C io _ gl "s\<lparr>s2_guard := g\<rparr>" flw s' sent effs gl'] in \<open>auto simp: marks_fit_same\<close>)
next
  fix g assume "handle_message C K io t payload e gl s =
      Ok (sv2_handle_submit C K io payload e (s\<lparr>s2_guard := g\<rparr>), gl)"
  then have "sv2_handle_submit C K io payload e (s\<lparr>s2_guard := g\<rparr>) = (flw, s', e', sent, effs)" using h by simp
  then show ?thesis using sv2_submit_marks [of C K io payload e "s\<lparr>s2_guard := g\<rparr>"] by (simp add: marks_fit_same)
qed (use h in \<open>auto simp: marks_fit_same\<close>)

lemma sv2_retarget_marks:
  "sv2_on_retarget_timer w now1 now2 now3 s = Ok (ok, s', sent, effs) \<Longrightarrow> marks_fit (s2_worker s) (s2_worker s') effs"
  by (cases "check_retarget now1 now2 now3 (s2_vardiff s)"; cases "s2_worker s")
    (auto simp: sv2_on_retarget_timer_def Let_def split_beta marks_fit_same split: if_splits option.splits)

lemma sv2_broadcast_marks: "sv2_on_job_broadcast C w b s = (ok, s', sent) \<Longrightarrow> s2_worker s' = s2_worker s"
  by (auto simp: sv2_on_job_broadcast_def Let_def split_beta send_job_worker split: if_splits)

lemma sv2_close_marks:
  "marks (sv2_close_session now s) = leave (s2_worker s) \<and> retargeted (sv2_close_session now s) = []"
  by (simp add: sv2_close_session_def split: option.split)

section \<open>What a session still owes the statistics\<close>

text \<open>
  The calls of a loop: those the handlers make, those that count the connection, and the
  hashrate of the worker.
\<close>

fun session_call :: "loop_call \<Rightarrow> session_effect list" where
  "session_call (Session eff) = [eff]"
| "session_call _ = []"

fun gate :: "loop_call \<Rightarrow> bool list" where
  "gate SMinerConnected = [True]"
| "gate SMinerDisconnected = [False]"
| "gate _ = []"

definition session_calls :: "loop_call list \<Rightarrow> session_effect list" where
  "session_calls calls = concat (map session_call calls)"

definition gates :: "loop_call list \<Rightarrow> bool list" where
  "gates calls = concat (map gate calls)"

lemma session_calls_simps [simp]: "session_calls [] = []" "session_calls (c # cs) = session_call c @ session_calls cs"
  "session_calls (a @ b) = session_calls a @ session_calls b" "session_calls (map Session effs) = effs"
  by (simp_all add: session_calls_def comp_def)

lemma gates_simps [simp]: "gates [] = []" "gates (c # cs) = gate c @ gates cs" "gates (a @ b) = gates a @ gates b"
  "gates (map Session effs) = []"
  by (simp_all add: gates_def comp_def)

lemma hashrate_calls_silent [simp]: "session_calls (hashrate_calls lo w v) = []" "gates (hashrate_calls lo w v) = []"
  by (simp_all add: hashrate_calls_def Let_def split: option.split)

text \<open>
  A member of the pool is a session as the statistics see it: the worker it carries, whether it
  is open, and the calls it has not made yet. It \<open>holds\<close> worker \<open>w\<close> when the statistics count it
  for \<open>w\<close>, and is \<open>counted\<close> when they count it as a connected miner.
\<close>

type_synonym member = "string option \<times> bool \<times> loop_call list"

fun holds :: "string \<Rightarrow> member \<Rightarrow> bool" where
  "holds w (b, opn, calls) \<longleftrightarrow>
     (False, w) \<in> set (marks (session_calls calls)) \<or> b = Some w \<and> (True, w) \<notin> set (marks (session_calls calls))"

fun counted :: "member \<Rightarrow> bool" where
  "counted (b, opn, calls) \<longleftrightarrow> (if gates calls = [] then opn else \<not> opn)"

fun member_ok :: "member \<Rightarrow> bool" where
  "member_ok (b, opn, calls) \<longleftrightarrow>
     (let ms = marks (session_calls calls)
      in (ms = [] \<or> (\<exists>a. a \<noteq> b \<and> ms = leave a @ join b))
         \<and> (\<forall>w \<in> set (retargeted (session_calls calls)). b = Some w \<and> ms = []))
     \<and> (gates calls = [] \<or> gates calls = [opn])"

lemma in_leave_join [simp]: "x \<in> set (leave a) \<longleftrightarrow> (\<exists>w. a = Some w \<and> x = (False, w))"
  "x \<in> set (join a) \<longleftrightarrow> (\<exists>w. a = Some w \<and> x = (True, w))"
  by (cases a; simp)+

text \<open>The interface of a session loop to the pool, and what it gives for its member.\<close>

locale accounted_session =
  fixes worker_of :: "'s \<Rightarrow> string option"
    and turns :: "'s \<Rightarrow> loop_call list \<Rightarrow> 's \<Rightarrow> bool"
    and finishes :: "nat \<Rightarrow> nat \<Rightarrow> 's \<Rightarrow> loop_call list"
  assumes turns_fit: "turns s calls s' \<Longrightarrow> marks_fit (worker_of s) (worker_of s') (session_calls calls) \<and> gates calls = []"
    and finishes_fit: "marks (session_calls (finishes now1 now2 s)) = leave (worker_of s)
      \<and> retargeted (session_calls (finishes now1 now2 s)) = [] \<and> gates (finishes now1 now2 s) = [False]"
begin

lemma turn_member:
  assumes "turns s calls s'"
  shows "member_ok (worker_of s', True, calls)
     \<and> (holds w (worker_of s', True, calls) \<longleftrightarrow> holds w (worker_of s, True, []))
     \<and> (counted (worker_of s', True, calls) \<longleftrightarrow> counted (worker_of s, True, []))"
  using turns_fit [OF assms] by (auto simp: marks_fit_def Let_def split: if_splits)

lemma finish_member:
  "member_ok (None, False, finishes now1 now2 s)
     \<and> (holds w (None, False, finishes now1 now2 s) \<longleftrightarrow> holds w (worker_of s, True, []))
     \<and> (counted (None, False, finishes now1 now2 s) \<longleftrightarrow> counted (worker_of s, True, []))"
  using finishes_fit [of now1 now2 s] by (cases "worker_of s") (auto simp: Let_def)

end

section \<open>The turns of both protocols\<close>

inductive v1_turns ::
  "crates \<Rightarrow> (string \<Rightarrow> stratum_request option) \<Rightarrow> config \<Rightarrow> loop_end option \<Rightarrow> v1_conn \<Rightarrow> loop_call list \<Rightarrow> v1_conn \<Rightarrow> bool"
  for C :: crates and parse :: "string \<Rightarrow> stratum_request option" and cfg :: config where
  "v1_ready cfg now arm c \<Longrightarrow> v1_turn C parse lo arm e c = (fin, c', e', sent, calls) \<Longrightarrow> v1_turns C parse cfg fin c calls c'"

inductive v2_turns ::
  "crates \<Rightarrow> sv2_codec \<Rightarrow> config \<Rightarrow> loop_end option \<Rightarrow> v2_conn \<Rightarrow> loop_call list \<Rightarrow> v2_conn \<Rightarrow> bool"
  for C :: crates and K :: sv2_codec and cfg :: config where
  "v2_ready cfg now arm c \<Longrightarrow> v2_turn C K lo arm e gl c = (fin, c', e', gl', sent, calls) \<Longrightarrow> v2_turns C K cfg fin c calls c'"

lemma v1_line_fits:
  assumes "v1_line C parse lo io line e c = (fin, c', e', sent, calls)"
  shows "marks_fit (se_worker (vc_session c)) (se_worker (vc_session c')) (session_calls calls) \<and> gates calls = []"
  using assms handle_line_marks [of C parse io line e "vc_session c"]
  by (auto simp: v1_line_def Let_def marks_fit_same split: outcome.splits prod.splits handle_result.splits if_splits option.splits)

lemma v1_turn_fits:
  assumes "v1_turn C parse lo arm e c = (fin, c', e', sent, calls)"
  shows "marks_fit (se_worker (vc_session c)) (se_worker (vc_session c')) (session_calls calls) \<and> gates calls = []"
proof (cases arm)
  case (ReadCompleted io)
  have line: "marks_fit (se_worker (vc_session c)) (se_worker (vc_session c')) (session_calls calls) \<and> gates calls = []"
    if "v1_line C parse lo io l e (c\<lparr>vc_reader := r, vc_last_inbound := t, vc_line_buf := []\<rparr>) = (fin, c', e', sent, calls)" for l r t
    using v1_line_fits [OF that] by simp
  then show ?thesis using assms ReadCompleted
    by (auto simp: v1_inbound_def Let_def marks_fit_same split: read_result.splits prod.splits option.splits)
next
  case (RetargetDue now1 now2 now3)
  then show ?thesis using assms on_retarget_marks [of now1 now2 now3 "vc_session c"]
    by (auto simp: v1_retarget_def Let_def marks_fit_same split: outcome.splits prod.splits if_splits)
next
  case (JobArrived r)
  then show ?thesis using assms on_job_broadcast_marks [of C _ "vc_session c"]
    by (auto simp: v1_job_def Let_def marks_fit_same split: job_recv.splits prod.splits if_splits)
qed (use assms in \<open>auto simp: marks_fit_same\<close>)

lemma v2_message_fits:
  assumes "v2_message C K lo io t payload e gl c = (fin, c', e', gl', sent, calls)"
  shows "marks_fit (s2_worker (wc_session c)) (s2_worker (wc_session c')) (session_calls calls) \<and> gates calls = []"
  using assms handle_message_marks [of C K io t payload e gl "wc_session c"]
  by (auto simp: v2_message_def Let_def marks_fit_same split: outcome.splits prod.splits flow.splits if_splits option.splits)

lemma v2_turn_fits:
  assumes "v2_turn C K lo arm e gl c = (fin, c', e', gl', sent, calls)"
  shows "marks_fit (s2_worker (wc_session c)) (s2_worker (wc_session c')) (session_calls calls) \<and> gates calls = []"
proof (cases arm)
  case (FrameArrived io)
  have msg: "marks_fit (s2_worker (wc_session c)) (s2_worker (wc_session c')) (session_calls calls) \<and> gates calls = []"
    if "v2_message C K lo io m payload e gl (c\<lparr>wc_inbound := r, wc_last_inbound := t\<rparr>) = (fin, c', e', gl', sent, calls)" for m payload r t
    using v2_message_fits [OF that] by simp
  then show ?thesis using assms FrameArrived
    by (auto simp: v2_inbound_def Let_def marks_fit_same split: list.splits outcome.splits)
next
  case (TargetDue now1 now2 now3)
  then show ?thesis using assms sv2_retarget_marks [of "lo_write lo" now1 now2 now3 "wc_session c"]
    by (auto simp: v2_retarget_def marks_fit_same split: outcome.splits prod.splits if_splits)
next
  case (JobPushed r)
  then show ?thesis using assms sv2_broadcast_marks [of C "lo_write lo" _ "wc_session c"]
    by (auto simp: v2_job_def Let_def marks_fit_same split: job_recv.splits prod.splits if_splits)
qed (use assms in \<open>auto simp: marks_fit_same\<close>)

interpretation v1: accounted_session "\<lambda>c. se_worker (vc_session c)" "v1_turns C parse cfg fin" v1_finish
proof unfold_locales
  fix c calls c'
  assume "v1_turns C parse cfg fin c calls c'"
  then show "marks_fit (se_worker (vc_session c)) (se_worker (vc_session c')) (session_calls calls) \<and> gates calls = []"
    by cases (rule v1_turn_fits)
qed (simp add: v1_finish_def close_marks)

interpretation v2: accounted_session "\<lambda>c. s2_worker (wc_session c)" "v2_turns C K cfg fin" v2_finish
proof unfold_locales
  fix c calls c'
  assume "v2_turns C K cfg fin c calls c'"
  then show "marks_fit (s2_worker (wc_session c)) (s2_worker (wc_session c')) (session_calls calls) \<and> gates calls = []"
    by cases (rule v2_turn_fits)
qed (simp add: v2_finish_def sv2_close_marks)

datatype miner = V1 v1_conn | V2 v2_conn

fun miner_worker :: "miner \<Rightarrow> string option" where
  "miner_worker (V1 c) = se_worker (vc_session c)"
| "miner_worker (V2 c) = s2_worker (wc_session c)"

inductive miner_turn ::
  "crates \<Rightarrow> (string \<Rightarrow> stratum_request option) \<Rightarrow> sv2_codec \<Rightarrow> config \<Rightarrow> loop_end option \<Rightarrow> miner \<Rightarrow> loop_call list \<Rightarrow> miner \<Rightarrow> bool"
  for C :: crates and parse :: "string \<Rightarrow> stratum_request option" and K :: sv2_codec and cfg :: config and fin :: "loop_end option" where
  v1: "v1_turns C parse cfg fin c calls c' \<Longrightarrow> miner_turn C parse K cfg fin (V1 c) calls (V1 c')"
| v2: "v2_turns C K cfg fin d calls d' \<Longrightarrow> miner_turn C parse K cfg fin (V2 d) calls (V2 d')"

fun miner_finish :: "nat \<Rightarrow> nat \<Rightarrow> miner \<Rightarrow> loop_call list" where
  "miner_finish now1 now2 (V1 c) = v1_finish now1 now2 c"
| "miner_finish now1 now2 (V2 c) = v2_finish now1 now2 c"

interpretation miners: accounted_session miner_worker "miner_turn C parse K cfg fin" miner_finish
proof unfold_locales
  fix m calls m'
  assume "miner_turn C parse K cfg fin m calls m'"
  then show "marks_fit (miner_worker m) (miner_worker m') (session_calls calls) \<and> gates calls = []"
    by cases (use v1.turns_fit v2.turns_fit in auto)
next
  fix now1 now2 m
  show "marks (session_calls (miner_finish now1 now2 m)) = leave (miner_worker m)
      \<and> retargeted (session_calls (miner_finish now1 now2 m)) = [] \<and> gates (miner_finish now1 now2 m) = [False]"
    by (cases m) (simp_all add: v1.finishes_fit v2.finishes_fit)
qed

text \<open>A connection that got past the ban list, and the handshake in the case of Stratum V2.\<close>

inductive new_miner :: "config \<Rightarrow> miner \<Rightarrow> loop_call list \<Rightarrow> bool" for cfg :: config where
  v1: "v1_open b1 b2 now1 now2 now3 now4 now rnd (ip :: nat) peer cfg reader e bl counter = (Some (c, calls), bl', counter')
    \<Longrightarrow> new_miner cfg (V1 c) calls"
| v2: "v2_open b1 b2 now1 now2 now3 now4 now handshake (ip :: nat) peer cfg inbound e bl counter = (Some (d, calls), bl', counter')
    \<Longrightarrow> new_miner cfg (V2 d) calls"

lemma new_miner_start: "new_miner cfg m calls \<Longrightarrow> miner_worker m = None \<and> calls = [MMinerConnected, SMinerConnected]"
  by (auto elim!: new_miner.cases simp: v1_open_def v2_open_def Session_new_def Sv2Session_new_def Let_def
      split: prod.splits if_splits option.splits)

section \<open>The pool\<close>

text \<open>
  The shared statistics, the open sessions, each with the reason its loop ended (if it has) and
  the calls it still has to make, and the sessions that are past their loop. A step is a turn
  of one loop, one call on the statistics, a new connection, the end of a loop, or a call of a
  background task; sessions interleave freely between their calls. \<open>cap\<close> bounds the sessions
  alive at once. A handler that panics takes its task down with it and is not a step; the
  soundness theorems of both sessions rule it out.
\<close>

record mining_pool =
  mp_stats :: pool_stats
  mp_open :: "(miner \<times> loop_end option \<times> loop_call list) list"
  mp_ending :: "loop_call list list"

fun call_ops :: "stats_io \<Rightarrow> loop_call \<Rightarrow> stats_op list" where
  "call_ops io (Session eff) = effect_ops io eff"
| "call_ops io SMinerConnected = [OpMinerConnected]"
| "call_ops io SMinerDisconnected = [OpMinerDisconnected]"
| "call_ops io (SUpdateWorkerHashrate w a b c d) = [OpHashrate (sio_ok1 io) (sio_now io) w a b c d]"
| "call_ops io _ = []"

definition make_call :: "stats_io \<Rightarrow> loop_call \<Rightarrow> pool_stats \<Rightarrow> pool_stats" where
  "make_call io call p = fold stats_step (call_ops io call) p"

inductive pool_step ::
  "crates \<Rightarrow> (string \<Rightarrow> stratum_request option) \<Rightarrow> sv2_codec \<Rightarrow> config \<Rightarrow> nat \<Rightarrow> mining_pool \<Rightarrow> mining_pool \<Rightarrow> bool"
  for C :: crates and parse :: "string \<Rightarrow> stratum_request option" and K :: sv2_codec and cfg :: config and cap :: nat where
  connect: "new_miner cfg m calls \<Longrightarrow> length (mp_open p) + length (mp_ending p) < cap \<Longrightarrow>
    pool_step C parse K cfg cap p (p\<lparr>mp_open := (m, None, calls) # mp_open p\<rparr>)"
| turn: "mp_open p = xs @ (m, None, []) # ys \<Longrightarrow> miner_turn C parse K cfg fin m calls m' \<Longrightarrow> fin \<noteq> Some Crashed \<Longrightarrow>
    pool_step C parse K cfg cap p (p\<lparr>mp_open := xs @ (m', fin, calls) # ys\<rparr>)"
| call: "mp_open p = xs @ (m, fin, call # calls) # ys \<Longrightarrow>
    pool_step C parse K cfg cap p (p\<lparr>mp_stats := make_call io call (mp_stats p), mp_open := xs @ (m, fin, calls) # ys\<rparr>)"
| finish: "mp_open p = xs @ (m, Some why, []) # ys \<Longrightarrow>
    pool_step C parse K cfg cap p (p\<lparr>mp_open := xs @ ys, mp_ending := miner_finish now1 now2 m # mp_ending p\<rparr>)"
| last_call: "mp_ending p = xs @ (call # calls) # ys \<Longrightarrow>
    pool_step C parse K cfg cap p (p\<lparr>mp_stats := make_call io call (mp_stats p), mp_ending := xs @ calls # ys\<rparr>)"
| gone: "mp_ending p = xs @ [] # ys \<Longrightarrow> pool_step C parse K cfg cap p (p\<lparr>mp_ending := xs @ ys\<rparr>)"
| background: "\<not> counts_sessions op \<Longrightarrow>
    pool_step C parse K cfg cap p (p\<lparr>mp_stats := stats_step op (mp_stats p)\<rparr>)"

fun open_member :: "miner \<times> loop_end option \<times> loop_call list \<Rightarrow> member" where
  "open_member (m, fin, calls) = (miner_worker m, True, calls)"

fun ending_member :: "loop_call list \<Rightarrow> member" where
  "ending_member calls = (None, False, calls)"

definition members :: "mining_pool \<Rightarrow> member list" where
  "members p = map open_member (mp_open p) @ map ending_member (mp_ending p)"

definition tally :: "('a \<Rightarrow> bool) \<Rightarrow> 'a list \<Rightarrow> nat" where
  "tally P ms = length (filter P ms)"

lemma tally_simps [simp]: "tally P [] = 0" "tally P (m # ms) = of_bool (P m) + tally P ms"
  "tally P (xs @ ys) = tally P xs + tally P ys"
  by (simp_all add: tally_def)

lemma tally_le: "tally P ms \<le> length ms"
  by (simp add: tally_def)

definition pool_ok :: "nat \<Rightarrow> mining_pool \<Rightarrow> bool" where
  "pool_ok cap p \<longleftrightarrow> stats_ok (mp_stats p) \<and> st_connected_miners (mp_stats p) = of_nat (tally counted (members p))
     \<and> length (members p) \<le> cap \<and> (\<forall>m \<in> set (members p). member_ok m)
     \<and> (\<forall>w. active (mp_stats p) w = tally (holds w) (members p))"

section \<open>Each call keeps the count\<close>

lemma connected_with_worker [simp]: "st_connected_miners (with_worker w f p) = st_connected_miners p"
  by (simp add: with_worker_def split: option.split)

lemma connected_forget [simp]: "st_connected_miners (fold forget_worker ws p) = st_connected_miners p"
  by (induction ws arbitrary: p) (simp_all add: forget_worker_def)

lemma connected_other:
  assumes "op \<noteq> OpMinerConnected" and "op \<noteq> OpMinerDisconnected"
  shows "st_connected_miners (stats_step op p) = st_connected_miners p"
proof (cases op)
  case (OpShareAccepted ok d c)
  then show ?thesis by (simp add: share_accepted_def Let_def)
next
  case (OpBlockFound ok1 ok2 now w h height)
  then show ?thesis by (simp add: block_found_def Let_def)
next
  case (OpHashrate ok now w a b c d)
  then show ?thesis by (simp add: update_worker_hashrate_def Let_def)
next
  case (OpOnline now w v)
  then show ?thesis by (simp add: mark_worker_online_def split: option.split)
next
  case (OpVardiff now w v)
  then show ?thesis by (simp add: update_worker_vardiff_def mark_worker_online_def split: option.split)
next
  case (OpFlush ok now)
  then show ?thesis by (simp add: flush_share_log_def Let_def split: option.split)
next
  case (OpTake i now w)
  then show ?thesis by (simp add: PoolStats_take_share_history_def split: option.split)
next
  case (OpSaveSetting ok k v)
  then show ?thesis by (simp add: save_setting_def split: option.split prod.split)
next
  case (OpWorkerAccepted ok now w d)
  then show ?thesis by (simp add: worker_share_accepted_def Let_def)
next
  case (OpPrune ar sql ok now)
  then show ?thesis by (simp add: prune_idle_workers_def trim_best_shares_def Let_def)
qed (use assms in \<open>simp_all add: share_rejected_def update_height_def reset_best_hashrate_def set_worker_protocol_def
    mark_worker_submit_def mark_worker_offline_def stash_share_history_def log_share_def worker_share_rejected_def
    record_hashrate_snapshot_def persist_round_state_def network_setters\<close>)

lemma apply_effect_ok: "stats_ok p \<Longrightarrow> stats_ok (apply_effect io eff p)"
  by (cases eff) (simp_all add: apply_effect_def stats_step_ok del: stats_step.simps)

lemma apply_effect_connected: "st_connected_miners (apply_effect io eff p) = st_connected_miners p"
  by (cases eff) (simp_all add: apply_effect_def connected_other del: stats_step.simps)

lemma apply_effect_quiet:
  assumes "stats_ok p" and "mark eff = []" and "retarget_mark eff = []"
  shows "active (apply_effect io eff p) = active p"
  using assms by (cases eff) (simp_all add: apply_effect_def active_other del: stats_step.simps)

lemma make_call_ok: "stats_ok p \<Longrightarrow> stats_ok (make_call io call p)"
  using apply_effect_ok [of p io]
  by (cases call) (simp_all add: make_call_def apply_effect_def stats_step_ok del: stats_step.simps)

lemma make_call_connected:
  "st_connected_miners (make_call io call p)
     = (case gate call of [] \<Rightarrow> st_connected_miners p
        | up # _ \<Rightarrow> if up then st_connected_miners p + 1 else st_connected_miners p - 1)"
proof (cases call)
  case (Session eff)
  then show ?thesis using apply_effect_connected [of io eff p] by (simp add: make_call_def apply_effect_def)
next
  case (SUpdateWorkerHashrate w a b c d)
  then show ?thesis by (simp add: make_call_def connected_other del: stats_step.simps)
qed (simp_all add: make_call_def miner_connected_def miner_disconnected_def)

lemma make_call_active:
  assumes "stats_ok p"
  shows "active (make_call io call p) = (case session_call call of [] \<Rightarrow> active p | eff # _ \<Rightarrow> active (apply_effect io eff p))"
proof (cases call)
  case (SUpdateWorkerHashrate w a b c d)
  then show ?thesis using assms by (simp add: make_call_def active_other del: stats_step.simps)
qed (simp_all add: make_call_def apply_effect_def active_def miner_connected_def miner_disconnected_def fun_eq_iff)

text \<open>One call of a member: it stays coherent, and the counts follow what it holds.\<close>

lemma effect_call:
  assumes ok: "stats_ok p" and m: "member_ok (b, opn, Session eff # calls)"
    and held: "\<And>w. holds w (b, opn, Session eff # calls) \<Longrightarrow> 0 < active p w"
    and room: "\<And>w. \<not> holds w (b, opn, Session eff # calls) \<Longrightarrow> active p w < 2 ^ 64 - 1"
  shows "member_ok (b, opn, calls)
    \<and> active (apply_effect io eff p) w + of_bool (holds w (b, opn, Session eff # calls))
        = active p w + of_bool (holds w (b, opn, calls))"
proof -
  consider (join) w' d where "eff = SMarkWorkerOnline w' d" | (leave) w' where "eff = SMarkWorkerOffline w'"
    | (retarget) w' d where "eff = SUpdateWorkerVardiff w' d" | (quiet) "mark eff = []" "retarget_mark eff = []"
    by (cases eff) auto
  then show ?thesis
  proof cases
    case (join w' d)
    then obtain a where a: "(True, w') # marks (session_calls calls) = leave a @ join b" using m by (auto simp: Let_def)
    then have "a = None" by (cases a) auto
    with a have b: "b = Some w'" "marks (session_calls calls) = []" by (cases b; auto)+
    then have "\<not> holds w' (b, opn, Session eff # calls)" using join by simp
    then have "active (apply_effect io eff p) = (active p)(w' := Suc (active p w'))"
      using room [of w'] join by (simp add: apply_effect_def active_online)
    then show ?thesis using join b m by (auto simp: Let_def)
  next
    case (leave w')
    then obtain a where a: "(False, w') # marks (session_calls calls) = leave a @ join b" "a \<noteq> b"
      using m by (auto simp: Let_def)
    then have a': "a = Some w'" "marks (session_calls calls) = join b" by (cases a; cases b; auto)+
    have "0 < active p w'" using held [of w'] leave by simp
    moreover have "active (apply_effect io eff p) = (active p)(w' := active p w' - 1)"
      using leave by (simp add: apply_effect_def active_offline)
    moreover have "member_ok (b, opn, calls)" using m leave a' by (cases b) (auto simp: Let_def)
    ultimately show ?thesis using leave a a' by auto
  next
    case (retarget w' d)
    then have b: "b = Some w'" "marks (session_calls calls) = []" using m by (auto simp: Let_def)
    then have "0 < active p w'" using held [of w'] retarget by simp
    then have "active (apply_effect io eff p) = active p" using retarget by (simp add: apply_effect_def active_vardiff)
    then show ?thesis using b retarget m by (auto simp: Let_def)
  next
    case quiet
    then show ?thesis using apply_effect_quiet [OF ok quiet, of io] m by (auto simp: Let_def)
  qed
qed

lemma member_call:
  assumes ok: "stats_ok p" and m: "member_ok (b, opn, call # calls)"
    and held: "\<And>w. holds w (b, opn, call # calls) \<Longrightarrow> 0 < active p w"
    and room: "\<And>w. \<not> holds w (b, opn, call # calls) \<Longrightarrow> active p w < 2 ^ 64 - 1"
  shows "member_ok (b, opn, calls)
    \<and> active (make_call io call p) w + of_bool (holds w (b, opn, call # calls)) = active p w + of_bool (holds w (b, opn, calls))
    \<and> st_connected_miners (make_call io call p) + of_bool (counted (b, opn, call # calls))
        = st_connected_miners p + of_bool (counted (b, opn, calls))"
proof (cases "session_call call")
  case Nil
  then have "gate call = [] \<or> gate call = [True] \<or> gate call = [False]" by (cases call) auto
  then show ?thesis using m Nil make_call_active [OF ok, of io call]
    by (auto simp: Let_def make_call_connected)
next
  case (Cons eff rest)
  then have c: "call = Session eff" by (cases call) auto
  show ?thesis using effect_call [OF ok m [unfolded c] held [unfolded c] room [unfolded c], of io w]
    make_call_active [OF ok, of io call] by (simp add: c make_call_connected)
qed

lemmas member_simps = holds.simps counted.simps member_ok.simps

declare member_simps [simp del]

lemma pool_call:
  assumes inv: "pool_ok cap p" and cap: "cap < 2 ^ 64"
    and ms: "members p = xs @ (b, opn, call # calls) # ys" "members p' = xs @ (b, opn, calls) # ys"
    and st: "mp_stats p' = make_call io call (mp_stats p)"
  shows "pool_ok cap p'"
proof -
  have ok: "stats_ok (mp_stats p)" and m: "member_ok (b, opn, call # calls)" using inv ms(1) by (simp_all add: pool_ok_def)
  have count: "active (mp_stats p) w = tally (holds w) (members p)" for w using inv by (simp add: pool_ok_def)
  have held: "0 < active (mp_stats p) w" if "holds w (b, opn, call # calls)" for w using that count ms(1) by simp
  have room: "active (mp_stats p) w < 2 ^ 64 - 1" if "\<not> holds w (b, opn, call # calls)" for w
    using that inv ms(1) cap tally_le [of "holds w" xs] tally_le [of "holds w" ys] by (simp add: pool_ok_def)
  note c = member_call [OF ok m held room, of io]
  have "active (mp_stats p') w = tally (holds w) (members p')" for w
    using c [of w] count [of w] unfolding ms st by simp
  moreover have "st_connected_miners (mp_stats p') = of_nat (tally counted (members p'))"
    using c inv unfolding ms st pool_ok_def by (simp add: add_diff_eq [symmetric] algebra_simps)
  moreover have "stats_ok (mp_stats p')" using ok st by (simp add: make_call_ok)
  moreover have "length (members p') \<le> cap" "\<forall>m \<in> set (members p'). member_ok m"
    using inv c unfolding ms pool_ok_def by auto
  ultimately show ?thesis by (simp add: pool_ok_def)
qed

lemma pool_step_ok:
  assumes "pool_step C parse K cfg cap p p'" and "pool_ok cap p" and cap: "cap < 2 ^ 64"
  shows "pool_ok cap p'"
  using assms(1,2)
proof cases
  case (connect m calls)
  then show ?thesis using assms(2) new_miner_start [OF connect(2)]
    by (auto simp: pool_ok_def members_def member_simps)
next
  case (turn xs m ys fin calls m')
  have "member_ok (miner_worker m', True, calls)" "\<And>w. holds w (miner_worker m', True, calls) = holds w (miner_worker m, True, [])"
    "counted (miner_worker m', True, calls) = counted (miner_worker m, True, [])"
    using miners.turn_member [OF turn(3)] by blast+
  then show ?thesis using assms(2) turn(1,2) by (simp add: pool_ok_def members_def)
next
  case (call xs m fin call' calls ys io)
  then have "members p = map open_member xs @ (miner_worker m, True, call' # calls) # map open_member ys @ map ending_member (mp_ending p)"
    "members p' = map open_member xs @ (miner_worker m, True, calls) # map open_member ys @ map ending_member (mp_ending p)"
    by (simp_all add: members_def)
  then show ?thesis by (rule pool_call [OF assms(2) cap]) (simp add: call)
next
  case (finish xs m why ys now1 now2)
  then show ?thesis using assms(2) miners.finish_member [of now1 now2 m] by (auto simp: pool_ok_def members_def)
next
  case (last_call xs call' calls ys io)
  then have "members p = (map open_member (mp_open p) @ map ending_member xs) @ (None, False, call' # calls) # map ending_member ys"
    "members p' = (map open_member (mp_open p) @ map ending_member xs) @ (None, False, calls) # map ending_member ys"
    by (simp_all add: members_def)
  then show ?thesis by (rule pool_call [OF assms(2) cap]) (simp add: last_call)
next
  case (gone xs ys)
  then show ?thesis using assms(2) by (simp add: pool_ok_def members_def member_simps)
next
  case (background op)
  have "op \<noteq> OpMinerConnected" "op \<noteq> OpMinerDisconnected" using background(2) by auto
  then show ?thesis using assms(2) background
    by (simp add: pool_ok_def members_def stats_step_ok connected_other active_other del: stats_step.simps)
qed

section \<open>Property\<close>

definition empty_pool :: "nat \<Rightarrow> u64 \<Rightarrow> bool \<Rightarrow> store_opened \<Rightarrow> mining_pool" where
  "empty_pool instant now ok opened =
     \<lparr>mp_stats = PoolStats_new_with_store instant now ok opened, mp_open = [], mp_ending = []\<rparr>"

definition settled :: "mining_pool \<Rightarrow> bool" where
  "settled p \<longleftrightarrow> list_all (\<lambda>(m, fin, calls). calls = []) (mp_open p) \<and> list_all (\<lambda>calls. calls = []) (mp_ending p)"

lemma empty_pool_ok:
  assumes "\<And>s. opened = Opened s \<Longrightarrow> tables_keyed s"
  shows "pool_ok cap (empty_pool instant now ok opened)"
proof -
  have "st_worker_states (PoolStats_new_with_store instant now ok opened) = []"
    "st_connected_miners (PoolStats_new_with_store instant now ok opened) = 0"
    by (simp_all add: PoolStats_new_with_store_def Let_def split_beta)
  then show ?thesis
    using new_ok [OF assms] by (simp add: pool_ok_def empty_pool_def members_def active_def)
qed

lemma pool_run_ok:
  assumes "(pool_step C parse K cfg cap)\<^sup>*\<^sup>* p p'" and "pool_ok cap p" and "cap < 2 ^ 64"
  shows "pool_ok cap p'"
  using assms by (induction rule: rtranclp_induct) (auto intro: pool_step_ok)

lemma settled_tally:
  assumes "settled p"
  shows "tally (holds w) (members p) = length (filter (\<lambda>m. miner_worker (fst m) = Some w) (mp_open p))"
    and "tally counted (members p) = length (mp_open p)"
proof -
  have "tally (holds w) (map open_member ms) = length (filter (\<lambda>m. miner_worker (fst m) = Some w) ms)
      \<and> tally counted (map open_member ms) = length ms"
    if "list_all (\<lambda>(m, fin, calls). calls = []) ms" for ms
    using that by (induction ms) (auto simp: member_simps)
  moreover have "tally (holds w) (map ending_member es) = 0 \<and> tally counted (map ending_member es) = 0"
    if "list_all (\<lambda>calls. calls = []) es" for es
    using that by (induction es) (auto simp: member_simps)
  ultimately show "tally (holds w) (members p) = length (filter (\<lambda>m. miner_worker (fst m) = Some w) (mp_open p))"
    and "tally counted (members p) = length (mp_open p)"
    using assms by (simp_all add: members_def settled_def)
qed


text \<open>A session subscribes and takes a name.\<close>

definition sample_lines :: "string \<Rightarrow> stratum_request option" where
  "sample_lines line = Some \<lparr>rq_id = JNull,
     rq_method = (if line = ''s'' then ''mining.subscribe'' else ''mining.authorize''),
     rq_params = JArray [JString ''w'']\<rparr>"

definition subscribe_stream :: "bytes list" where
  "subscribe_stream = [[115, 10], [97, 10]]"

definition sample_token_49 :: share_rate_limiter where
  "sample_token_49 = \<lparr>sr_tokens = Fin 49, sr_max_per_sec = Fin 50, sr_last_refill = 0\<rparr>"

lemmas sample_session_defs = Session_new_def sample_config_def SessionGuard_new_def ShareRateLimiter_new_def
  ShareRateLimiter_try_consume_def as_secs_zero f64_of_u64_def f64_min_def f64_sub_def Let_def

lemma sample_subscribe:
  assumes "s = Session_new 0 0 0 0 1 ''peer'' sample_config x"
  shows "\<exists>ms s'. handle_line sample_crates sample_lines sample_io ''s'' sample_engine s = Ok (Messages ms, s', sample_engine, [])
      \<and> se_subscribed s' \<and> se_worker s' = None \<and> se_guard s' = (se_guard s)\<lparr>sg_share_rate := sample_token_49\<rparr>"
proof -
  have t: "str_trim ''s'' \<noteq> []" by (simp add: text_eval)
  show ?thesis
    using t assms by (simp add: handle_line_def sample_lines_def from_request_def SubscribeParams_parse_def dispatch_def
        handle_subscribe_def sample_io_def sample_session_defs sample_token_49_def)
qed

lemma sample_authorize:
  assumes "se_subscribed s" "se_worker s = None"
    and g: "se_guard s = (se_guard (Session_new 0 0 0 0 1 ''peer'' sample_config x))\<lparr>sg_share_rate := sample_token_49\<rparr>"
  shows "\<exists>ms s' effs. handle_line sample_crates sample_lines sample_io ''a'' sample_engine s = Ok (Messages ms, s', sample_engine, effs)
      \<and> se_worker s' = Some ''w''"
proof -
  have t: "str_trim ''a'' \<noteq> []" by (simp add: text_eval)
  have n: "validate_worker_name ''w'' 128 = Ok ()" by (simp add: validate_worker_name_def char_is_control_def text_eval)
  have a: "from_request sample_crates (the (sample_lines ''a'')) = Ok (Authorize \<lparr>auth_worker = ''w'', auth_password = None\<rparr>)"
    by (simp add: sample_lines_def from_request_def AuthorizeParams_parse_def opt_str_def nth_opt_def)
  show ?thesis
    using t n a assms by (simp add: handle_line_def sample_lines_def dispatch_def handle_authorize_def switch_worker_def
        SessionGuard_check_worker_name_def SessionGuard_record_new_authorization_def sample_io_def sample_session_defs
        sample_token_49_def InvalidShareCounter_new_def split: option.split)
qed

lemma all_written: "send_messages (\<lambda>_. True) k ms = (True, ms)"
  by (induction ms arbitrary: k) auto

text \<open>A turn that reads one line the handler answers.\<close>

lemma sample_turn:
  assumes "vc_line_buf c = []" "vc_reader c = (b # [10]) # rest" "b \<noteq> 10" "b \<noteq> 13" "0 < v1_max c" "from_utf8 [b] = Some l"
    and "handle_line sample_crates sample_lines sample_io l sample_engine (vc_session c) = Ok (Messages ms, s', sample_engine, effs)"
  shows "\<exists>calls c'. v1_turns sample_crates sample_lines sample_config None c calls c' \<and> vc_session c' = s'
      \<and> vc_line_buf c' = [] \<and> vc_reader c' = rest"
proof -
  have r: "read_line_bounded (v1_max c) [] ((b # [10]) # rest) = (LineRead 1, [b], rest)"
    using assms(3,4,5) by (simp add: Let_def)
  have "\<exists>calls c'. v1_turn sample_crates sample_lines sample_loop_io (ReadCompleted sample_io) sample_engine c
      = (None, c', sample_engine, ms, calls) \<and> vc_session c' = s' \<and> vc_line_buf c' = [] \<and> vc_reader c' = rest"
    using assms(1,2,6,7) r by (simp add: v1_inbound_def v1_line_def sample_loop_io_def all_written)
  then show ?thesis using v1_turns.intros [of sample_config 0 "ReadCompleted sample_io" c] by fastforce
qed


end
