(* ===== verification/Zmq.thy ===== *)
theory Zmq
  imports Prelude
begin

text \<open>
  \<^verbatim>\<open>src/src/bitcoin/zmq.rs\<close>: how the pool notices that the chain tip has moved. The listener
  stamps and forwards every \<^verbatim>\<open>hashblock\<close> message; the poll asks the node for its best block at
  every interval, signals each change, and judges whether the subscription is alive. One turn
  of the poll loop and one received message are the steps; the answers of the node and the
  readings of the clock are their inputs. Sockets and the watch channel are outside the model:
  a signal is the number sent.
\<close>

section \<open>Verdict on the subscription\<close>

definition ZMQ_RECONNECT_SECS :: u64 where
  "ZMQ_RECONNECT_SECS = 5"

definition ZMQ_GRACE_SECS :: u64 where
  "ZMQ_GRACE_SECS = 10"

datatype zmq_verdict = Delivered | Pending | Silent

text \<open>\<open>div_ceil(1000) + 1\<close>\<close>

definition poll_slack_secs :: "u64 \<Rightarrow> u64" where
  "poll_slack_secs poll_interval_ms =
     (let q = poll_interval_ms div 1000; r = poll_interval_ms mod 1000
      in (if r > 0 then q + 1 else q) + 1)"

definition zmq_verdict_of :: "u64 \<Rightarrow> u64 \<Rightarrow> u64 \<Rightarrow> u64 \<Rightarrow> zmq_verdict" where
  "zmq_verdict_of zmq_last_seen observed_at now slack =
     (if zmq_last_seen + slack \<ge> observed_at then Delivered
      else if sat_sub now observed_at > ZMQ_GRACE_SECS then Silent
      else Pending)"

section \<open>The poll\<close>

record poll_state =
  po_last_hash :: string
  po_seq :: u64
  po_awaiting_zmq :: "u64 option"

definition poll_start :: poll_state where
  "poll_start = \<lparr>po_last_hash = [], po_seq = 0, po_awaiting_zmq = None\<rparr>"

text \<open>
  The inputs of one turn: the stamp of the last message, the two clock readings and the
  answer of the node. The outputs: whether the fallback was reported, and the signal sent.
\<close>

record poll_input =
  pi_zmq_last_seen :: u64
  pi_now1 :: u64
  pi_best_block :: "string option"
  pi_now2 :: u64

definition judge_zmq :: "u64 \<Rightarrow> poll_input \<Rightarrow> poll_state \<Rightarrow> poll_state \<times> bool" where
  "judge_zmq poll_interval_ms i s =
     (case po_awaiting_zmq s of
        None \<Rightarrow> (s, False)
      | Some observed_at \<Rightarrow>
          (case zmq_verdict_of (pi_zmq_last_seen i) observed_at (pi_now1 i) (poll_slack_secs poll_interval_ms) of
             Pending \<Rightarrow> (s, False)
           | Delivered \<Rightarrow> (s\<lparr>po_awaiting_zmq := None\<rparr>, False)
           | Silent \<Rightarrow> (s\<lparr>po_awaiting_zmq := None\<rparr>, True)))"

definition poll_step :: "u64 \<Rightarrow> poll_input \<Rightarrow> poll_state \<Rightarrow> poll_state \<times> bool \<times> u64 option" where
  "poll_step poll_interval_ms i s =
     (let (s1, fallback_used) = judge_zmq poll_interval_ms i s
      in case pi_best_block i of
           None \<Rightarrow> (s1, fallback_used, None)
         | Some hash \<Rightarrow>
             if hash \<noteq> po_last_hash s1 then
               let s2 = (if po_last_hash s1 \<noteq> [] \<and> po_awaiting_zmq s1 = None
                         then s1\<lparr>po_awaiting_zmq := Some (pi_now2 i)\<rparr> else s1);
                   s3 = s2\<lparr>po_last_hash := hash, po_seq := po_seq s2 + 1\<rparr>
               in (s3, fallback_used, Some (po_seq s3))
             else (s1, fallback_used, None))"

text \<open>The listener: a message counts and stamps; an error or the end of the stream ends it.\<close>

datatype zmq_event = Multipart | ReceiveError | StreamClosed

record zmq_listener =
  zl_seq :: u64
  zl_last_seen :: u64

definition listener_step :: "u64 \<Rightarrow> zmq_event \<Rightarrow> zmq_listener \<Rightarrow> zmq_listener \<times> u64 option \<times> string option" where
  "listener_step now ev l =
     (case ev of
        Multipart \<Rightarrow>
          (let l1 = l\<lparr>zl_seq := zl_seq l + 1, zl_last_seen := now\<rparr> in (l1, Some (zl_seq l1), None))
      | ReceiveError \<Rightarrow> (l, None, Some ''ZMQ receive error'')
      | StreamClosed \<Rightarrow> (l, None, Some ''ZMQ stream closed''))"

section \<open>Runs of the poll\<close>

fun poll_run :: "u64 \<Rightarrow> poll_input list \<Rightarrow> poll_state \<Rightarrow> poll_state \<times> u64 list \<times> nat" where
  "poll_run ms [] s = (s, [], 0)"
| "poll_run ms (i # is) s =
     (let (s1, fallback_used, signal) = poll_step ms i s;
          (s2, signals, n) = poll_run ms is s1
      in (s2, (case signal of None \<Rightarrow> signals | Some k \<Rightarrow> k # signals), (if fallback_used then 1 else 0) + n))"

definition tips_seen :: "poll_input list \<Rightarrow> string list" where
  "tips_seen is = List.map_filter pi_best_block is"

lemma tips_seen_simps [simp]:
  "tips_seen [] = []"
  "tips_seen (i # is) = (case pi_best_block i of None \<Rightarrow> tips_seen is | Some h \<Rightarrow> h # tips_seen is)"
  by (simp_all add: tips_seen_def map_filter_simps split: option.split)

lemma judge_zmq_frame:
  "judge_zmq ms i s = (s1, b) \<Longrightarrow> po_last_hash s1 = po_last_hash s \<and> po_seq s1 = po_seq s"
  by (auto simp: judge_zmq_def split: option.splits zmq_verdict.splits)

text \<open>The changes among the tips a poll sees, after a tip it already knows.\<close>

fun tip_changes :: "string \<Rightarrow> string list \<Rightarrow> string list" where
  "tip_changes last_hash [] = []"
| "tip_changes last_hash (h # hs) = (if h = last_hash then tip_changes last_hash hs else h # tip_changes h hs)"

lemma poll_step_signal:
  assumes "poll_step ms i s = (s1, b, signal)"
  shows "po_last_hash s1 = (case pi_best_block i of None \<Rightarrow> po_last_hash s | Some h \<Rightarrow> h)"
    and "signal = (case pi_best_block i of None \<Rightarrow> None | Some h \<Rightarrow> if h = po_last_hash s then None else Some (po_seq s + 1))"
    and "po_seq s1 = (case signal of None \<Rightarrow> po_seq s | Some k \<Rightarrow> k)"
  using assms judge_zmq_frame [of ms i s]
  by (auto simp: poll_step_def Let_def split: prod.splits option.splits if_splits)

lemma poll_run_signals:
  "poll_run ms is s = (s', signals, n) \<Longrightarrow>
     signals = map (\<lambda>k. po_seq s + of_nat (Suc k)) [0..<length (tip_changes (po_last_hash s) (tips_seen is))]
     \<and> po_last_hash s' = last (po_last_hash s # tips_seen is)"
proof (induction "is" arbitrary: s s' signals n)
  case (Cons i "is")
  obtain s1 b signal where st: "poll_step ms i s = (s1, b, signal)" using prod_cases3 by blast
  obtain s2 signals2 n2 where r: "poll_run ms is s1 = (s2, signals2, n2)" using prod_cases3 by blast
  have eq: "s' = s2" "signals = (case signal of None \<Rightarrow> signals2 | Some k \<Rightarrow> k # signals2)"
    using Cons.prems st r by auto
  note IH = Cons.IH [OF r]
  note f = poll_step_signal [OF st]
  have shift: "map (\<lambda>k. a + 1 + of_nat (Suc k)) [0..<m] = map (\<lambda>k. a + of_nat (Suc k)) [1..<Suc m]" for a :: u64 and m
    by (intro nth_equalityI) (simp_all add: add.assoc del: upt_Suc)
  show ?case
  proof (cases "pi_best_block i")
    case None
    then show ?thesis using IH f eq by auto
  next
    case (Some h)
    then show ?thesis
      using IH f eq shift [of "po_seq s"] by (auto simp: upt_conv_Cons simp del: upt_Suc)
  qed
qed simp

lemma unat_poll_slack: "unat (poll_slack_secs ms) = (unat ms + 999) div 1000 + 1"
proof -
  have q: "unat (ms div 1000) = unat ms div 1000" and r: "unat (ms mod 1000) = unat ms mod 1000"
    by (simp_all add: unat_div_distrib unat_mod_distrib)
  have b: "unat ms div 1000 \<le> 2 ^ 64 div 1000" using unat_lt [of ms] by (intro div_le_mono) simp
  have z: "(ms mod 1000 > 0) = (unat ms mod 1000 > 0)" using r by (metis unat_gt_0 word_gt_0)
  have "(unat ms mod 1000 + 999) div 1000 = (if unat ms mod 1000 > 0 then 1 else 0)"
    using mod_less_divisor [of 1000 "unat ms"] by (auto intro!: div_nat_eqI)
  moreover have "(unat ms + 999) div 1000 = unat ms div 1000 + (unat ms mod 1000 + 999) div 1000"
  proof -
    have "unat ms + 999 = unat ms mod 1000 + 999 + unat ms div 1000 * 1000" by simp
    then show ?thesis by (simp only: div_mult_self1)
  qed
  ultimately have c: "(unat ms + 999) div 1000 = unat ms div 1000 + (if unat ms mod 1000 > 0 then 1 else 0)" by simp
  show ?thesis
    using b by (simp add: poll_slack_secs_def Let_def z c unat_word_ariths q)
qed

section \<open>Properties\<close>

text \<open>
  The poll signals every change of the tip it sees, exactly once and in order: whatever errors
  come between, the signals of a run are numbered consecutively and there is one for every answer
  that differs from the answer before it; and the poll always remembers the last tip it saw.
\<close>

theorem every_tip_change_signalled:
  assumes "poll_run ms inputs poll_start = (s, signals, n)"
  shows "signals = map (\<lambda>k. of_nat (Suc k)) [0..<length (tip_changes [] (tips_seen inputs))]
     \<and> po_last_hash s = last ([] # tips_seen inputs)"
  using poll_run_signals [OF assms] by (simp add: poll_start_def)

text \<open>
  A subscription is reported as not delivering exactly when the tip changed more than the grace
  period ago and no message was stamped since, allowing for one poll interval rounded up plus a
  second: a message stamped up to a poll interval before the poll noticed the block always counts
  as its delivery, and a dead subscription is reported at the first turn after the grace.
\<close>

theorem silent_subscription_reported:
  assumes "po_awaiting_zmq s = Some observed" and "poll_step ms i s = (s', reported, signal)"
    and "unat (pi_zmq_last_seen i) + unat (poll_slack_secs ms) < 2 ^ 64" and "observed \<le> pi_now1 i"
  shows "reported \<longleftrightarrow> unat (pi_zmq_last_seen i) + (unat ms + 999) div 1000 + 1 < unat observed
                        \<and> unat observed + 10 < unat (pi_now1 i)"
proof -
  have "reported = snd (judge_zmq ms i s)"
    using assms(2) by (auto simp: poll_step_def Let_def split: prod.splits option.splits if_splits)
  moreover have "unat (pi_zmq_last_seen i + poll_slack_secs ms) = unat (pi_zmq_last_seen i) + ((unat ms + 999) div 1000 + 1)"
    using assms(3) by (simp add: unat_word_ariths unat_poll_slack)
  moreover have "unat (sat_sub (pi_now1 i) observed) = unat (pi_now1 i) - unat observed"
    using assms(4) by (simp add: sat_sub_def unat_sub word_le_nat_alt)
  ultimately show ?thesis
    using assms(1)
    by (auto simp: judge_zmq_def zmq_verdict_of_def ZMQ_GRACE_SECS_def word_le_nat_alt word_less_nat_alt not_le)
qed

subsection \<open>Instances\<close>

definition sample_poll :: "string option \<Rightarrow> u64 \<Rightarrow> poll_input" where
  "sample_poll tip now = \<lparr>pi_zmq_last_seen = 400, pi_now1 = now, pi_best_block = tip, pi_now2 = now\<rparr>"

theorem tip_changes_witness:
  "\<exists>s n. poll_run 1000 [sample_poll (Some ''a'') 1000, sample_poll None 1001, sample_poll (Some ''a'') 1002,
        sample_poll (Some ''b'') 1003] poll_start = (s, [1, 2], n)
     \<and> po_last_hash s = ''b''"
proof -
  let ?is = "[sample_poll (Some ''a'') 1000, sample_poll None 1001, sample_poll (Some ''a'') 1002, sample_poll (Some ''b'') 1003]"
  obtain s signals n where r: "poll_run 1000 ?is poll_start = (s, signals, n)" using prod_cases3 by blast
  have "tips_seen ?is = [''a'', ''a'', ''b'']" by (simp add: sample_poll_def)
  then show ?thesis using every_tip_change_signalled [OF r] r by simp
qed

theorem silent_subscription_witness:
  "\<exists>s' signal. poll_step 1000 (sample_poll (Some ''a'') 1011) (poll_start\<lparr>po_awaiting_zmq := Some 1000\<rparr>)
     = (s', True, signal)"
proof -
  obtain s' b signal where r: "poll_step 1000 (sample_poll (Some ''a'') 1011) (poll_start\<lparr>po_awaiting_zmq := Some 1000\<rparr>)
     = (s', b, signal)" using prod_cases3 by blast
  have "unat (pi_zmq_last_seen (sample_poll (Some ''a'') 1011)) + unat (poll_slack_secs 1000) < 2 ^ 64"
    by (simp add: unat_poll_slack sample_poll_def)
  then have b using silent_subscription_reported [OF _ r, of 1000] by (simp add: sample_poll_def)
  with r show ?thesis by auto
qed

end
