(* ===== verification/Tips.thy ===== *)
theory Tips
  imports Engine Zmq "HOL-Library.Multiset"
begin

text \<open>
  From a moved chain tip to the job that announces it: \<open>start\<close> of \<^verbatim>\<open>src/src/bitcoin/zmq.rs\<close>, which
  runs the listener and the poll over one watch channel, and \<open>run\<close> of
  \<^verbatim>\<open>src/src/mining/engine.rs\<close>, which waits on that channel and on a timer. A refresh asked for
  by the dashboard runs beside the loop, so a refresh is taken apart here into the moves
  between which another task can run (\<open>refresh_move\<close>); alone, its moves make up \<open>refresh\<close>.
  The watch channel is that of \<^verbatim>\<open>tokio\<close>, a parameter with its documented laws (\<open>watch_ok\<close>).
  The theorems show that no signal of a moved tip is lost while a refresh is under way, and
  that every change of the current job's tip is broadcast as a clean job exactly once.
\<close>

section \<open>A refresh, move by move\<close>

definition NTIME_REFRESH_SECS :: nat where
  "NTIME_REFRESH_SECS = 30"

text \<open>
  Where a refresh stands: what it is about to do, with the values it holds. The first argument
  is whether the job is to be clean.
\<close>

datatype refresh_pc =
    ReadAddress bool
  | AskNode bool string
  | BuildJob bool string gbt_result
  | PublishJob bool stratum_job
  | NoteOk bool stratum_job
  | ClearError bool stratum_job
  | PushJob bool stratum_job
  | SendJob bool stratum_job
  | Refreshed
  | RefreshPanicked

record refresh_io =
  ri_view :: node_view
  ri_ok_at :: nat
  ri_created_at :: nat

fun refresh_move ::
  "crates \<Rightarrow> u64 \<Rightarrow> refresh_io \<Rightarrow> refresh_pc \<Rightarrow> template_engine
     \<Rightarrow> refresh_pc \<times> template_engine \<times> engine_effect list" where
  "refresh_move C millis io (ReadAddress clean) e =
     (case valid_coinbase_address (en_settings e) of
        None \<Rightarrow> (Refreshed, note_template_failure PausedNoAddress e, [])
      | Some coinbase_address \<Rightarrow> (AskNode clean coinbase_address, e, []))"
| "refresh_move C millis io (AskNode clean coinbase_address) e =
     (let (answer, rpc') = get_block_template C (nv_url_ok (ri_view io)) (nv_first (ri_view io))
            (nv_second (ri_view io)) (nv_cookie_file (ri_view io)) (en_rpc e);
          e1 = e\<lparr>en_rpc := rpc'\<rparr>
      in case answer of
           Panic \<Rightarrow> (RefreshPanicked, e1, [])
         | Err err \<Rightarrow> (Refreshed, note_template_failure (GetBlockTemplateFailed err) e1, [])
         | Ok gbt \<Rightarrow> (BuildJob clean coinbase_address gbt, e1, []))"
| "refresh_move C millis io (BuildJob clean coinbase_address gbt) e =
     (let (built, counter') = build_job C millis (en_job_counter e) gbt coinbase_address
            (str_bytes (pc_coinbase_tag (en_pool_cfg e)))
            (pc_extranonce1_size (en_pool_cfg e)) (pc_extranonce2_size (en_pool_cfg e));
          e1 = e\<lparr>en_job_counter := counter'\<rparr>
      in case built of
           Panic \<Rightarrow> (RefreshPanicked, e1, [])
         | Err err \<Rightarrow> (Refreshed, note_template_failure (BuildJobFailed err) e1, [])
         | Ok job \<Rightarrow> (PublishJob clean job, e1, publish_template_stats job))"
| "refresh_move C millis io (PublishJob clean job) e =
     (let tip_changed = tip_moved (map_option j_prev_hash (en_current_job e)) (j_prev_hash job)
      in (NoteOk (clean \<or> tip_changed) job, e\<lparr>en_current_job := Some job\<rparr>, []))"
| "refresh_move C millis io (NoteOk clean job) e =
     (ClearError clean job, e\<lparr>en_last_template_ok := Some (ri_ok_at io)\<rparr>, [])"
| "refresh_move C millis io (ClearError clean job) e =
     (PushJob clean job, e\<lparr>en_last_template_error := None\<rparr>, [])"
| "refresh_move C millis io (PushJob clean job) e =
     (SendJob clean job,
      e\<lparr>en_job_history := push_history
          \<lparr>je_job = job, je_created_at = ri_created_at io, je_clean = clean,
           je_superseded_by_clean = False\<rparr> (en_job_history e)\<rparr>, [])"
| "refresh_move C millis io (SendJob clean job) e =
     (Refreshed, e, [Broadcast \<lparr>jb_job = job, jb_clean = clean\<rparr>])"
| "refresh_move C millis io pc e = (pc, e, [])"

fun refresh_moves ::
  "crates \<Rightarrow> u64 \<Rightarrow> refresh_io list \<Rightarrow> refresh_pc \<Rightarrow> template_engine
     \<Rightarrow> refresh_pc \<times> template_engine \<times> engine_effect list" where
  "refresh_moves C millis [] pc e = (pc, e, [])"
| "refresh_moves C millis (io # ios) pc e =
     (let (pc1, e1, effs1) = refresh_move C millis io pc e;
          (pc2, e2, effs2) = refresh_moves C millis ios pc1 e1
      in (pc2, e2, effs1 @ effs2))"

text \<open>Undisturbed, the moves make up the refresh of \<open>Engine\<close>, failures included.\<close>

lemma refresh_moves_ended [simp]:
  "refresh_moves C millis ios Refreshed e = (Refreshed, e, [])"
  "refresh_moves C millis ios RefreshPanicked e = (RefreshPanicked, e, [])"
  by (induction ios) simp_all

lemma refresh_by_moves:
  assumes "refresh C millis view ok_at created_at clean e = Ok (e', effs)"
  shows "refresh_moves C millis (replicate 8 \<lparr>ri_view = view, ri_ok_at = ok_at, ri_created_at = created_at\<rparr>)
           (ReadAddress clean) e = (Refreshed, e', effs)"
  using assms
  by (auto simp: refresh_def numeral_eq_Suc Let_def split: option.splits prod.splits outcome.splits)

lemma refresh_panics_by_moves:
  assumes "refresh C millis view ok_at created_at clean e = Panic"
  shows "fst (refresh_moves C millis (replicate 8 \<lparr>ri_view = view, ri_ok_at = ok_at, ri_created_at = created_at\<rparr>)
           (ReadAddress clean) e) = RefreshPanicked"
  using assms
  by (auto simp: refresh_def numeral_eq_Suc Let_def split: option.splits prod.splits outcome.splits)

section \<open>The tasks\<close>

text \<open>
  The watch channel: a new one holds a value the receiver counts as seen, a send always makes
  an unseen value, and the completion of \<open>changed\<close> marks the newest value as seen.
\<close>

record 'w watch_channel =
  wc_new :: "u64 \<Rightarrow> 'w"
  wc_send :: "u64 \<Rightarrow> 'w \<Rightarrow> 'w"
  wc_changed :: "'w \<Rightarrow> bool"
  wc_mark_seen :: "'w \<Rightarrow> 'w"

definition watch_ok :: "'w watch_channel \<Rightarrow> bool" where
  "watch_ok W \<longleftrightarrow> (\<forall>v. \<not> wc_changed W (wc_new W v)) \<and> (\<forall>v w. wc_changed W (wc_send W v w))
     \<and> (\<forall>w. \<not> wc_changed W (wc_mark_seen W w))"

text \<open>The listener task connects, listens until an error, sleeps and connects again.\<close>

datatype listener_pc = Connecting | Listening | Asleep

text \<open>The loop of the engine: in its first refresh, in one of its arms, waiting, or over.\<close>

datatype loop_pc =
    Booting refresh_pc
  | OnBlock refresh_pc
  | OnTick refresh_pc
  | AtSelect
  | LoopEnded
  | LoopPanicked

datatype tip_effect = EngineEffect engine_effect | MetricZmqReconnect | MetricFallbackUsed

record 'w tips =
  tp_engine :: template_engine
  tp_loop :: loop_pc
  tp_forced :: "refresh_pc list"
  tp_next_tick :: nat
  tp_watch :: 'w
  tp_senders :: nat
  tp_listener :: zmq_listener
  tp_listener_pc :: listener_pc
  tp_poll :: "poll_state option"
  tp_out :: "tip_effect list"

text \<open>
  \<open>zmq::start\<close>: the listener always runs and holds a sender; the poll runs, with the other
  sender, unless it is disabled. Neither task ends. The engine's loop starts with a refresh.
\<close>

definition zmq_start :: "'w watch_channel \<Rightarrow> bool \<Rightarrow> template_engine \<Rightarrow> 'w tips" where
  "zmq_start W poll_fallback e =
     \<lparr>tp_engine = e, tp_loop = Booting (ReadAddress True), tp_forced = [], tp_next_tick = 0,
      tp_watch = wc_new W 0, tp_senders = (if poll_fallback then 2 else 1),
      tp_listener = \<lparr>zl_seq = 0, zl_last_seen = 0\<rparr>, tp_listener_pc = Connecting,
      tp_poll = (if poll_fallback then Some poll_start else None), tp_out = []\<rparr>"

subsection \<open>The listener and the poll\<close>

definition send_signal :: "'w watch_channel \<Rightarrow> u64 option \<Rightarrow> 'w tips \<Rightarrow> 'w tips" where
  "send_signal W signal s =
     (case signal of None \<Rightarrow> s | Some k \<Rightarrow> s\<lparr>tp_watch := wc_send W k (tp_watch s)\<rparr>)"

text \<open>Connecting starts a new count; it fails when the endpoint cannot be subscribed to.\<close>

definition listener_connect :: "bool \<Rightarrow> 'w tips \<Rightarrow> 'w tips option" where
  "listener_connect ok s =
     (if tp_listener_pc s = Connecting
      then Some (if ok then s\<lparr>tp_listener := (tp_listener s)\<lparr>zl_seq := 0\<rparr>, tp_listener_pc := Listening\<rparr>
                 else s\<lparr>tp_listener_pc := Asleep\<rparr>)
      else None)"

definition listener_hears :: "'w watch_channel \<Rightarrow> u64 \<Rightarrow> zmq_event \<Rightarrow> 'w tips \<Rightarrow> 'w tips option" where
  "listener_hears W now ev s =
     (if tp_listener_pc s = Listening
      then let (l, signal, failure) = listener_step now ev (tp_listener s)
           in Some (send_signal W signal
                 (s\<lparr>tp_listener := l,
                    tp_listener_pc := (if failure = None then Listening else Asleep)\<rparr>))
      else None)"

definition listener_wakes :: "'w tips \<Rightarrow> 'w tips option" where
  "listener_wakes s =
     (if tp_listener_pc s = Asleep
      then Some (s\<lparr>tp_listener_pc := Connecting, tp_out := tp_out s @ [MetricZmqReconnect]\<rparr>)
      else None)"

definition poll_turns :: "'w watch_channel \<Rightarrow> u64 \<Rightarrow> u64 \<Rightarrow> string option \<Rightarrow> u64 \<Rightarrow> 'w tips \<Rightarrow> 'w tips option" where
  "poll_turns W poll_interval_ms now1 best now2 s =
     (case tp_poll s of
        None \<Rightarrow> None
      | Some p \<Rightarrow>
          (let (p', fallback_used, signal) = poll_step poll_interval_ms
                 \<lparr>pi_zmq_last_seen = zl_last_seen (tp_listener s), pi_now1 = now1, pi_best_block = best,
                  pi_now2 = now2\<rparr> p
           in Some (send_signal W signal
                 (s\<lparr>tp_poll := Some p',
                    tp_out := tp_out s @ (if fallback_used then [MetricFallbackUsed] else [])\<rparr>))))"

subsection \<open>The loop of the engine\<close>

text \<open>
  The two arms of the select. The timer is an interval of \<^verbatim>\<open>tokio\<close>: after a tick the next one is
  due a period after the last was, and a reset makes it due a period from now.
\<close>

definition block_seen :: "'w watch_channel \<Rightarrow> 'w tips \<Rightarrow> 'w tips option" where
  "block_seen W s =
     (if tp_loop s = AtSelect \<and> wc_changed W (tp_watch s)
      then Some (s\<lparr>tp_watch := wc_mark_seen W (tp_watch s), tp_loop := OnBlock (ReadAddress True)\<rparr>)
      else None)"

definition channel_closed :: "'w tips \<Rightarrow> 'w tips option" where
  "channel_closed s =
     (if tp_loop s = AtSelect \<and> tp_senders s = 0 then Some (s\<lparr>tp_loop := LoopEnded\<rparr>) else None)"

definition ntime_tick :: "nat \<Rightarrow> 'w tips \<Rightarrow> 'w tips option" where
  "ntime_tick now s =
     (if tp_loop s = AtSelect \<and> tp_next_tick s \<le> now
      then Some (s\<lparr>tp_next_tick := tp_next_tick s + secs NTIME_REFRESH_SECS, tp_loop := OnTick (ReadAddress False)\<rparr>)
      else None)"

fun loop_pc_of :: "loop_pc \<Rightarrow> refresh_pc option" where
  "loop_pc_of (Booting pc) = Some pc"
| "loop_pc_of (OnBlock pc) = Some pc"
| "loop_pc_of (OnTick pc) = Some pc"
| "loop_pc_of _ = None"

text \<open>
  Where the loop stands after a move of its refresh: the first refresh and one after a block
  are followed by a fresh start of the timer, at the instant \<open>now\<close>.
\<close>

fun loop_goes_on :: "loop_pc \<Rightarrow> refresh_pc \<Rightarrow> loop_pc" where
  "loop_goes_on l Refreshed = AtSelect"
| "loop_goes_on l RefreshPanicked = LoopPanicked"
| "loop_goes_on (Booting _) pc = Booting pc"
| "loop_goes_on (OnBlock _) pc = OnBlock pc"
| "loop_goes_on (OnTick _) pc = OnTick pc"
| "loop_goes_on l pc = l"

fun restarts_timer :: "loop_pc \<Rightarrow> refresh_pc \<Rightarrow> bool" where
  "restarts_timer (Booting _) Refreshed = True"
| "restarts_timer (OnBlock _) Refreshed = True"
| "restarts_timer _ _ = False"

definition loop_moves :: "crates \<Rightarrow> u64 \<Rightarrow> refresh_io \<Rightarrow> nat \<Rightarrow> 'w tips \<Rightarrow> 'w tips option" where
  "loop_moves C millis io now s =
     (case loop_pc_of (tp_loop s) of
        None \<Rightarrow> None
      | Some pc \<Rightarrow>
          (let (pc', e', effs) = refresh_move C millis io pc (tp_engine s)
           in Some (s\<lparr>tp_engine := e', tp_loop := loop_goes_on (tp_loop s) pc',
                      tp_next_tick := (if restarts_timer (tp_loop s) pc' then now + secs NTIME_REFRESH_SECS
                                       else tp_next_tick s),
                      tp_out := tp_out s @ map EngineEffect effs\<rparr>)))"

subsection \<open>Refreshes beside the loop\<close>

definition forced_starts :: "'w tips \<Rightarrow> 'w tips" where
  "forced_starts s = s\<lparr>tp_forced := tp_forced s @ [ReadAddress True]\<rparr>"

definition forced_moves :: "crates \<Rightarrow> u64 \<Rightarrow> nat \<Rightarrow> refresh_io \<Rightarrow> 'w tips \<Rightarrow> 'w tips option" where
  "forced_moves C millis i io s =
     (if i < length (tp_forced s)
      then let (pc', e', effs) = refresh_move C millis io (tp_forced s ! i) (tp_engine s)
           in Some (s\<lparr>tp_engine := e', tp_forced := (tp_forced s)[i := pc'],
                      tp_out := tp_out s @ map EngineEffect effs\<rparr>)
      else None)"

subsection \<open>Runs\<close>

text \<open>
  The events, in any order; one that cannot happen where the tasks stand gives \<open>None\<close>. The
  payout settings and the block submissions of the sessions work on the same engine.
\<close>

datatype tip_event =
    Connects bool
  | Hears u64 zmq_event
  | Wakes
  | PollTurn u64 "string option" u64
  | BlockSeen
  | ChannelClosed
  | NtimeTick nat
  | LoopMoves refresh_io nat
  | ForcedStarts
  | ForcedMoves nat refresh_io
  | SettingsChange settings_op
  | BlockFound "nat \<Rightarrow> node_view" u64 string string string

fun tip_step :: "'w watch_channel \<Rightarrow> crates \<Rightarrow> u64 \<Rightarrow> u64 \<Rightarrow> tip_event \<Rightarrow> 'w tips \<Rightarrow> 'w tips option" where
  "tip_step W C millis ms (Connects ok) s = listener_connect ok s"
| "tip_step W C millis ms (Hears now ev) s = listener_hears W now ev s"
| "tip_step W C millis ms Wakes s = listener_wakes s"
| "tip_step W C millis ms (PollTurn now1 best now2) s = poll_turns W ms now1 best now2 s"
| "tip_step W C millis ms BlockSeen s = block_seen W s"
| "tip_step W C millis ms ChannelClosed s = channel_closed s"
| "tip_step W C millis ms (NtimeTick now) s = ntime_tick now s"
| "tip_step W C millis ms (LoopMoves io now) s = loop_moves C millis io now s"
| "tip_step W C millis ms ForcedStarts s = Some (forced_starts s)"
| "tip_step W C millis ms (ForcedMoves i io) s = forced_moves C millis i io s"
| "tip_step W C millis ms (SettingsChange a) s =
     Some (s\<lparr>tp_engine := engine_step C millis (ChangeSettings a) (tp_engine s)\<rparr>)"
| "tip_step W C millis ms (BlockFound views height hash_hex block_text worker) s =
     Some (s\<lparr>tp_engine := engine_step C millis (Found views height hash_hex block_text worker) (tp_engine s)\<rparr>)"

abbreviation tip_run :: "'w watch_channel \<Rightarrow> crates \<Rightarrow> u64 \<Rightarrow> u64 \<Rightarrow> tip_event list \<Rightarrow> 'w tips \<Rightarrow> 'w tips option" where
  "tip_run W C millis ms \<equiv> run_steps (tip_step W C millis ms)"

lemmas tip_defs = listener_connect_def listener_hears_def listener_wakes_def poll_turns_def block_seen_def
  channel_closed_def ntime_tick_def loop_moves_def forced_starts_def forced_moves_def send_signal_def

section \<open>No signal is lost\<close>

text \<open>Whether an event sends a signal: the poll saw another tip, or the node published a block.\<close>

fun tip_signal :: "u64 \<Rightarrow> 'w tips \<Rightarrow> tip_event \<Rightarrow> bool" where
  "tip_signal ms s (Hears now ev) \<longleftrightarrow> ev = Multipart"
| "tip_signal ms s (PollTurn now1 best now2) \<longleftrightarrow>
     (\<exists>p h. tp_poll s = Some p \<and> best = Some h \<and> h \<noteq> po_last_hash p)"
| "tip_signal ms s _ \<longleftrightarrow> False"

lemma signal_marks_channel:
  assumes "watch_ok W" and "tip_step W C millis ms ev s = Some s'" and "tip_signal ms s ev"
  shows "wc_changed W (tp_watch s')"
proof (cases ev)
  case (PollTurn now1 best now2)
  then obtain p h where p: "tp_poll s = Some p" "best = Some h" "h \<noteq> po_last_hash p" using assms(3) by auto
  obtain p' b signal where st: "poll_step ms \<lparr>pi_zmq_last_seen = zl_last_seen (tp_listener s), pi_now1 = now1,
      pi_best_block = best, pi_now2 = now2\<rparr> p = (p', b, signal)" using prod_cases3 by blast
  show ?thesis
    using assms(1,2) PollTurn p st poll_step_signal(2) [OF st]
    by (auto simp: poll_turns_def send_signal_def watch_ok_def)
qed (use assms in \<open>auto simp: listener_hears_def listener_step_def send_signal_def watch_ok_def
       split: if_splits\<close>)

lemma channel_stays_marked:
  assumes "watch_ok W" and "tip_step W C millis ms ev s = Some s'" and "ev \<noteq> BlockSeen"
    and "wc_changed W (tp_watch s)"
  shows "wc_changed W (tp_watch s')"
  using assms
  by (cases ev) (auto simp: tip_defs watch_ok_def Let_def split: option.splits if_splits prod.splits)

interpretation marked: kept_by "\<lambda>s. watch_ok W \<and> wc_changed W (tp_watch s)" "\<lambda>ev. ev \<noteq> BlockSeen" "tip_step W C millis ms"
  for W C millis ms
  by unfold_locales (blast intro: channel_stays_marked)

lemma tip_step_senders:
  "tip_step W C millis ms ev s = Some s' \<Longrightarrow> 0 < tp_senders s \<Longrightarrow> tp_loop s \<noteq> LoopEnded
     \<Longrightarrow> 0 < tp_senders s' \<and> tp_loop s' \<noteq> LoopEnded"
  by (cases ev) (auto simp: tip_defs Let_def split: option.splits if_splits prod.splits
      elim!: loop_goes_on.elims)

interpretation running: kept_by "\<lambda>s. 0 < tp_senders s \<and> tp_loop s \<noteq> LoopEnded" "\<lambda>_. True" "tip_step W C millis ms"
  for W C millis ms
  by unfold_locales (blast dest: tip_step_senders)

text \<open>The moves a refresh still has to make, at most; each move leaves fewer.\<close>

fun moves_left :: "refresh_pc \<Rightarrow> nat" where
  "moves_left (ReadAddress _) = 8"
| "moves_left (AskNode _ _) = 7"
| "moves_left (BuildJob _ _ _) = 6"
| "moves_left (PublishJob _ _) = 5"
| "moves_left (NoteOk _ _) = 4"
| "moves_left (ClearError _ _) = 3"
| "moves_left (PushJob _ _) = 2"
| "moves_left (SendJob _ _) = 1"
| "moves_left _ = 0"

lemma move_leaves_fewer:
  "refresh_move C millis io pc e = (pc', e', effs) \<Longrightarrow> moves_left pc' \<le> moves_left pc - 1"
  by (cases pc) (auto simp: Let_def split: option.splits prod.splits outcome.splits)

lemma moves_left_zero: "moves_left pc = 0 \<longleftrightarrow> pc = Refreshed \<or> pc = RefreshPanicked"
  by (cases pc) simp_all

lemma loop_goes_on_pc:
  "loop_pc_of l \<noteq> None \<Longrightarrow> pc \<noteq> Refreshed \<Longrightarrow> pc \<noteq> RefreshPanicked \<Longrightarrow> loop_pc_of (loop_goes_on l pc) = Some pc"
  by (cases l; cases pc) simp_all

lemma loop_returns_to_select:
  "loop_pc_of (tp_loop s) = Some pc \<Longrightarrow> moves_left pc \<le> n \<Longrightarrow>
     \<exists>k s'. k \<le> Suc n \<and> tip_run W C millis ms (map (\<lambda>i. LoopMoves (io i) (now i)) [j..<j + k]) s = Some s'
          \<and> tp_loop s' \<in> {AtSelect, LoopPanicked}"
proof (induction n arbitrary: pc s j)
  case (0 pc s j)
  obtain pc' e' effs where m: "refresh_move C millis (io j) pc (tp_engine s) = (pc', e', effs)" using prod_cases3 by blast
  have "pc' = Refreshed \<or> pc' = RefreshPanicked"
    using move_leaves_fewer [OF m] 0(2) by (simp add: moves_left_zero)
  then have "\<exists>s'. tip_run W C millis ms (map (\<lambda>i. LoopMoves (io i) (now i)) [j..<j + 1]) s = Some s'
      \<and> tp_loop s' \<in> {AtSelect, LoopPanicked}"
    using 0(1) m by (auto simp: loop_moves_def)
  then show ?case by (intro exI [of _ 1]) simp
next
  case (Suc n pc s j)
  obtain pc' e' effs where m: "refresh_move C millis (io j) pc (tp_engine s) = (pc', e', effs)" using prod_cases3 by blast
  obtain s1 where s1: "loop_moves C millis (io j) (now j) s = Some s1" "tp_loop s1 = loop_goes_on (tp_loop s) pc'"
    using Suc.prems(1) m by (auto simp: loop_moves_def)
  show ?case
  proof (cases "pc' = Refreshed \<or> pc' = RefreshPanicked")
    case True
    then have "\<exists>s'. tip_run W C millis ms (map (\<lambda>i. LoopMoves (io i) (now i)) [j..<j + 1]) s = Some s'
        \<and> tp_loop s' \<in> {AtSelect, LoopPanicked}"
      using s1 by auto
    then show ?thesis by (intro exI [of _ 1]) simp
  next
    case False
    then have pc1: "loop_pc_of (tp_loop s1) = Some pc'" using s1(2) Suc.prems(1) loop_goes_on_pc by auto
    have "moves_left pc' \<le> n" using move_leaves_fewer [OF m] Suc.prems(2) by simp
    from Suc.IH [OF pc1 this, of "Suc j"] obtain k s' where k: "k \<le> Suc n"
      "tip_run W C millis ms (map (\<lambda>i. LoopMoves (io i) (now i)) [Suc j..<Suc j + k]) s1 = Some s'"
      "tp_loop s' \<in> {AtSelect, LoopPanicked}" by blast
    have "[j..<j + Suc k] = j # [Suc j..<Suc j + k]" by (simp add: upt_conv_Cons del: upt_Suc)
    then show ?thesis using k s1(1) by (intro exI [of _ "Suc k"]) (simp del: upt_Suc)
  qed
qed

section \<open>Signals\<close>

text \<open>
  C12: No signal of a moved tip is lost, however many arrive while the engine is busy: once the loop
  waits again and nothing is unseen on the channel, the loop has begun a refresh that asks for a
  clean job after the signal. The loop itself is never ended by the channel, since the listener
  keeps a sender for ever.
\<close>

theorem no_tip_signal_is_lost:
  assumes "watch_ok W"
    and "tip_run W C millis ms before (zmq_start W poll_fallback e) = Some s0"
    and "tip_signal ms s0 signal"
    and "tip_run W C millis ms (signal # after) s0 = Some s"
    and "tp_loop s = AtSelect" and "\<not> wc_changed W (tp_watch s)"
  shows "\<exists>mid rest s1. after = mid @ BlockSeen # rest
           \<and> tip_run W C millis ms (before @ signal # mid @ [BlockSeen]) (zmq_start W poll_fallback e) = Some s1
           \<and> tp_loop s1 = OnBlock (ReadAddress True)"
proof -
  obtain sa where sa: "tip_step W C millis ms signal s0 = Some sa" "tip_run W C millis ms after sa = Some s"
    using assms(4) by (auto split: option.splits)
  have "BlockSeen \<in> set after"
    using marked.run_keeps [OF _ _ sa(2)] signal_marks_channel [OF assms(1) sa(1) assms(3)] assms(1,6)
    by (auto simp: list_all_iff)
  then obtain mid rest where after: "after = mid @ BlockSeen # rest" using split_list by fast
  obtain sb where sb: "tip_run W C millis ms mid sa = Some sb" "tip_run W C millis ms (BlockSeen # rest) sb = Some s"
    using sa(2) by (auto simp: after run_steps_append split: option.splits)
  obtain s1 where s1: "block_seen W sb = Some s1" using sb(2) by (auto split: option.splits)
  have "tip_run W C millis ms (before @ signal # mid @ [BlockSeen]) (zmq_start W poll_fallback e) = Some s1"
    using assms(2) sa(1) sb(1) s1 by (simp add: run_steps_append)
  moreover have "tp_loop s1 = OnBlock (ReadAddress True)" using s1 by (auto simp: block_seen_def split: if_splits)
  ultimately show ?thesis using after by blast
qed

text \<open>
  The loop is never ended by the channel, and from wherever it stands it is back at its select
  after at most nine moves of its own, unless a refresh panicked.
\<close>

lemma engine_loop_keeps_running:
  assumes "tip_run W C millis ms evs (zmq_start W poll_fallback e) = Some s"
  shows "tp_loop s \<noteq> LoopEnded
     \<and> (tp_loop s \<in> {AtSelect, LoopPanicked}
        \<or> (\<exists>k s'. k \<le> 9 \<and> tip_run W C millis ms (map (\<lambda>i. LoopMoves (io i) (now i)) [0..<k]) s = Some s'
              \<and> tp_loop s' \<in> {AtSelect, LoopPanicked}))"
proof -
  have l: "tp_loop s \<noteq> LoopEnded" using running.run_keeps [OF _ _ assms] by (simp add: zmq_start_def list_all_iff)
  show ?thesis
  proof (cases "loop_pc_of (tp_loop s)")
    case None
    then show ?thesis using l by (cases "tp_loop s") auto
  next
    case (Some pc)
    have "moves_left pc \<le> 8" by (cases pc) simp_all
    then show ?thesis using loop_returns_to_select [OF Some, of 8 W C millis ms io now 0] l by auto
  qed
qed

subsection \<open>Instances\<close>

text \<open>A channel as a value and whether it is unseen.\<close>

definition sample_watch :: "(u64 \<times> bool) watch_channel" where
  "sample_watch = \<lparr>wc_new = \<lambda>v. (v, False), wc_send = \<lambda>v _. (v, True), wc_changed = snd,
     wc_mark_seen = \<lambda>(v, _). (v, False)\<rparr>"

lemma sample_watch_ok: "watch_ok sample_watch"
  by (simp add: watch_ok_def sample_watch_def)

definition sample_unpaid :: template_engine where
  "sample_unpaid = TemplateEngine_new sample_rpc sample_pool_config
     \<lparr>rs_network = ''mainnet'', rs_state = \<lparr>as_address = '''', as_valid = False\<rparr>\<rparr> 7"

definition sample_refresh_io :: refresh_io where
  "sample_refresh_io = \<lparr>ri_view = sample_view, ri_ok_at = 1, ri_created_at = 2\<rparr>"

theorem no_signal_lost_witness:
  "\<exists>mid rest s1. [PollTurn 9 (Some ''b'') 9, LoopMoves sample_refresh_io 10, BlockSeen, LoopMoves sample_refresh_io 11]
         = mid @ BlockSeen # rest
     \<and> tip_run sample_watch sample_crates 5 1000 ([] @ PollTurn 8 (Some ''a'') 8 # mid @ [BlockSeen])
         (zmq_start sample_watch True sample_unpaid) = Some s1
     \<and> tp_loop s1 = OnBlock (ReadAddress True)"
proof -
  let ?W = sample_watch and ?after = "[PollTurn 9 (Some ''b'') 9, LoopMoves sample_refresh_io 10, BlockSeen,
    LoopMoves sample_refresh_io 11]"
  define s0 where "s0 = zmq_start ?W True sample_unpaid"
  have v: "valid_coinbase_address (en_settings (sample_unpaid\<lparr>en_last_template_error := x\<rparr>)) = None"
    "valid_coinbase_address (en_settings sample_unpaid) = None" for x
    by (simp_all add: sample_unpaid_def TemplateEngine_new_def valid_coinbase_address_def)
  have "\<exists>s. tip_run ?W sample_crates 5 1000 (PollTurn 8 (Some ''a'') 8 # ?after) s0 = Some s
      \<and> tp_loop s = AtSelect \<and> \<not> wc_changed ?W (tp_watch s)"
    by (simp add: s0_def zmq_start_def tip_defs Let_def poll_step_def judge_zmq_def poll_start_def
        zmq_verdict_of_def poll_slack_secs_def sample_watch_def v note_template_failure_def)
  then obtain s where s: "tip_run ?W sample_crates 5 1000 (PollTurn 8 (Some ''a'') 8 # ?after) s0 = Some s"
    "tp_loop s = AtSelect" "\<not> wc_changed ?W (tp_watch s)" by blast
  have r0: "tip_run ?W sample_crates 5 1000 [] (zmq_start ?W True sample_unpaid) = Some s0" by (simp add: s0_def)
  have sig: "tip_signal 1000 s0 (PollTurn 8 (Some ''a'') 8)" by (simp add: s0_def zmq_start_def poll_start_def)
  show ?thesis by (rule no_tip_signal_is_lost [OF sample_watch_ok r0 sig s])
qed

section \<open>Overlapping refreshes\<close>

text \<open>
  The jobs in the order in which they became the current job, with the flag each carries from
  then on. \<open>publishes\<close> is what one move adds to it, \<open>publications\<close> what a run adds.
\<close>

fun publishes :: "refresh_pc \<Rightarrow> template_engine \<Rightarrow> (stratum_job \<times> bool) list" where
  "publishes (PublishJob clean job) e =
     [(job, clean \<or> tip_moved (map_option j_prev_hash (en_current_job e)) (j_prev_hash job))]"
| "publishes _ e = []"

fun event_publishes :: "tip_event \<Rightarrow> 'w tips \<Rightarrow> (stratum_job \<times> bool) list" where
  "event_publishes (LoopMoves io now) s =
     (case loop_pc_of (tp_loop s) of None \<Rightarrow> [] | Some pc \<Rightarrow> publishes pc (tp_engine s))"
| "event_publishes (ForcedMoves i io) s =
     (if i < length (tp_forced s) then publishes (tp_forced s ! i) (tp_engine s) else [])"
| "event_publishes _ s = []"

fun publications ::
  "'w watch_channel \<Rightarrow> crates \<Rightarrow> u64 \<Rightarrow> u64 \<Rightarrow> tip_event list \<Rightarrow> 'w tips \<Rightarrow> (stratum_job \<times> bool) list" where
  "publications W C millis ms [] s = []"
| "publications W C millis ms (ev # evs) s =
     event_publishes ev s
     @ (case tip_step W C millis ms ev s of None \<Rightarrow> [] | Some s1 \<Rightarrow> publications W C millis ms evs s1)"

text \<open>Published and not yet broadcast.\<close>

fun in_hand :: "refresh_pc \<Rightarrow> (stratum_job \<times> bool) multiset" where
  "in_hand (NoteOk clean job) = {#(job, clean)#}"
| "in_hand (ClearError clean job) = {#(job, clean)#}"
| "in_hand (PushJob clean job) = {#(job, clean)#}"
| "in_hand (SendJob clean job) = {#(job, clean)#}"
| "in_hand _ = {#}"

definition loop_in_hand :: "loop_pc \<Rightarrow> (stratum_job \<times> bool) multiset" where
  "loop_in_hand l = (case loop_pc_of l of None \<Rightarrow> {#} | Some pc \<Rightarrow> in_hand pc)"

definition all_in_hand :: "'w tips \<Rightarrow> (stratum_job \<times> bool) multiset" where
  "all_in_hand s = loop_in_hand (tp_loop s) + sum_list (map in_hand (tp_forced s))"

fun broadcasts :: "tip_effect list \<Rightarrow> (stratum_job \<times> bool) list" where
  "broadcasts [] = []"
| "broadcasts (EngineEffect (Broadcast b) # effs) = (jb_job b, jb_clean b) # broadcasts effs"
| "broadcasts (_ # effs) = broadcasts effs"

lemma broadcasts_append [simp]: "broadcasts (xs @ ys) = broadcasts xs @ broadcasts ys"
  by (induction xs rule: broadcasts.induct) simp_all

lemma broadcasts_stats [simp]: "broadcasts (map EngineEffect (publish_template_stats job)) = []"
  by (simp add: publish_template_stats_def split: outcome.split)

lemma sum_list_in_hand_update:
  "i < length xs \<Longrightarrow>
     sum_list (map in_hand (xs[i := y])) + in_hand (xs ! i) = sum_list (map in_hand xs) + in_hand y"
  by (induction xs arbitrary: i) (auto simp: less_Suc_eq_0_disj ac_simps)

lemma loop_in_hand_goes_on:
  "loop_pc_of l = Some pc \<Longrightarrow> loop_in_hand (loop_goes_on l pc') = in_hand pc'"
  by (cases l; cases pc') (simp_all add: loop_in_hand_def)

text \<open>One move accounts for the job it holds.\<close>

lemma move_accounts:
  assumes "refresh_move C millis io pc e = (pc', e', effs)"
  shows "mset (broadcasts (map EngineEffect effs)) + in_hand pc' = in_hand pc + mset (publishes pc e)"
  using assms by (cases pc) (auto simp: Let_def split: option.splits prod.splits outcome.splits)

text \<open>
  The published jobs: the first is clean, and so is each that builds on another block than the
  job before it.
\<close>

definition announces_tips :: "(stratum_job \<times> bool) list \<Rightarrow> bool" where
  "announces_tips P \<longleftrightarrow> (P \<noteq> [] \<longrightarrow> snd (hd P))
     \<and> successively (\<lambda>x y. snd y \<or> j_prev_hash (fst x) = j_prev_hash (fst y)) P"

definition job_pays :: "crates \<Rightarrow> pool_config \<Rightarrow> string \<Rightarrow> stratum_job \<Rightarrow> bool" where
  "job_pays C cfg network job \<longleftrightarrow> (\<exists>millis counter gbt address.
     fst (build_job C millis counter gbt address (str_bytes (pc_coinbase_tag cfg))
            (pc_extranonce1_size cfg) (pc_extranonce2_size cfg)) = Ok job
     \<and> validate_address C address network = Ok ())"

lemma job_paysI:
  "build_job C millis counter gbt address (str_bytes (pc_coinbase_tag cfg)) (pc_extranonce1_size cfg)
     (pc_extranonce2_size cfg) = (Ok job, counter') \<Longrightarrow> validate_address C address network = Ok ()
   \<Longrightarrow> job_pays C cfg network job"
  unfolding job_pays_def by (metis fst_conv)

fun pc_pays :: "crates \<Rightarrow> pool_config \<Rightarrow> string \<Rightarrow> refresh_pc \<Rightarrow> bool" where
  "pc_pays C cfg network (AskNode clean address) \<longleftrightarrow> validate_address C address network = Ok ()"
| "pc_pays C cfg network (BuildJob clean address gbt) \<longleftrightarrow> validate_address C address network = Ok ()"
| "pc_pays C cfg network (PublishJob clean job) \<longleftrightarrow> job_pays C cfg network job"
| "pc_pays C cfg network _ \<longleftrightarrow> True"

text \<open>What holds of the engine under overlapping refreshes, given the jobs published so far.\<close>

definition overlap_ok :: "crates \<Rightarrow> pool_config \<Rightarrow> string \<Rightarrow> (stratum_job \<times> bool) list \<Rightarrow> template_engine \<Rightarrow> bool" where
  "overlap_ok C cfg network P e \<longleftrightarrow>
     en_pool_cfg e = cfg \<and> settings_ok C (en_settings e) \<and> rs_network (en_settings e) = network
     \<and> length (en_job_history e) \<le> JOB_HISTORY_DEPTH
     \<and> list_all (\<lambda>h. (je_job h, je_clean h) \<in> set P) (en_job_history e)
     \<and> en_current_job e = (if P = [] then None else Some (fst (last P)))
     \<and> announces_tips P \<and> list_all (\<lambda>x. job_pays C cfg network (fst x)) P"

lemma announces_tips_snoc:
  assumes "announces_tips P"
    and "c \<or> (P \<noteq> [] \<and> j_prev_hash (fst (last P)) = j_prev_hash job)"
  shows "announces_tips (P @ [(job, c)])"
  using assms by (cases "P = []") (auto simp: announces_tips_def successively_append_iff)

lemma move_overlap_ok:
  assumes ok: "overlap_ok C cfg network P e" and pays: "pc_pays C cfg network pc"
    and held: "set_mset (in_hand pc) \<subseteq> set P"
    and move: "refresh_move C millis io pc e = (pc', e', effs)"
  shows "overlap_ok C cfg network (P @ publishes pc e) e' \<and> pc_pays C cfg network pc'"
proof (cases pc)
  case (PublishJob clean job)
  define c where "c = (clean \<or> tip_moved (map_option j_prev_hash (en_current_job e)) (j_prev_hash job))"
  have "announces_tips (P @ [(job, c)])"
    using ok by (intro announces_tips_snoc) (auto simp: overlap_ok_def c_def tip_moved_def split: if_splits)
  moreover have "list_all (\<lambda>h. (je_job h, je_clean h) \<in> set (P @ [(job, c)])) (en_job_history e)"
    using ok by (auto simp: overlap_ok_def list_all_iff)
  moreover have "e' = e\<lparr>en_current_job := Some job\<rparr>" "pc' = NoteOk c job" "publishes pc e = [(job, c)]"
    using move PublishJob by (auto simp: Let_def c_def)
  ultimately show ?thesis using ok pays PublishJob by (simp add: overlap_ok_def)
next
  case (ReadAddress clean)
  then show ?thesis
    using move ok valid_coinbase_address_validates [of C "en_settings e"]
    by (auto simp: overlap_ok_def note_template_failure_def split: option.splits)
next
  case (BuildJob clean address gbt)
  then show ?thesis
    using move ok pays
    by (auto simp: overlap_ok_def note_template_failure_def Let_def intro: job_paysI
        split: prod.splits outcome.splits)
next
  case (PushJob clean job)
  define h where "h = \<lparr>je_job = job, je_created_at = ri_created_at io, je_clean = clean, je_superseded_by_clean = False\<rparr>"
  have "e' = e\<lparr>en_job_history := push_history h (en_job_history e)\<rparr>" "pc' = SendJob clean job" "publishes pc e = []"
    using move PushJob by (auto simp: h_def)
  moreover have "(je_job h, je_clean h) \<in> set P" using held PushJob by (simp add: h_def)
  ultimately show ?thesis
    using ok length_push_history [of "en_job_history e" h]
    by (auto simp: overlap_ok_def JOB_HISTORY_DEPTH_def intro: list_all_push_history)
qed (use move ok pays in \<open>auto simp: overlap_ok_def note_template_failure_def Let_def split: prod.splits outcome.splits\<close>)

definition tips_ok :: "crates \<Rightarrow> pool_config \<Rightarrow> string \<Rightarrow> (stratum_job \<times> bool) list \<Rightarrow> 'w tips \<Rightarrow> bool" where
  "tips_ok C cfg network P s \<longleftrightarrow>
     overlap_ok C cfg network P (tp_engine s)
     \<and> (case loop_pc_of (tp_loop s) of None \<Rightarrow> True | Some pc \<Rightarrow> pc_pays C cfg network pc)
     \<and> list_all (pc_pays C cfg network) (tp_forced s)
     \<and> mset (broadcasts (tp_out s)) + all_in_hand s = mset P"

lemma loop_move_ok:
  assumes ok: "tips_ok C cfg network P s" and pc: "loop_pc_of (tp_loop s) = Some pc"
    and move: "refresh_move C millis io pc (tp_engine s) = (pc', e', effs)"
  shows "tips_ok C cfg network (P @ publishes pc (tp_engine s))
     (s\<lparr>tp_engine := e', tp_loop := loop_goes_on (tp_loop s) pc', tp_next_tick := t,
        tp_out := tp_out s @ map EngineEffect effs\<rparr>)"
proof -
  have p: "mset P = mset (broadcasts (tp_out s)) + (in_hand pc + sum_list (map in_hand (tp_forced s)))"
    using ok pc by (simp add: tips_ok_def all_in_hand_def loop_in_hand_def)
  then have "set_mset (in_hand pc) \<subseteq> set P" by (metis Un_iff set_mset_mset set_mset_union subsetI)
  then have m: "overlap_ok C cfg network (P @ publishes pc (tp_engine s)) e'" "pc_pays C cfg network pc'"
    using move_overlap_ok [OF _ _ _ move, of cfg network P] ok pc by (simp_all add: tips_ok_def)
  have l: "case loop_pc_of (loop_goes_on (tp_loop s) pc') of None \<Rightarrow> True | Some pc \<Rightarrow> pc_pays C cfg network pc"
    using pc m(2) by (cases "tp_loop s"; cases pc') auto
  have "mset (broadcasts (map EngineEffect effs)) + in_hand pc' = in_hand pc + mset (publishes pc (tp_engine s))"
    by (rule move_accounts [OF move])
  then have "mset (broadcasts (tp_out s)) + mset (broadcasts (map EngineEffect effs)) + (in_hand pc' + sum_list (map in_hand (tp_forced s)))
      = mset P + mset (publishes pc (tp_engine s))"
    by (simp add: p ac_simps)
  then show ?thesis
    using m l ok pc by (simp add: tips_ok_def all_in_hand_def loop_in_hand_goes_on)
qed

lemma set_mset_in_hand: "set_mset (sum_list (map in_hand xs)) = (\<Union>pc\<in>set xs. set_mset (in_hand pc))"
  by (induction xs) simp_all

lemma forced_move_ok:
  assumes ok: "tips_ok C cfg network P s" and i: "i < length (tp_forced s)"
    and move: "refresh_move C millis io (tp_forced s ! i) (tp_engine s) = (pc', e', effs)"
  shows "tips_ok C cfg network (P @ publishes (tp_forced s ! i) (tp_engine s))
     (s\<lparr>tp_engine := e', tp_forced := (tp_forced s)[i := pc'], tp_out := tp_out s @ map EngineEffect effs\<rparr>)"
proof -
  let ?pc = "tp_forced s ! i" and ?held = "\<lambda>xs. sum_list (map in_hand xs)"
  have p: "mset P = mset (broadcasts (tp_out s)) + (loop_in_hand (tp_loop s) + ?held (tp_forced s))"
    using ok by (simp add: tips_ok_def all_in_hand_def)
  have u: "?held ((tp_forced s)[i := pc']) + in_hand ?pc = ?held (tp_forced s) + in_hand pc'"
    by (rule sum_list_in_hand_update [OF i])
  have "set P = set_mset (mset P)" by simp
  then have held: "set_mset (in_hand ?pc) \<subseteq> set P"
    using i unfolding p by (auto simp: set_mset_in_hand)
  have m: "overlap_ok C cfg network (P @ publishes ?pc (tp_engine s)) e'" "pc_pays C cfg network pc'"
    using move_overlap_ok [OF _ _ held move, of cfg network] ok i by (simp_all add: tips_ok_def list_all_length)
  have f: "list_all (pc_pays C cfg network) ((tp_forced s)[i := pc'])"
    using ok m(2) i by (auto simp: tips_ok_def list_all_iff dest!: set_update_subset_insert [THEN subsetD])
  have a: "mset (broadcasts (map EngineEffect effs)) + in_hand pc' = in_hand ?pc + mset (publishes ?pc (tp_engine s))"
    by (rule move_accounts [OF move])
  have "mset (broadcasts (tp_out s)) + mset (broadcasts (map EngineEffect effs))
        + (loop_in_hand (tp_loop s) + ?held ((tp_forced s)[i := pc'])) + (in_hand ?pc + in_hand pc')
      = mset P + mset (publishes ?pc (tp_engine s)) + (in_hand ?pc + in_hand pc')"
    using a u p by (simp add: ac_simps)
  then show ?thesis using m f ok by (simp add: tips_ok_def all_in_hand_def)
qed

lemma engine_step_overlap_ok:
  assumes "overlap_ok C cfg network P e"
  shows "overlap_ok C cfg network P (engine_step C millis (ChangeSettings a) e)"
    and "overlap_ok C cfg network P (engine_step C millis (Found views height hash_hex block_text worker) e)"
  using assms settings_step_ok [of C "en_settings e" a]
  by (simp_all add: engine_step_def overlap_ok_def submit_found_block_engine del: upt_Suc)

lemma tip_step_ok:
  assumes ok: "tips_ok C cfg network P s" and step: "tip_step W C millis ms ev s = Some s'"
  shows "tips_ok C cfg network (P @ event_publishes ev s) s'"
proof (cases ev)
  case (LoopMoves io now)
  then obtain pc where pc: "loop_pc_of (tp_loop s) = Some pc" using step by (auto simp: loop_moves_def split: option.splits)
  obtain pc' e' effs where m: "refresh_move C millis io pc (tp_engine s) = (pc', e', effs)" using prod_cases3 by blast
  show ?thesis using loop_move_ok [OF ok pc m] step LoopMoves pc m by (auto simp: loop_moves_def)
next
  case (ForcedMoves i io)
  then have i: "i < length (tp_forced s)" using step by (auto simp: forced_moves_def split: if_splits)
  obtain pc' e' effs where m: "refresh_move C millis io (tp_forced s ! i) (tp_engine s) = (pc', e', effs)"
    using prod_cases3 by blast
  show ?thesis using forced_move_ok [OF ok i m] step ForcedMoves i m by (auto simp: forced_moves_def)
qed (use ok step engine_step_overlap_ok [of C cfg network P "tp_engine s"] in
      \<open>auto simp: tips_ok_def tip_defs all_in_hand_def loop_in_hand_def Let_def
         split: if_splits option.splits prod.splits\<close>)

lemma tip_run_ok:
  "tips_ok C cfg network P s \<Longrightarrow> tip_run W C millis ms evs s = Some s'
     \<Longrightarrow> tips_ok C cfg network (P @ publications W C millis ms evs s) s'"
proof (induction evs arbitrary: P s)
  case (Cons ev evs)
  then obtain s1 where s1: "tip_step W C millis ms ev s = Some s1" "tip_run W C millis ms evs s1 = Some s'"
    by (auto split: option.splits)
  show ?case using Cons.IH [OF tip_step_ok [OF Cons.prems(1) s1(1)] s1(2)] s1(1) by simp
qed simp

lemma zmq_start_ok:
  "Settings_new C cfg chain = Ok st \<Longrightarrow>
     tips_ok C cfg (rs_network st) [] (zmq_start W poll_fallback (TemplateEngine_new rpc cfg st counter))"
  by (simp add: tips_ok_def overlap_ok_def zmq_start_def TemplateEngine_new_def Settings_new_ok
      announces_tips_def all_in_hand_def loop_in_hand_def)

text \<open>
  C11: However refreshes of the loop and of the dashboard overlap, with settings changes and
  submissions in between: the first job that becomes the current one, and every one that builds on
  another block than the job it replaces, is broadcast as a clean job; every job that became
  current is broadcast exactly once with the flag it is filed under in the history; the history
  has at most eight entries; and every job pays an address validated for the chain of the node.
\<close>

theorem tip_changes_are_announced_clean:
  assumes "Settings_new C cfg chain = Ok st"
    and "start = zmq_start W poll_fallback (TemplateEngine_new rpc cfg st counter)"
    and "tip_run W C millis ms evs start = Some s" and "all_in_hand s = {#}"
    and "P = publications W C millis ms evs start"
  shows "mset (broadcasts (tp_out s)) = mset P
     \<and> (P \<noteq> [] \<longrightarrow> (fst (hd P), True) \<in> set (broadcasts (tp_out s)))
     \<and> (\<forall>i. Suc i < length P \<longrightarrow> j_prev_hash (fst (P ! i)) \<noteq> j_prev_hash (fst (P ! Suc i))
            \<longrightarrow> (fst (P ! Suc i), True) \<in> set (broadcasts (tp_out s)))
     \<and> en_current_job (tp_engine s) = (if P = [] then None else Some (fst (last P)))
     \<and> length (en_job_history (tp_engine s)) \<le> 8
     \<and> (\<forall>h \<in> set (en_job_history (tp_engine s)). (je_job h, je_clean h) \<in> set (broadcasts (tp_out s)))
     \<and> (\<forall>x \<in> set P. job_pays C cfg (rs_network st) (fst x))"
proof -
  have ok: "tips_ok C cfg (rs_network st) P s"
    using tip_run_ok [OF zmq_start_ok [OF assms(1)] assms(3) [unfolded assms(2)]] assms(2,5) by simp
  then have m: "mset (broadcasts (tp_out s)) = mset P" using assms(4) by (simp add: tips_ok_def)
  have b: "set (broadcasts (tp_out s)) = set P" by (rule mset_eq_setD [OF m])
  have o: "overlap_ok C cfg (rs_network st) P (tp_engine s)" using ok by (simp add: tips_ok_def)
  then have a: "announces_tips P" by (simp add: overlap_ok_def)
  have first: "(fst (hd P), True) \<in> set P" if "P \<noteq> []"
    using a that by (cases P; cases "hd P") (auto simp: announces_tips_def)
  have later: "(fst (P ! Suc i), True) \<in> set P"
    if "Suc i < length P" "j_prev_hash (fst (P ! i)) \<noteq> j_prev_hash (fst (P ! Suc i))" for i
  proof -
    have "snd (P ! Suc i)" using a that by (auto simp: announces_tips_def successively_conv_nth)
    then show ?thesis using that(1) by (metis nth_mem prod.collapse)
  qed
  show ?thesis
    using m first later o by (auto simp: b overlap_ok_def JOB_HISTORY_DEPTH_def list_all_iff)
qed

text \<open>
  What the lock around the current job does not give: two refreshes can file and broadcast their
  jobs in the other order than they published them. Then the last job the miners are sent, marked
  clean, builds on the old block, although the current job does not, and the history takes it
  for live.
\<close>

lemma overlapping_refreshes_can_cross:
  fixes s :: "'w tips"
  assumes "tp_loop s = OnBlock (PublishJob True new)" and "tp_forced s = [PublishJob True old]"
    and "j_prev_hash old \<noteq> j_prev_hash new" and "j_job_id old \<noteq> j_job_id new"
    and "en_job_history (tp_engine s) = []"
  shows "\<exists>evs s'. tip_run W C millis ms evs s = Some s' \<and> all_in_hand s' = {#}
     \<and> en_current_job (tp_engine s') = Some new \<and> last (broadcasts (tp_out s')) = (old, True)
     \<and> (\<exists>entry. find_job (j_job_id old) (tp_engine s') = Some entry \<and> \<not> je_superseded_by_clean entry)"
proof -
  define io where "io = \<lparr>ri_view = sample_view, ri_ok_at = 0, ri_created_at = 0\<rparr>"
  define evs where "evs = [ForcedMoves 0 io] @ replicate 5 (LoopMoves io 0) @ replicate 4 (ForcedMoves 0 io)"
  show ?thesis
    apply (rule exI [of _ evs])
    using assms
    by (simp add: evs_def numeral_eq_Suc loop_moves_def forced_moves_def all_in_hand_def loop_in_hand_def
        find_job_def push_history_def JOB_HISTORY_DEPTH_def nth_opt_def)
qed

theorem tip_announcement_witness:
  "\<exists>job s. tip_run sample_watch sample_crates 5 1000 (replicate 8 (LoopMoves sample_refresh_io 9))
          (zmq_start sample_watch True sample_engine) = Some s
     \<and> publications sample_watch sample_crates 5 1000 (replicate 8 (LoopMoves sample_refresh_io 9))
          (zmq_start sample_watch True sample_engine) = [(job, True)]
     \<and> (job, True) \<in> set (broadcasts (tp_out s))"
proof -
  let ?start = "zmq_start sample_watch True sample_engine" and ?evs = "replicate 8 (LoopMoves sample_refresh_io 9)"
  obtain job where job: "fst (build_job sample_crates 5 7 sample_gbt ''bc1q'' sample_tag 4 8) = Ok job"
    using sample_job_built by blast
  obtain c where b: "build_job sample_crates 5 7 sample_gbt ''bc1q'' sample_tag 4 8 = (Ok job, c)"
    using job by (metis prod.collapse)
  have g: "get_block_template sample_crates (nv_url_ok sample_view) (nv_first sample_view) (nv_second sample_view)
      (nv_cookie_file sample_view) sample_rpc = (Ok sample_gbt, sample_rpc)"
    by (simp add: get_block_template_def call_with_refresh_def rpc_call_def sample_view_def parse_template_json)
  have ps: "pc_extranonce1_size sample_pool_config = 4" "pc_extranonce2_size sample_pool_config = 8"
    by (simp_all add: sample_pool_config_def)
  have r8: "?evs = [LoopMoves sample_refresh_io 9, LoopMoves sample_refresh_io 9, LoopMoves sample_refresh_io 9,
      LoopMoves sample_refresh_io 9, LoopMoves sample_refresh_io 9, LoopMoves sample_refresh_io 9,
      LoopMoves sample_refresh_io 9, LoopMoves sample_refresh_io 9]"
    by (simp add: numeral_eq_Suc)
  note run = zmq_start_def loop_moves_def Let_def TemplateEngine_new_def
    valid_coinbase_address_def sample_settings_def sample_refresh_io_def g sample_tag_bytes ps b tip_moved_def
    all_in_hand_def loop_in_hand_def
  have "\<exists>s. tip_run sample_watch sample_crates 5 1000 ?evs ?start = Some s \<and> all_in_hand s = {#}"
    unfolding r8 by (simp add: run)
  then obtain s where s: "tip_run sample_watch sample_crates 5 1000 ?evs ?start = Some s" "all_in_hand s = {#}" by blast
  have p: "publications sample_watch sample_crates 5 1000 ?evs ?start = [(job, True)]"
    unfolding r8 by (simp add: run)
  show ?thesis
    using tip_changes_are_announced_clean [OF sample_settings_new refl s refl] s(1) p by auto
qed

end
