(* ===== verification/Metrics.thy ===== *)
theory Metrics
  imports Loops Stats_History Zmq
begin

text \<open>
  \<^verbatim>\<open>src/src/metrics/mod.rs\<close>: what each call sends to the metrics registry, as a list of
  emissions: the series (name and labels) and the update. The registry itself, which drops a
  series nothing has touched for a day, is third-party code. Also the task of
  \<^verbatim>\<open>src/src/main.rs\<close> that refreshes the series every thirty seconds. The theorem shows that
  every pool-wide counter and gauge the pool can emit is touched by that task, so the day
  never passes for them, while a series labelled with a worker is refreshed only as long as
  the statistics know the worker.
\<close>

section \<open>Emissions\<close>

datatype metric_update = CounterAdd u64 | GaugeSet f64 | GaugeAdd f64 | Observe f64

type_synonym metric_series = "string \<times> (string \<times> string) list"
type_synonym emission = "metric_series \<times> metric_update"

definition METRIC_IDLE_TIMEOUT_SECS :: u64 where
  "METRIC_IDLE_TIMEOUT_SECS = 86400"

definition connection_refused :: "string \<Rightarrow> emission list" where
  "connection_refused reason = [((''pool_connections_refused_total'', [(''reason'', reason)]), CounterAdd 1)]"

definition metrics_ban :: "string \<Rightarrow> emission list" where
  "metrics_ban reason = [((''pool_bans_total'', [(''reason'', reason)]), CounterAdd 1)]"

definition metrics_miner_connected :: "emission list" where
  "metrics_miner_connected = [((''pool_connected_miners'', []), GaugeAdd (Fin 1))]"

definition metrics_miner_disconnected :: "emission list" where
  "metrics_miner_disconnected = [((''pool_connected_miners'', []), GaugeAdd (Fin (- 1)))]"

definition metrics_share_accepted :: "u64 \<Rightarrow> string \<Rightarrow> emission list" where
  "metrics_share_accepted difficulty worker =
     [((''pool_shares_accepted_total'', [(''worker'', worker)]), CounterAdd 1),
      ((''pool_share_work_total'', [(''worker'', worker)]), CounterAdd difficulty),
      ((''pool_share_difficulty'', [(''worker'', worker)]), Observe (f64_of_u64 difficulty))]"

definition metrics_share_rejected :: "string \<Rightarrow> string \<Rightarrow> emission list" where
  "metrics_share_rejected reason worker =
     [((''pool_shares_rejected_total'', [(''reason'', reason), (''worker'', worker)]), CounterAdd 1),
      ((''pool_worker_shares_rejected_total'', [(''worker'', worker)]), CounterAdd 1)]"

definition share_validation_time :: "nat \<Rightarrow> emission list" where
  "share_validation_time elapsed =
     [((''pool_share_validation_duration_ms'', []), Observe (f64_mul (as_secs_f64 elapsed) (Fin 1000))),
      ((''pool_share_validation_duration_seconds'', []), Observe (as_secs_f64 elapsed))]"

definition session_closed :: "string option \<Rightarrow> u64 \<Rightarrow> nat \<Rightarrow> emission list" where
  "session_closed worker shares_submitted elapsed =
     (let ended = (\<lambda>reason. ((''pool_connections_closed_total'', [(''reason'', reason)]), CounterAdd 1))
      in case worker of
           None \<Rightarrow> [ended ''no_auth'']
         | Some w \<Rightarrow>
             ((''pool_connection_duration_secs'', [(''worker'', w)]), Observe (as_secs_f64 elapsed))
             # (if shares_submitted = 0 then [ended ''no_shares'']
                else [ended ''shares'',
                      ((''pool_connection_duration_seconds'', [(''worker'', w)]), Observe (as_secs_f64 elapsed))]))"

definition miner_disconnect :: "string \<Rightarrow> string \<Rightarrow> emission list" where
  "miner_disconnect reason worker =
     [((''pool_miner_disconnects_total'', [(''reason'', reason), (''worker'', worker)]), CounterAdd 1)]"

definition block_submission_success :: "emission list" where
  "block_submission_success = [((''pool_block_submissions_success_total'', []), CounterAdd 1)]"

definition block_submission_failure :: "string \<Rightarrow> emission list" where
  "block_submission_failure reason =
     [((''pool_block_submissions_failed_total'', [(''reason'', reason)]), CounterAdd 1)]"

definition metrics_job_broadcast :: "nat \<Rightarrow> emission list" where
  "metrics_job_broadcast miners_count =
     [((''pool_job_broadcast_miners'', []), GaugeSet (mk_f64 (real miners_count))),
      ((''pool_job_broadcasts_total'', []), CounterAdd 1)]"

definition zmq_reconnect :: "emission list" where
  "zmq_reconnect = [((''pool_zmq_reconnects_total'', []), CounterAdd 1)]"

definition rpc_fallback_used :: "emission list" where
  "rpc_fallback_used = [((''pool_rpc_fallback_used_total'', []), CounterAdd 1)]"

definition metrics_vardiff_retarget :: "string \<Rightarrow> u64 \<Rightarrow> u64 \<Rightarrow> emission list" where
  "metrics_vardiff_retarget worker old_diff new_diff =
     (let ratio = f64_div (f64_of_u64 new_diff) (f64_of_u64 old_diff);
          direction = (if new_diff > old_diff then ''up'' else ''down'')
      in [((''pool_worker_difficulty'', [(''worker'', worker)]), GaugeSet (f64_of_u64 new_diff)),
          ((''pool_vardiff_change_ratio'', []), Observe ratio),
          ((''pool_vardiff_retarget_ratio'', []), Observe ratio),
          ((''pool_vardiff_retargets_total'', [(''worker'', worker), (''direction'', direction)]), CounterAdd 1)])"

definition metrics_block_found :: "emission list" where
  "metrics_block_found = [((''pool_blocks_found_total'', []), CounterAdd 1)]"

definition update_hashrate :: "f64 \<Rightarrow> string \<Rightarrow> emission list" where
  "update_hashrate hps worker = [((''pool_hashrate_estimated_hps'', [(''worker'', worker)]), GaugeSet hps)]"

definition update_job_height :: "u64 \<Rightarrow> emission list" where
  "update_job_height height = [((''pool_job_height'', []), GaugeSet (f64_of_u64 height))]"

definition keep_pool_series_alive :: "emission list" where
  "keep_pool_series_alive =
     map (\<lambda>name. ((name, []), CounterAdd 0))
       [''pool_blocks_found_total'', ''pool_block_submissions_success_total'', ''pool_job_broadcasts_total'',
        ''pool_zmq_reconnects_total'', ''pool_rpc_fallback_used_total'']
     @ map (\<lambda>reason. ((''pool_connections_refused_total'', [(''reason'', reason)]), CounterAdd 0))
       [''capacity'', ''banned'', ''rate_limit'']
     @ [((''pool_bans_total'', [(''reason'', ''message too large'')]), CounterAdd 0)]
     @ map (\<lambda>reason. ((''pool_connections_closed_total'', [(''reason'', reason)]), CounterAdd 0))
       [''no_auth'', ''no_shares'', ''shares'']
     @ map (\<lambda>reason. ((''pool_block_submissions_failed_total'', [(''reason'', reason)]), CounterAdd 0))
       [''rpc_error'', ''rejected'', ''template_unavailable'', ''io'', ''other'']
     @ map (\<lambda>name. ((name, []), GaugeAdd (Fin 0)))
       [''pool_connected_miners'', ''pool_job_height'', ''pool_job_broadcast_miners'']"

definition metrics_worker_liveness :: "string \<Rightarrow> bool \<Rightarrow> u64 \<Rightarrow> emission list" where
  "metrics_worker_liveness worker online last_share_ts =
     ((''pool_worker_online'', [(''worker'', worker)]), GaugeSet (Fin (if online then 1 else 0)))
     # (if last_share_ts > 0
        then [((''pool_worker_last_share_timestamp_seconds'', [(''worker'', worker)]), GaugeSet (f64_of_u64 last_share_ts))]
        else [])"

definition stats_store_ok :: "bool \<Rightarrow> emission list" where
  "stats_store_ok ok = [((''pool_stats_store_ok'', []), GaugeSet (Fin (if ok then 1 else 0)))]"

text \<open>\<open>init\<close>: without an address, or when the recorder cannot be installed, nothing is exported.\<close>

definition metrics_init :: "bool \<Rightarrow> string \<Rightarrow> bool" where
  "metrics_init installs addr = (addr \<noteq> [] \<and> installs)"

section \<open>Where the calls are made\<close>

fun refusal_label :: "refusal \<Rightarrow> string" where
  "refusal_label Capacity = ''capacity''"
| "refusal_label Banned = ''banned''"
| "refusal_label RateLimit = ''rate_limit''"

fun effect_emissions :: "session_effect \<Rightarrow> emission list" where
  "effect_emissions (MShareRejected reason worker) = metrics_share_rejected reason worker"
| "effect_emissions (MShareAccepted credited worker) = metrics_share_accepted credited worker"
| "effect_emissions MBlockFound = metrics_block_found"
| "effect_emissions MBlockSubmissionSuccess = block_submission_success"
| "effect_emissions (MBlockSubmissionFailure reason) = block_submission_failure reason"
| "effect_emissions (MVardiffRetarget worker old new) = metrics_vardiff_retarget worker old new"
| "effect_emissions _ = []"

fun call_emissions :: "loop_call \<Rightarrow> emission list" where
  "call_emissions (Session eff) = effect_emissions eff"
| "call_emissions MMinerConnected = metrics_miner_connected"
| "call_emissions MMinerDisconnected = metrics_miner_disconnected"
| "call_emissions (MMinerDisconnect reason worker) = miner_disconnect reason worker"
| "call_emissions (MUpdateHashrate hps worker) = update_hashrate hps worker"
| "call_emissions (MSessionClosed worker shares elapsed) = session_closed worker shares elapsed"
| "call_emissions (BanPeer reason) = metrics_ban reason"
| "call_emissions _ = []"

fun engine_emissions :: "nat \<Rightarrow> engine_effect \<Rightarrow> emission list" where
  "engine_emissions receivers (MetricJobHeight height) = update_job_height height"
| "engine_emissions receivers (Broadcast b) = metrics_job_broadcast receivers"
| "engine_emissions receivers _ = []"

fun resubmit_emissions :: "resubmit_effect \<Rightarrow> emission list" where
  "resubmit_emissions MetricBlockFound = metrics_block_found"
| "resubmit_emissions MetricSubmissionSuccess = block_submission_success"
| "resubmit_emissions _ = []"

text \<open>One tick of the task that keeps the exporter current.\<close>

definition prometheus_refresh :: "u64 \<Rightarrow> pool_stats \<Rightarrow> emission list" where
  "prometheus_refresh now p =
     concat (map (\<lambda>(worker, hps). update_hashrate hps worker) (offline_worker_hashrates_10m now p))
     @ concat (map (\<lambda>(worker, online, ts). metrics_worker_liveness worker online ts) (worker_liveness p))
     @ (if store_configured p then stats_store_ok (store_error p = None) else [])
     @ keep_pool_series_alive"

section \<open>The labels of a failed submission\<close>

definition failure_labels :: "string list" where
  "failure_labels = [''rpc_error'', ''rejected'', ''template_unavailable'', ''io'', ''other'']"

definition labelled :: "session_effect list \<Rightarrow> bool" where
  "labelled effs \<longleftrightarrow> (\<forall>l. MBlockSubmissionFailure l \<in> set effs \<longrightarrow> l \<in> set failure_labels)"

lemma submit_label: "submit_failure_label err \<in> set failure_labels"
  by (cases err) (simp_all add: failure_labels_def)

lemma settle_share_labelled: "settle_share C io i entry verdict e s = (res, s', e', effs) \<Longrightarrow> labelled effs"
  by (auto simp: settle_share_def Let_def split_beta labelled_def submit_label
      split: outcome.splits share_result.splits if_splits)

lemma handle_submit_labelled:
  assumes "handle_submit C io req params e s = (res, s', e', effs)"
  shows "labelled effs"
proof -
  have "labelled effs" if "settle_share C io i entry verdict e (s\<lparr>se_share_set := t\<rparr>) = (res, s', e', effs)" for i entry verdict t
    using settle_share_labelled [OF that] .
  then show ?thesis
    using assms by (auto simp: handle_submit_def Let_def split_beta labelled_def split: if_splits option.splits)
qed

lemma handle_authorize_labelled: "handle_authorize C io req params e s = (res, s', effs) \<Longrightarrow> labelled effs"
  by (auto simp: handle_authorize_def switch_worker_def Let_def split_beta labelled_def
      split: outcome.splits if_splits option.splits)

lemma dispatch_labelled:
  assumes "dispatch C io req msg e s = Ok (res, s', e', effs)"
  shows "labelled effs"
proof (cases msg)
  case (Authorize params)
  then have "handle_authorize C io req params e s = (res, s', effs)"
    using assms by (auto simp: dispatch_def split_beta prod_eq_iff)
  then show ?thesis by (rule handle_authorize_labelled)
next
  case (Submit params)
  then show ?thesis using assms handle_submit_labelled [of C io req params e s] by (auto simp: dispatch_def)
qed (use assms in \<open>auto simp: dispatch_def split_beta labelled_def\<close>)

lemma handle_line_labelled:
  assumes "handle_line C parse io line e s = Ok (res, s', e', effs)"
  shows "labelled effs"
  using assms dispatch_labelled [of C io _ _ e "s\<lparr>se_guard := _\<rparr>" res s' e' effs]
  by (auto simp: handle_line_def Let_def split_beta labelled_def split: if_splits option.splits outcome.splits)

lemma sv2_settle_labelled: "sv2_settle_share C io q entry verdict e s = (flw, s', e', sent, effs) \<Longrightarrow> labelled effs"
  by (auto simp: sv2_settle_share_def Let_def split_beta labelled_def submit_label
      split: outcome.splits share_result.splits if_splits)

lemma sv2_submit_labelled:
  assumes "sv2_handle_submit C K io payload e s = (flw, s', e', sent, effs)"
  shows "labelled effs"
proof -
  have "labelled effs" if "sv2_settle_share C io q entry verdict e (s\<lparr>s2_share_set := t\<rparr>) = (flw, s', e', sent, effs)"
    for q entry verdict t using sv2_settle_labelled [OF that] .
  then show ?thesis
    using assms by (auto simp: sv2_handle_submit_def Let_def split_beta labelled_def split: if_splits option.splits)
qed

lemma open_channel_labelled: "open_channel C io op gl s = Ok ((flw, s', sent, effs), gl') \<Longrightarrow> labelled effs"
  by (auto simp: open_channel_def sv2_leave_worker_def sv2_join_worker_def labelled_def Let_def split_beta
      split: if_splits option.splits)

lemma handle_message_labelled:
  assumes h: "handle_message C K io t payload e gl s = Ok ((flw, s', e', sent, effs), gl')"
  shows "labelled effs"
proof (rule handle_message_cases [of C K io t payload e gl s])
  fix g flw1 s1 sent1 effs1
  assume "handle_setup_connection K (ix_write io) payload (s\<lparr>s2_guard := g\<rparr>) = (flw1, s1, sent1, effs1)"
    "handle_message C K io t payload e gl s = Ok ((flw1, s1, e, sent1, effs1), gl)"
  then show ?thesis using h
    by (auto simp: handle_setup_connection_def setup_error_def labelled_def Let_def split_beta split: if_splits option.splits)
next
  fix g
  assume "\<And>flw s' e' sent effs gl'. handle_message C K io t payload e gl s = Ok ((flw, s', e', sent, effs), gl') \<Longrightarrow>
        handle_open_extended C K io payload gl (s\<lparr>s2_guard := g\<rparr>) = Ok ((flw, s', sent, effs), gl')"
  note o = this [OF h]
  show ?thesis
    by (rule handle_open_cases [of C K io payload gl "s\<lparr>s2_guard := g\<rparr>"])
      (use o open_channel_labelled [of C io _ gl "s\<lparr>s2_guard := g\<rparr>" flw s' sent effs gl'] in \<open>auto simp: labelled_def\<close>)
next
  fix g assume "handle_message C K io t payload e gl s =
      Ok (sv2_handle_submit C K io payload e (s\<lparr>s2_guard := g\<rparr>), gl)"
  then have "sv2_handle_submit C K io payload e (s\<lparr>s2_guard := g\<rparr>) = (flw, s', e', sent, effs)" using h by simp
  then show ?thesis by (rule sv2_submit_labelled)
qed (use h in \<open>auto simp: labelled_def\<close>)

section \<open>The labels of a loop's calls\<close>

definition calls_labelled :: "loop_call list \<Rightarrow> bool" where
  "calls_labelled calls \<longleftrightarrow> (\<forall>l. Session (MBlockSubmissionFailure l) \<in> set calls \<longrightarrow> l \<in> set failure_labels)
     \<and> (\<forall>r. BanPeer r \<in> set calls \<longrightarrow> r = ''message too large'')"

lemma hashrate_labelled: "calls_labelled (hashrate_calls lo w v)"
  by (simp add: hashrate_calls_def Let_def calls_labelled_def split: option.split)

lemma session_labelled: "labelled effs \<Longrightarrow> calls_labelled (map Session effs)"
  by (auto simp: calls_labelled_def labelled_def)

lemma labelled_append [simp]: "calls_labelled (a @ b) \<longleftrightarrow> calls_labelled a \<and> calls_labelled b"
  by (auto simp: calls_labelled_def)

lemma labelled_simple [simp]: "calls_labelled []" "calls_labelled [BanPeer ''message too large'']"
  "calls_labelled [MMinerDisconnect r w]"
  by (simp_all add: calls_labelled_def)

lemma v1_line_labelled: "v1_line C parse lo io line e c = (fin, c', e', sent, calls) \<Longrightarrow> calls_labelled calls"
  using handle_line_labelled [of C parse io line e "vc_session c"]
  by (auto simp: v1_line_def Let_def hashrate_labelled session_labelled
      split: outcome.splits prod.splits handle_result.splits if_splits option.splits)

lemma on_retarget_labelled: "on_retarget_timer now1 now2 now3 s = Ok (ms, s', effs) \<Longrightarrow> labelled effs"
  by (cases "check_retarget now1 now2 now3 (se_vardiff s)"; cases "se_worker s")
    (auto simp: on_retarget_timer_def Let_def split_beta labelled_def split: if_splits option.splits)

lemma v1_turn_labelled:
  assumes "v1_turn C parse lo arm e c = (fin, c', e', sent, calls)"
  shows "calls_labelled calls"
proof (cases arm)
  case (ReadCompleted io)
  then show ?thesis using assms v1_line_labelled [of C parse lo io _ e _ fin c' e' sent calls]
    by (auto simp: v1_inbound_def Let_def split: read_result.splits prod.splits option.splits)
next
  case (RetargetDue now1 now2 now3)
  then show ?thesis using assms on_retarget_labelled [of now1 now2 now3 "vc_session c"]
    by (auto simp: v1_retarget_def Let_def session_labelled split: outcome.splits prod.splits if_splits)
next
  case (JobArrived r)
  then show ?thesis using assms by (auto simp: v1_job_def Let_def split: job_recv.splits prod.splits if_splits)
qed (use assms in auto)

lemma v2_message_labelled: "v2_message C K lo io t payload e gl c = (fin, c', e', gl', sent, calls) \<Longrightarrow> calls_labelled calls"
  using handle_message_labelled [of C K io t payload e gl "wc_session c"]
  by (auto simp: v2_message_def Let_def hashrate_labelled session_labelled
      split: outcome.splits prod.splits flow.splits if_splits option.splits)

lemma sv2_retarget_labelled: "sv2_on_retarget_timer w now1 now2 now3 s = Ok (ok, s', sent, effs) \<Longrightarrow> labelled effs"
  by (cases "check_retarget now1 now2 now3 (s2_vardiff s)"; cases "s2_worker s")
    (auto simp: sv2_on_retarget_timer_def Let_def split_beta labelled_def split: if_splits option.splits)

lemma v2_turn_labelled:
  assumes "v2_turn C K lo arm e gl c = (fin, c', e', gl', sent, calls)"
  shows "calls_labelled calls"
proof (cases arm)
  case (FrameArrived io)
  then show ?thesis using assms v2_message_labelled [of C K lo io _ _ e gl _ fin c' e' gl' sent calls]
    by (auto simp: v2_inbound_def Let_def split: list.splits outcome.splits)
next
  case (TargetDue now1 now2 now3)
  then show ?thesis using assms sv2_retarget_labelled [of "lo_write lo" now1 now2 now3 "wc_session c"]
    by (auto simp: v2_retarget_def session_labelled split: outcome.splits prod.splits if_splits)
next
  case (JobPushed r)
  then show ?thesis using assms by (auto simp: v2_job_def Let_def split: job_recv.splits prod.splits if_splits)
qed (use assms in auto)

section \<open>Everything the pool emits\<close>

inductive pool_emits :: "crates \<Rightarrow> (string \<Rightarrow> stratum_request option) \<Rightarrow> sv2_codec \<Rightarrow> emission \<Rightarrow> bool"
  for C :: crates and parse :: "string \<Rightarrow> stratum_request option" and K :: sv2_codec where
  refused: "em \<in> set (connection_refused (refusal_label r)) \<Longrightarrow> pool_emits C parse K em"
| v1: "v1_turn C parse lo arm e c = (fin, c', e', sent, calls) \<Longrightarrow> call \<in> set calls \<Longrightarrow> em \<in> set (call_emissions call)
    \<Longrightarrow> pool_emits C parse K em"
| v2: "v2_turn C K lo arm2 e gl d = (fin, d', e', gl', sent2, calls) \<Longrightarrow> call \<in> set calls \<Longrightarrow> em \<in> set (call_emissions call)
    \<Longrightarrow> pool_emits C parse K em"
| v1_end: "call \<in> set (v1_finish now1 now2 c) \<Longrightarrow> em \<in> set (call_emissions call) \<Longrightarrow> pool_emits C parse K em"
| v2_end: "call \<in> set (v2_finish now1 now2 d) \<Longrightarrow> em \<in> set (call_emissions call) \<Longrightarrow> pool_emits C parse K em"
| connected: "em \<in> set metrics_miner_connected \<Longrightarrow> pool_emits C parse K em"
| validated: "em \<in> set (share_validation_time elapsed) \<Longrightarrow> pool_emits C parse K em"
| engine: "em \<in> set (engine_emissions receivers eff) \<Longrightarrow> pool_emits C parse K em"
| resubmit: "em \<in> set (resubmit_emissions reff) \<Longrightarrow> pool_emits C parse K em"
| zmq: "em \<in> set (zmq_reconnect @ rpc_fallback_used) \<Longrightarrow> pool_emits C parse K em"
| refresh: "em \<in> set (prometheus_refresh now p) \<Longrightarrow> pool_emits C parse K em"

fun pool_wide :: "emission \<Rightarrow> bool" where
  "pool_wide ((name, labels), u) \<longleftrightarrow> ''worker'' \<notin> fst ` set labels"

fun expires_on_silence :: "metric_update \<Rightarrow> bool" where
  "expires_on_silence (Observe _) = False"
| "expires_on_silence _ = True"

lemmas emission_defs = connection_refused_def metrics_ban_def metrics_miner_connected_def metrics_miner_disconnected_def
  metrics_share_accepted_def metrics_share_rejected_def share_validation_time_def miner_disconnect_def
  block_submission_success_def block_submission_failure_def metrics_job_broadcast_def zmq_reconnect_def
  rpc_fallback_used_def metrics_vardiff_retarget_def metrics_block_found_def update_hashrate_def update_job_height_def
  metrics_worker_liveness_def stats_store_ok_def

definition kept_series :: "metric_series set" where
  "kept_series = fst ` set keep_pool_series_alive"

lemma kept_simps:
  "kept_series = {(''pool_blocks_found_total'', []), (''pool_block_submissions_success_total'', []),
     (''pool_job_broadcasts_total'', []), (''pool_zmq_reconnects_total'', []), (''pool_rpc_fallback_used_total'', []),
     (''pool_bans_total'', [(''reason'', ''message too large'')]), (''pool_connected_miners'', []), (''pool_job_height'', []),
     (''pool_job_broadcast_miners'', [])}
     \<union> (\<lambda>r. (''pool_connections_refused_total'', [(''reason'', r)])) ` {''capacity'', ''banned'', ''rate_limit''}
     \<union> (\<lambda>r. (''pool_connections_closed_total'', [(''reason'', r)])) ` {''no_auth'', ''no_shares'', ''shares''}
     \<union> (\<lambda>r. (''pool_block_submissions_failed_total'', [(''reason'', r)])) ` set failure_labels"
  unfolding kept_series_def keep_pool_series_alive_def failure_labels_def by auto

text \<open>The series of an emission that must not be forgotten.\<close>

definition kept :: "emission \<Rightarrow> bool" where
  "kept em \<longleftrightarrow> (pool_wide em \<and> expires_on_silence (snd em) \<longrightarrow> fst em \<in> kept_series \<union> {(''pool_stats_store_ok'', [])})"

lemma kept_effect: "labelled [eff] \<Longrightarrow> em \<in> set (effect_emissions eff) \<Longrightarrow> kept em"
  by (cases eff) (auto simp: emission_defs kept_def kept_simps labelled_def Let_def)

lemma kept_call:
  assumes "calls_labelled [call]" and "em \<in> set (call_emissions call)"
  shows "kept em"
proof (cases call)
  case (Session eff)
  then have "labelled [eff]" using assms(1) by (auto simp: calls_labelled_def labelled_def)
  then show ?thesis using assms(2) Session kept_effect by simp
qed (use assms in \<open>auto simp: emission_defs session_closed_def kept_def kept_simps calls_labelled_def Let_def split: option.splits if_splits\<close>)

lemma labelled_member: "calls_labelled calls \<Longrightarrow> call \<in> set calls \<Longrightarrow> calls_labelled [call]"
  by (auto simp: calls_labelled_def)

lemma finish_labelled: "calls_labelled (v1_finish now1 now2 c)" "calls_labelled (v2_finish now1 now2 d)"
  by (auto simp: v1_finish_def v2_finish_def close_session_def sv2_close_session_def calls_labelled_def split: option.splits)

lemma kept_refresh: "em \<in> set (prometheus_refresh now p) \<Longrightarrow> kept em"
proof -
  assume "em \<in> set (prometheus_refresh now p)"
  then consider w hps where "em \<in> set (update_hashrate hps w)" | w o' ts where "em \<in> set (metrics_worker_liveness w o' ts)"
    | ok where "em \<in> set (stats_store_ok ok)" | "em \<in> set keep_pool_series_alive"
    unfolding prometheus_refresh_def by (auto split: if_splits)
  then show ?thesis
    by cases (auto simp: update_hashrate_def metrics_worker_liveness_def stats_store_ok_def kept_def kept_series_def split: if_splits)
qed

section \<open>Property\<close>

text \<open>
  Pool-wide counters and gauges never expire, series of workers do. Whatever the accept
  loop, the session loops of both protocols, the engine, the block submission and the tip
  notifications emit, a counter or gauge without a worker label is touched by every tick of the
  refresh task (the gauge of the statistics database on every tick while one is configured),
  so it is never silent for a day. A tick touches a series labelled with a worker only while
  the statistics still hold a state or a hashrate of that worker.
\<close>

theorem pool_series_are_kept_alive:
  assumes "pool_emits C parse K em" and "pool_wide em" and "expires_on_silence (snd em)"
  shows "(fst em \<in> fst ` set (prometheus_refresh now p) \<or> fst em = (''pool_stats_store_ok'', []) \<and> \<not> store_configured p)
     \<and> ((name, [(''worker'', w)]) \<in> fst ` set (prometheus_refresh now p)
          \<longrightarrow> w \<in> fst ` set (st_worker_states p) \<union> fst ` set (st_worker_hashrates_10m p))"
proof -
  have "kept em"
    using assms(1)
  proof cases
    case (refused r)
    then show ?thesis by (cases r) (auto simp: emission_defs kept_def kept_simps)
  next
    case (v1 lo arm e c fin c' e' sent calls call)
    then show ?thesis using kept_call labelled_member v1_turn_labelled by blast
  next
    case (v2 lo arm2 e gl d fin d' e' gl' sent2 calls call)
    then show ?thesis using kept_call labelled_member v2_turn_labelled by blast
  next
    case (v1_end call now1 now2 c)
    then show ?thesis using kept_call labelled_member finish_labelled by blast
  next
    case (v2_end call now1 now2 d)
    then show ?thesis using kept_call labelled_member finish_labelled by blast
  next
    case (engine receivers eff)
    then show ?thesis by (cases eff) (auto simp: emission_defs kept_def kept_simps)
  next
    case (resubmit reff)
    then show ?thesis by (cases reff) (auto simp: emission_defs kept_def kept_simps)
  next
    case (refresh now p)
    then show ?thesis using kept_refresh by blast
  qed (auto simp: emission_defs kept_def kept_simps)
  then have k: "fst em \<in> kept_series \<union> {(''pool_stats_store_ok'', [])}" using assms(2,3) by (simp add: kept_def)
  let ?R = "fst ` set (prometheus_refresh now p)"
  have sub: "kept_series \<subseteq> ?R"
    by (auto simp: kept_series_def prometheus_refresh_def)
  have store: "(''pool_stats_store_ok'', []) \<in> fst ` set (prometheus_refresh now p)" if "store_configured p"
    using that by (force simp: prometheus_refresh_def stats_store_ok_def)
  have worker: "w \<in> fst ` set (st_worker_states p) \<union> fst ` set (st_worker_hashrates_10m p)"
    if "(name, [(''worker'', w)]) \<in> fst ` set (prometheus_refresh now p)"
    using that unfolding prometheus_refresh_def
    by (auto simp: update_hashrate_def metrics_worker_liveness_def stats_store_ok_def keep_pool_series_alive_def
        offline_worker_hashrates_10m_def worker_liveness_def split: if_splits) force+
  have "fst em \<in> ?R \<or> fst em = (''pool_stats_store_ok'', []) \<and> \<not> store_configured p"
  proof (cases "fst em \<in> kept_series")
    case True
    then show ?thesis using sub by (simp only: subset_iff simp_thms)
  next
    case False
    then have em: "fst em = (''pool_stats_store_ok'', [])" using k by simp
    show ?thesis unfolding em using store by (cases "store_configured p") (simp_all only: simp_thms)
  qed
  then show ?thesis by (intro conjI impI worker)
qed

theorem pool_series_witness:
  "(''pool_job_height'', []) \<in> fst ` set (prometheus_refresh 0 (PoolStats_new_with_store 0 0 True NoStore))"
proof -
  have "pool_emits sample_crates (\<lambda>_. None) sample_codec ((''pool_job_height'', []), GaugeSet (f64_of_u64 (7 :: u64)))"
    by (rule pool_emits.engine [of _ 0 "MetricJobHeight 7"]) (simp add: update_job_height_def)
  from pool_series_are_kept_alive [OF this, of 0 "PoolStats_new_with_store 0 0 True NoStore" "[]" "[]"]
  show ?thesis by simp
qed

end
