(* ===== verification/Noise.thy ===== *)
theory Noise
  imports Sv2
begin

text \<open>
  \<^verbatim>\<open>src/src/protocol/sv2/noise.rs\<close>: the authority key on disk, the encrypted frame reader and
  writer, and the order of the handshake. Writing the key is a sequence of file operations, any of which may fail and after
  any of which the process may die, so the model gives every file system that can be found
  after a crash. The steps of the handshake and the cipher belong to third-party crates: a decoder is
  a parameter, with the answers of its documented interface, and so are the text form of a key
  and its parser.
\<close>

section \<open>The authority key file\<close>

text \<open>What the key crate provides: the text of a secret key, its parser, and the text of the public key.\<close>

record key_crate =
  key_text :: "bytes \<Rightarrow> string"
  key_parse :: "string \<Rightarrow> bytes option"
  public_text :: "bytes \<Rightarrow> string"

definition is_base58 :: "char \<Rightarrow> bool" where
  "is_base58 c \<longleftrightarrow> c \<in> set ''123456789ABCDEFGHJKLMNPQRSTUVWXYZabcdefghijkmnopqrstuvwxyz''"

text \<open>The documented behaviour relied on: a key's text is Base58 and reads back as the key.\<close>

definition key_crate_ok :: "key_crate \<Rightarrow> bool" where
  "key_crate_ok K \<longleftrightarrow> (\<forall>k. list_all is_base58 (key_text K k) \<and> key_parse K (key_text K k) = Some k)"

datatype key_error =
    BadKeyFile string
  | CreateDirFailed
  | WriteKeyFailed io_kind
  | ReadKeyFailed
and io_kind = NotFound | AlreadyExists | OtherIo

text \<open>
  The faults of one write: which calls fail, and for the two writes after how many bytes.
\<close>

record key_faults =
  kf_remove_first :: bool
  kf_open :: bool
  kf_write_key :: "nat option"
  kf_write_newline :: bool
  kf_sync :: bool
  kf_link :: bool
  kf_rename :: bool
  kf_remove_last :: bool

definition no_faults :: key_faults where
  "no_faults = \<lparr>kf_remove_first = False, kf_open = False, kf_write_key = None, kf_write_newline = False,
     kf_sync = False, kf_link = False, kf_rename = False, kf_remove_last = False\<rparr>"

definition key_tmp_path :: "path \<Rightarrow> path" where
  "key_tmp_path p = butlast p @ [(case file_name p of None \<Rightarrow> [] | Some n \<Rightarrow> n) @ ''.tmp'']"

definition remove_file :: "bool \<Rightarrow> path \<Rightarrow> files \<Rightarrow> files" where
  "remove_file fails p fs = (if fails then fs else AList.delete p fs)"

text \<open>
  \<open>hard_link\<close> refuses an existing target; the fallback is \<open>rename\<close>. The results are the file
  systems after each call and the error, if any.
\<close>

definition link_into_place :: "key_faults \<Rightarrow> path \<Rightarrow> path \<Rightarrow> files \<Rightarrow> files list \<times> io_kind option" where
  "link_into_place f tmp p fs =
     (case map_of fs tmp of
        None \<Rightarrow> ([], Some NotFound)
      | Some content \<Rightarrow>
          if map_of fs p \<noteq> None then ([], Some AlreadyExists)
          else if \<not> kf_link f then ([AList.update p content fs], None)
          else if kf_rename f then ([], Some OtherIo)
          else ([AList.update p content (AList.delete tmp fs)], None))"

text \<open>
  The closure of \<open>write_owner_only\<close>: create the scratch file, write the key and a newline
  (a write may stop anywhere), sync, publish.
\<close>

definition write_key_steps :: "key_faults \<Rightarrow> path \<Rightarrow> path \<Rightarrow> string \<Rightarrow> files \<Rightarrow> files list \<times> io_kind option" where
  "write_key_steps f tmp p contents fs =
     (if kf_open f then ([], Some OtherIo)
      else if map_of fs tmp \<noteq> None then ([], Some AlreadyExists)
      else
        let partial = (\<lambda>k. AList.update tmp (take k (contents @ [CHR 0x0A])) fs);
            n = length contents
        in case kf_write_key f of
             Some k \<Rightarrow> (map partial [0..<Suc (min k n)], Some OtherIo)
           | None \<Rightarrow>
               if kf_write_newline f then (map partial [0..<Suc n], Some OtherIo)
               else if kf_sync f then (map partial [0..<Suc (Suc n)], Some OtherIo)
               else
                 let (after, err) = link_into_place f tmp p (partial (Suc n))
                 in (map partial [0..<Suc (Suc n)] @ after, err))"

text \<open>\<open>write_owner_only\<close>: every file system in order, the last one being what is left, and the result.\<close>

definition write_owner_only :: "key_faults \<Rightarrow> path \<Rightarrow> string \<Rightarrow> files \<Rightarrow> files list \<times> io_kind option" where
  "write_owner_only f p contents fs =
     (let tmp = key_tmp_path p;
          fs1 = remove_file (kf_remove_first f) tmp fs;
          (states, err) = write_key_steps f tmp p contents fs1;
          trace = fs # fs1 # states
      in (trace @ [remove_file (kf_remove_last f) tmp (last trace)], err))"

text \<open>
  \<open>load_or_generate_secret\<close>: reading may fail for another reason than absence (\<open>read_ok\<close>), so may
  creating the directory. The first part of the result are the file systems passed through.
\<close>

definition load_or_generate_secret ::
  "key_crate \<Rightarrow> bool \<Rightarrow> bool \<Rightarrow> key_faults \<Rightarrow> bytes \<Rightarrow> path \<Rightarrow> files \<Rightarrow> files list \<times> (key_error, bytes) outcome" where
  "load_or_generate_secret K read_ok mkdir_ok f secret p fs =
     (if \<not> read_ok then ([fs], Err ReadKeyFailed)
      else case map_of fs p of
             Some contents \<Rightarrow>
               (case key_parse K (str_trim contents) of
                  None \<Rightarrow> ([fs], Err (BadKeyFile contents))
                | Some k \<Rightarrow> ([fs], Ok k))
           | None \<Rightarrow>
               if \<not> mkdir_ok then ([fs], Err CreateDirFailed)
               else
                 let (trace, err) = write_owner_only f p (key_text K secret) fs
                 in (trace, case err of None \<Rightarrow> Ok secret | Some e \<Rightarrow> Err (WriteKeyFailed e)))"

text \<open>The process-wide authority: a cell that is set once.\<close>

record authority =
  au_secret :: bytes
  au_cert_validity_secs :: u32

definition get_or_init :: "authority \<Rightarrow> authority option \<Rightarrow> authority \<times> authority option" where
  "get_or_init a cell = (case cell of Some b \<Rightarrow> (b, cell) | None \<Rightarrow> (a, Some a))"

definition noise_init ::
  "key_crate \<Rightarrow> bool \<Rightarrow> bool \<Rightarrow> key_faults \<Rightarrow> bytes \<Rightarrow> sv2_config \<Rightarrow> path \<Rightarrow> files \<Rightarrow> authority option
     \<Rightarrow> (key_error, string) outcome \<times> files \<times> authority option" where
  "noise_init K read_ok mkdir_ok f secret cfg p fs cell =
     (let (fs1, loaded) =
        (if s2_persist_authority_key cfg
         then (let (trace, res) = load_or_generate_secret K read_ok mkdir_ok f secret p fs in (last trace, res))
         else (fs, Ok secret))
      in case loaded of
           Ok k \<Rightarrow>
             (let (a, cell1) = get_or_init \<lparr>au_secret = k, au_cert_validity_secs = s2_cert_validity_secs cfg\<rparr> cell
              in (Ok (public_text K (au_secret a)), fs1, cell1))
         | Err e \<Rightarrow> (Err e, fs1, cell)
         | Panic \<Rightarrow> (Panic, fs1, cell))"

definition authority_of :: "bytes \<Rightarrow> authority option \<Rightarrow> authority \<times> authority option" where
  "authority_of secret cell =
     get_or_init \<lparr>au_secret = secret, au_cert_validity_secs = 365 * 24 * 60 * 60\<rparr> cell"

section \<open>The frame reader and writer\<close>

text \<open>
  The decoder answers with a frame, with the number of bytes it needs next (into a buffer of
  that size), or with an error, which consumes its state.
\<close>

datatype 'd decoded = DecFrame byte bytes 'd | DecIncomplete nat 'd | DecError

record 'd noise_reader =
  nr_input :: bytes
  nr_state :: "'d option"
  nr_max_frame :: nat
  nr_frame_read :: nat

definition NoiseReader_new :: "bytes \<Rightarrow> 'd \<Rightarrow> nat \<Rightarrow> 'd noise_reader" where
  "NoiseReader_new reader state max_frame =
     \<lparr>nr_input = reader, nr_state = Some state, nr_max_frame = max_frame, nr_frame_read = 0\<rparr>"

text \<open>The reader's errors; only the first is of the kind \<open>InvalidData\<close>.\<close>

datatype read_error = Oversize nat nat | Unusable | UnexpectedEof | DecodeError

text \<open>The cap the session sets: the configured message size and room for framing and cipher.\<close>

definition usize_max :: nat where
  "usize_max = 2 ^ 64 - 1"

definition noise_max_frame :: "nat \<Rightarrow> nat" where
  "noise_max_frame max_message_bytes = min (max_message_bytes + 1024) usize_max"

text \<open>One call of \<open>read\<close>; \<open>None\<close> when the fuel is spent.\<close>

fun noise_read ::
  "nat \<Rightarrow> ('d \<Rightarrow> 'd decoded) \<Rightarrow> (bytes \<Rightarrow> 'd \<Rightarrow> 'd) \<Rightarrow> 'd noise_reader
     \<Rightarrow> ((read_error, byte \<times> bytes) outcome \<times> 'd noise_reader) option" where
  "noise_read 0 next_frame fill r = None"
| "noise_read (Suc fuel) next_frame fill r =
     (case nr_state r of
        None \<Rightarrow> Some (Err Unusable, r)
      | Some state \<Rightarrow>
          (case next_frame state of
             DecFrame msg_type payload state1 \<Rightarrow>
               Some (Ok (msg_type, payload), r\<lparr>nr_state := Some state1, nr_frame_read := 0\<rparr>)
           | DecIncomplete missing state1 \<Rightarrow>
               (let total = min (nr_frame_read r + missing) usize_max; r1 = r\<lparr>nr_state := Some state1\<rparr>
                in if total > nr_max_frame r then Some (Err (Oversize total (nr_max_frame r)), r1)
                   else if length (nr_input r) < missing then Some (Err UnexpectedEof, r1\<lparr>nr_input := []\<rparr>)
                   else noise_read fuel next_frame fill
                          (r1\<lparr>nr_state := Some (fill (take missing (nr_input r)) state1),
                             nr_input := drop missing (nr_input r), nr_frame_read := total\<rparr>))
           | DecError \<Rightarrow> Some (Err DecodeError, r\<lparr>nr_state := None\<rparr>)))"

text \<open>What the reader task of the session does with the result.\<close>

datatype reader_turn = Forward byte bytes | BanPeer | ReaderEnds

fun reader_task_turn :: "(read_error, byte \<times> bytes) outcome \<Rightarrow> reader_turn" where
  "reader_task_turn (Ok (msg_type, payload)) = Forward msg_type payload"
| "reader_task_turn (Err (Oversize _ _)) = BanPeer"
| "reader_task_turn (Err _) = ReaderEnds"
| "reader_task_turn Panic = ReaderEnds"

text \<open>
  The writer: the crate's check of a frame against its header, the cipher and the outcomes of
  the two socket calls are inputs. The result says whether the message went out, and what was written.
\<close>

definition noise_send ::
  "(bytes \<Rightarrow> bool) \<Rightarrow> (bytes \<Rightarrow> 'e \<Rightarrow> (bytes \<times> 'e) option) \<Rightarrow> bool \<Rightarrow> bool \<Rightarrow> byte \<Rightarrow> bool \<Rightarrow> bytes \<Rightarrow> 'e
     \<Rightarrow> bool \<times> bytes \<times> 'e" where
  "noise_send from_bytes_ok encode write_ok flush_ok msg_type channel_msg payload state =
     (let full = frame_bytes msg_type channel_msg payload
      in if \<not> from_bytes_ok full then (False, [], state)
         else case encode full state of
                None \<Rightarrow> (False, [], state)
              | Some (encrypted, state1) \<Rightarrow>
                  if \<not> write_ok then (False, [], state1)
                  else if \<not> flush_ok then (False, encrypted, state1)
                  else (True, encrypted, state1))"

section \<open>Lemmas on the key file\<close>

lemma key_tmp_path_neq: "key_tmp_path p \<noteq> p"
proof (cases "p = []")
  case False
  then have "last (key_tmp_path p) = last p @ ''.tmp''" by (simp add: key_tmp_path_def file_name_def)
  then show ?thesis by (metis append_self_conv list.discI)
qed (simp add: key_tmp_path_def)

text \<open>Nothing but the scratch file and the key itself changes, and the key appears at once and complete.\<close>

definition key_state_ok :: "path \<Rightarrow> string \<Rightarrow> files \<Rightarrow> files \<Rightarrow> bool" where
  "key_state_ok p contents fs fs' \<longleftrightarrow>
     (map_of fs' p = map_of fs p \<or> map_of fs p = None \<and> map_of fs' p = Some (contents @ [CHR 0x0A]))
     \<and> (\<forall>q. q \<noteq> p \<longrightarrow> q \<noteq> key_tmp_path p \<longrightarrow> map_of fs' q = map_of fs q)"

lemma key_state_refl: "key_state_ok p contents fs fs"
  by (simp add: key_state_ok_def)

lemma key_state_tmp:
  "key_state_ok p contents fs fs' \<Longrightarrow> key_state_ok p contents fs (AList.update (key_tmp_path p) x fs')"
  "key_state_ok p contents fs fs' \<Longrightarrow> key_state_ok p contents fs (AList.delete (key_tmp_path p) fs')"
  using key_tmp_path_neq [of p] by (auto simp: key_state_ok_def update_conv' delete_conv')

lemma key_state_remove: "key_state_ok p contents fs fs' \<Longrightarrow> key_state_ok p contents fs (remove_file b (key_tmp_path p) fs')"
  by (simp add: remove_file_def key_state_tmp)

lemma link_states:
  assumes "link_into_place f (key_tmp_path p) p fs1 = (after, err)" and "key_state_ok p contents fs fs1"
    and "map_of fs1 (key_tmp_path p) = Some (contents @ [CHR 0x0A])"
  shows "\<forall>fs' \<in> set after. key_state_ok p contents fs fs'"
    and "err = None \<Longrightarrow> after \<noteq> [] \<and> map_of (last after) p = Some (contents @ [CHR 0x0A])"
    and "map_of fs1 p = None \<Longrightarrow> \<not> kf_link f \<Longrightarrow> err = None"
    and "map_of fs1 p \<noteq> None \<Longrightarrow> err \<noteq> None"
  using assms key_tmp_path_neq [of p]
  by (auto simp: link_into_place_def key_state_ok_def update_conv' delete_conv' split: if_splits)

lemma write_steps_states:
  assumes "write_key_steps f (key_tmp_path p) p contents fs1 = (states, err)" and "key_state_ok p contents fs fs1"
  shows "\<forall>fs' \<in> set states. key_state_ok p contents fs fs'"
    and "err = None \<Longrightarrow> states \<noteq> [] \<and> map_of (last states) p = Some (contents @ [CHR 0x0A])"
    and "map_of fs1 p \<noteq> None \<Longrightarrow> err \<noteq> None"
proof -
  let ?tmp = "key_tmp_path p"
  let ?partial = "\<lambda>k. AList.update ?tmp (take k (contents @ [CHR 0x0A])) fs1"
  let ?full = "?partial (Suc (length contents))"
  obtain after err' where l: "link_into_place f ?tmp p ?full = (after, err')" by fastforce
  have p: "key_state_ok p contents fs (AList.update ?tmp x fs1)" for x using assms(2) by (rule key_state_tmp)
  have full: "map_of ?full ?tmp = Some (contents @ [CHR 0x0A])" "map_of ?full p = map_of fs1 p"
    using key_tmp_path_neq [of p] by (simp_all add: update_conv')
  note link = link_states [OF l p full(1)]
  consider (early) ks e where "states = map ?partial ks" "err = Some e"
    | (linked) "states = map ?partial [0..<Suc (Suc (length contents))] @ after" "err = err'"
    using assms(1) l unfolding write_key_steps_def Let_def
    by (auto split: if_splits option.splits simp del: upt_Suc)
  note split = this
  from split show "\<forall>fs' \<in> set states. key_state_ok p contents fs fs'"
    by cases (use p link(1) in auto)
  from split show "err = None \<Longrightarrow> states \<noteq> [] \<and> map_of (last states) p = Some (contents @ [CHR 0x0A])"
    by cases (use link(2) in simp_all)
  from split show "map_of fs1 p \<noteq> None \<Longrightarrow> err \<noteq> None"
    by cases (use link(4) full(2) in simp_all)
qed

text \<open>Trimming a line of Base58 text gives the text.\<close>

lemma utf8_chunks_ascii: "list_all (\<lambda>b. b < 0x80) bs \<Longrightarrow> utf8_chunks bs = map (\<lambda>b. [b]) bs"
  by (induction bs) (auto simp: utf8_width_def)

lemma base58_range: "is_base58 c \<Longrightarrow> 48 < (of_char c :: nat) \<and> (of_char c :: nat) < 123"
proof -
  have "list_all (\<lambda>c. 48 < (of_char c :: nat) \<and> (of_char c :: nat) < 123)
      ''123456789ABCDEFGHJKLMNPQRSTUVWXYZabcdefghijkmnopqrstuvwxyz''"
    by simp
  then show "is_base58 c \<Longrightarrow> 48 < (of_char c :: nat) \<and> (of_char c :: nat) < 123"
    unfolding is_base58_def list_all_iff by blast
qed

lemma base58_byte:
  assumes "is_base58 c"
  shows "(of_char c :: byte) < 0x80" and "\<not> chunk_is_ws [of_char c]" and "char_of (unat (of_char c :: byte)) = c"
proof -
  let ?n = "of_char c :: nat"
  have n: "48 < ?n" "?n < 123" using base58_range [OF assms] by auto
  have b: "(of_char c :: byte) = of_nat ?n" by (simp only: of_nat_of_char)
  have u: "unat (of_char c :: byte) = ?n" using n(2) by (simp only: b unat_of_nat) simp
  show lt: "(of_char c :: byte) < 0x80" using n(2) u by (simp add: word_less_nat_alt)
  show "\<not> chunk_is_ws [of_char c]"
    using n u lt by (simp add: chunk_is_ws_def utf8_width_def char_is_whitespace_def)
  show "char_of (unat (of_char c :: byte)) = c" by (simp only: u char_of_char)
qed

lemma dropWhile_none: "list_all (\<lambda>x. \<not> P x) xs \<Longrightarrow> dropWhile P xs = xs"
  by (cases xs) auto

lemma str_trim_base58_line: "list_all is_base58 s \<Longrightarrow> str_trim (s @ [CHR 0x0A]) = s"
proof -
  assume b: "list_all is_base58 s"
  let ?bs = "map (of_char :: char \<Rightarrow> byte) s"
  have nl: "(of_char CHR 0x0A :: byte) = 10" "chunk_is_ws [10]" by code_simp+
  have ascii: "list_all (\<lambda>b. b < 0x80) (?bs @ [10])"
    using b base58_byte(1) by (auto simp: list_all_iff)
  have chunks: "utf8_chunks (str_bytes (s @ [CHR 0x0A])) = map (\<lambda>b. [b]) ?bs @ [[10]]"
    using utf8_chunks_ascii [OF ascii] nl(1) by (simp add: str_bytes_def)
  have no_ws: "list_all (\<lambda>c. \<not> chunk_is_ws c) (map (\<lambda>b. [b]) ?bs)"
    using b base58_byte(2) by (auto simp: list_all_iff)
  then have rev_no_ws: "list_all (\<lambda>c. \<not> chunk_is_ws c) (rev (map (\<lambda>b. [b]) ?bs))" by (simp only: list_all_iff set_rev)
  have front: "dropWhile chunk_is_ws (map (\<lambda>b. [b]) ?bs @ [[10]]) = (if s = [] then [] else map (\<lambda>b. [b]) ?bs @ [[10]])"
    using no_ws nl(2) by (cases s) auto
  have "rev (dropWhile chunk_is_ws (rev (if s = [] then [] else map (\<lambda>b. [b]) ?bs @ [[10]]))) = map (\<lambda>b. [b]) ?bs"
    using nl(2) dropWhile_none [of chunk_is_ws "rev (map (\<lambda>b. [b]) ?bs)"] rev_no_ws by (auto simp: rev_map)
  moreover have "map (\<lambda>b. char_of (unat b)) ?bs = s"
    using b base58_byte(3) by (auto simp: list_all_iff intro: map_idI)
  moreover have "concat (map (\<lambda>b. [b]) ?bs) = ?bs" by (induction s) auto
  ultimately show ?thesis unfolding str_trim_def chunks front by metis
qed

lemma write_owner_only_states:
  assumes "write_owner_only f p contents fs = (trace, err)"
  shows "\<forall>fs' \<in> set trace. key_state_ok p contents fs fs'"
    and "err = None \<Longrightarrow> map_of (last trace) p = Some (contents @ [CHR 0x0A])"
    and "map_of fs p \<noteq> None \<Longrightarrow> err \<noteq> None"
proof -
  let ?tmp = "key_tmp_path p"
  let ?fs1 = "remove_file (kf_remove_first f) ?tmp fs"
  obtain states err' where s: "write_key_steps f ?tmp p contents ?fs1 = (states, err')" by fastforce
  have t: "trace = fs # ?fs1 # states @ [remove_file (kf_remove_last f) ?tmp (last (?fs1 # states))]" "err = err'"
    using assms s by (auto simp: write_owner_only_def Let_def)
  have ok1: "key_state_ok p contents fs ?fs1" using key_state_remove [OF key_state_refl] .
  note steps = write_steps_states [OF s ok1]
  have ok_last: "key_state_ok p contents fs (last (?fs1 # states))" using steps(1) ok1 by auto
  show "\<forall>fs' \<in> set trace. key_state_ok p contents fs fs'"
    using t(1) steps(1) ok1 key_state_refl [of p contents fs] key_state_remove [OF ok_last] by auto
  have same: "map_of (remove_file b ?tmp x) p = map_of x p" for b x
    using key_tmp_path_neq [of p] by (simp add: remove_file_def delete_conv')
  show "map_of (last trace) p = Some (contents @ [CHR 0x0A])" if "err = None"
    using steps(2) that t by (simp add: same)
  show "err \<noteq> None" if "map_of fs p \<noteq> None" using steps(3) that t(2) by (simp add: same)
qed

lemma write_owner_only_succeeds:
  assumes "map_of fs p = None"
  shows "snd (write_owner_only no_faults p contents fs) = None"
proof -
  have "map_of (AList.update (key_tmp_path p) x (AList.delete (key_tmp_path p) fs)) p = None" for x
    using assms key_tmp_path_neq [of p] by (simp add: update_conv' delete_conv')
  then show ?thesis
    by (simp add: write_owner_only_def write_key_steps_def link_into_place_def no_faults_def remove_file_def Let_def
        update_conv' delete_conv')
qed

lemma load_key_file:
  assumes "key_crate_ok K" and "map_of fs p = Some (key_text K k @ [CHR 0x0A])"
  shows "load_or_generate_secret K True mkdir_ok f k' p fs = ([fs], Ok k)"
  using assms str_trim_base58_line [of "key_text K k"]
  by (auto simp: load_or_generate_secret_def key_crate_ok_def)

lemma generate_key_file:
  assumes "map_of fs p = None"
  shows "load_or_generate_secret K True True f k p fs
     = (fst (write_owner_only f p (key_text K k) fs),
        case snd (write_owner_only f p (key_text K k) fs) of None \<Rightarrow> Ok k | Some e \<Rightarrow> Err (WriteKeyFailed e))"
  using assms by (simp add: load_or_generate_secret_def case_prod_unfold Let_def)

section \<open>The reader\<close>

text \<open>The decoder's documented answer: a frame that is not complete needs at least one byte more.\<close>

definition decoder_ok :: "('d \<Rightarrow> 'd decoded) \<Rightarrow> bool" where
  "decoder_ok next_frame \<longleftrightarrow> (\<forall>d n d'. next_frame d = DecIncomplete n d' \<longrightarrow> 0 < n)"

lemma noise_read_bounded:
  assumes "decoder_ok next_frame" and "nr_max_frame r < usize_max"
  shows "nr_frame_read r \<le> nr_max_frame r \<Longrightarrow> nr_max_frame r - nr_frame_read r < fuel \<Longrightarrow>
     \<exists>res r' taken. noise_read fuel next_frame fill r = Some (res, r') \<and> nr_input r = taken @ nr_input r'
       \<and> length taken \<le> nr_max_frame r - nr_frame_read r
       \<and> nr_max_frame r' = nr_max_frame r \<and> nr_frame_read r' \<le> nr_max_frame r
       \<and> (\<forall>t m. res = Err (Oversize t m) \<longrightarrow> m = nr_max_frame r \<and> m < t)"
  using assms(2)
proof (induction fuel arbitrary: r)
  case (Suc fuel)
  show ?case
  proof (cases "nr_state r")
    case (Some state)
    show ?thesis
    proof (cases "next_frame state")
      case (DecIncomplete missing state1)
      let ?total = "min (nr_frame_read r + missing) usize_max"
      let ?r1 = "r\<lparr>nr_state := Some (fill (take missing (nr_input r)) state1), nr_input := drop missing (nr_input r),
          nr_frame_read := ?total\<rparr>"
      consider (over) "?total > nr_max_frame r" | (eof) "?total \<le> nr_max_frame r" "length (nr_input r) < missing"
        | (more) "?total \<le> nr_max_frame r" "missing \<le> length (nr_input r)" by linarith
      then show ?thesis
      proof cases
        case over
        then show ?thesis using Some DecIncomplete Suc.prems by (auto simp: Let_def)
      next
        case eof
        then have "length (nr_input r) \<le> nr_max_frame r - nr_frame_read r" using Suc.prems by auto
        then show ?thesis using eof Some DecIncomplete Suc.prems by (auto simp: Let_def)
      next
        case more
        have t: "?total = nr_frame_read r + missing" using more(1) Suc.prems by auto
        have "0 < missing" using assms(1) DecIncomplete by (auto simp: decoder_ok_def)
        then have "\<exists>res r' taken. noise_read fuel next_frame fill ?r1 = Some (res, r') \<and> nr_input ?r1 = taken @ nr_input r'
           \<and> length taken \<le> nr_max_frame ?r1 - nr_frame_read ?r1
           \<and> nr_max_frame r' = nr_max_frame ?r1 \<and> nr_frame_read r' \<le> nr_max_frame ?r1
           \<and> (\<forall>t m. res = Err (Oversize t m) \<longrightarrow> m = nr_max_frame ?r1 \<and> m < t)"
          using more(1) t Suc.prems by (intro Suc.IH) auto
        then obtain res r' taken where ih: "noise_read fuel next_frame fill ?r1 = Some (res, r')"
          "drop missing (nr_input r) = taken @ nr_input r'" "length taken \<le> nr_max_frame r - ?total"
          "nr_max_frame r' = nr_max_frame r" "nr_frame_read r' \<le> nr_max_frame r"
          "\<forall>t m. res = Err (Oversize t m) \<longrightarrow> m = nr_max_frame r \<and> m < t"
          by auto
        have "\<not> nr_max_frame r < ?total" "\<not> length (nr_input r) < missing" using more by auto
        then have "noise_read (Suc fuel) next_frame fill r = Some (res, r')"
          using Some DecIncomplete ih(1) by (simp only: noise_read.simps Let_def option.case decoded.case if_False) simp
        moreover have "nr_input r = (take missing (nr_input r) @ taken) @ nr_input r'"
          using ih(2) by (metis append.assoc append_take_drop_id)
        moreover have "length (take missing (nr_input r) @ taken) \<le> nr_max_frame r - nr_frame_read r"
          using ih(3) t more by simp
        ultimately show ?thesis using ih(4-6) by blast
      qed
    qed (use Some Suc.prems in auto)
  qed (use Suc.prems in auto)
qed simp

section \<open>Properties\<close>

text \<open>
  C33: the authority key survives crashes. Whatever calls fail while the first start writes the
  key, and at whatever moment the process dies, the key file is either absent or complete; so
  the next start reads the very key of the first, or finds no file and creates its own, and
  never stops at a damaged file. No other file is touched. If the first start reported success,
  the next one has the same key.
\<close>

theorem authority_key_survives_crashes:
  assumes "key_crate_ok K" and "map_of fs p = None"
    and "load_or_generate_secret K True True f k1 p fs = (trace, res)" and "fs' \<in> set trace"
    and "load_or_generate_secret K True True no_faults k2 p fs' = (trace2, res2)"
  shows "(map_of fs' p = None \<and> res2 = Ok k2 \<or> map_of fs' p = Some (key_text K k1 @ [CHR 0x0A]) \<and> res2 = Ok k1)
     \<and> (res = Ok k1 \<and> fs' = last trace \<longrightarrow> res2 = Ok k1)
     \<and> (\<forall>q. q \<noteq> p \<and> q \<noteq> key_tmp_path p \<longrightarrow> map_of fs' q = map_of fs q)"
proof -
  obtain err where w: "write_owner_only f p (key_text K k1) fs = (trace, err)"
    and res: "res = (case err of None \<Rightarrow> Ok k1 | Some e \<Rightarrow> Err (WriteKeyFailed e))"
    using generate_key_file [OF assms(2), of K f k1] assms(3) by (metis prod.collapse prod.inject)
  note st = write_owner_only_states [OF w]
  have ok: "key_state_ok p (key_text K k1) fs fs'" using st(1) assms(4) by blast
  have absent: "res2 = Ok k2" if "map_of fs' p = None"
    using generate_key_file [OF that, of K no_faults k2] write_owner_only_succeeds [OF that, of "key_text K k2"] assms(5) by simp
  have present: "res2 = Ok k1" if "map_of fs' p = Some (key_text K k1 @ [CHR 0x0A])"
    using load_key_file [OF assms(1) that, of True no_faults k2] assms(5) by simp
  have "res = Ok k1 \<Longrightarrow> err = None" using res by (cases err) auto
  then show ?thesis using ok absent present st(2) assms(2) by (auto simp: key_state_ok_def)
qed

text \<open>An instance of the key crate: each byte as a run of ones closed by a two.\<close>

fun run_lengths :: "nat \<Rightarrow> string \<Rightarrow> bytes" where
  "run_lengths n [] = []"
| "run_lengths n (c # cs) = (if c = CHR ''1'' then run_lengths (Suc n) cs else of_nat n # run_lengths 0 cs)"

definition sample_key_crate :: key_crate where
  "sample_key_crate = \<lparr>key_text = (\<lambda>k. concat (map (\<lambda>b. replicate (unat b) CHR ''1'' @ [CHR ''2'']) k)),
     key_parse = (\<lambda>s. Some (run_lengths 0 s)), public_text = (\<lambda>_. ''9'')\<rparr>"

lemma run_lengths_run: "run_lengths n (replicate m CHR ''1'' @ CHR ''2'' # s) = of_nat (n + m) # run_lengths 0 s"
  by (induction m arbitrary: n) auto

lemma sample_key_crate_ok: "key_crate_ok sample_key_crate"
proof -
  have digits: "is_base58 CHR ''1''" "is_base58 CHR ''2''" by (simp_all add: is_base58_def)
  have "run_lengths 0 (concat (map (\<lambda>b. replicate (unat b) CHR ''1'' @ [CHR ''2'']) k)) = k" for k
    by (induction k) (simp_all add: run_lengths_run)
  moreover have "list_all is_base58 (concat (map (\<lambda>b. replicate (unat b) CHR ''1'' @ [CHR ''2'']) k))" for k :: bytes
    using digits by (induction k) (auto simp: list_all_iff)
  ultimately show ?thesis by (simp add: key_crate_ok_def sample_key_crate_def)
qed

theorem authority_key_witness:
  "snd (load_or_generate_secret sample_key_crate True True no_faults [9] [''sv2-authority.key'']
     (last (fst (load_or_generate_secret sample_key_crate True True no_faults [7] [''sv2-authority.key''] [])))) = Ok [7]"
proof -
  let ?p = "[''sv2-authority.key'']"
  let ?first = "load_or_generate_secret sample_key_crate True True no_faults [7] ?p []"
  let ?second = "load_or_generate_secret sample_key_crate True True no_faults [9] ?p (last (fst ?first))"
  have none: "map_of ([] :: files) ?p = None" by simp
  note gen = generate_key_file [OF none, of sample_key_crate no_faults "[7]"]
  have ok: "snd ?first = Ok [7]"
    unfolding gen snd_conv write_owner_only_succeeds [OF none] by (rule option.case(1))
  have "fst ?first \<noteq> []" unfolding gen fst_conv write_owner_only_def Let_def case_prod_unfold by simp
  then have mem: "last (fst ?first) \<in> set (fst ?first)" by (rule last_in_set)
  have "snd ?first = Ok [7] \<and> last (fst ?first) = last (fst ?first) \<longrightarrow> snd ?second = Ok [7]"
    using authority_key_survives_crashes [OF sample_key_crate_ok none prod.collapse [symmetric] mem prod.collapse [symmetric]]
    by blast
  then show ?thesis using ok by blast
qed


definition sample_decoder :: "bytes \<Rightarrow> bytes decoded" where
  "sample_decoder d = (if length d < 3 then DecIncomplete (3 - length d) d else DecFrame (hd d) (tl d) [])"


text \<open>
  The header of a frame states the length of its payload exactly when the payload is below
  \<open>2 ^ 24\<close> bytes; the three bytes of the length field hold it modulo that.
\<close>

lemma frame_length_field:
  "le_val (take 3 (drop 3 (frame_bytes msg_type channel payload))) = length payload mod 2 ^ 24"
proof -
  let ?w = "of_nat (length payload) :: u32"
  have "take 3 (drop 3 (frame_bytes msg_type channel payload)) = take 3 (u32_to_le_bytes ?w)"
    by (simp add: frame_bytes_def Let_def)
  also have "\<dots> = le_bytes 3 ?w" by (simp add: u32_to_le_bytes_def eval_nat_numeral)
  finally have "le_val (take 3 (drop 3 (frame_bytes msg_type channel payload))) = unat ?w mod 256 ^ 3"
    by (simp only: le_val_le_bytes)
  also have "\<dots> = length payload mod 2 ^ 24"
    by (simp add: unat_of_nat mod_mod_cancel)
  finally show ?thesis .
qed

section \<open>The handshake\<close>

text \<open>
  The responder's side. The two cryptographic steps are the parameter \<open>step_1\<close>: from the authority
  secret, the validity of the certificate and the key the peer sent to the reply and the
  transport, or a failure. The size of the peer's key is the constant of the crate. The socket
  is the bytes the peer has sent before it closes or stalls, and whether the write and the flush
  of the reply succeed; the result is the transport with the bytes still to be read, and the
  reply handed to the socket.
\<close>

definition ELLSWIFT_ENCODING_SIZE :: nat where
  "ELLSWIFT_ENCODING_SIZE = 64"

datatype handshake_error = HandshakeEof | Step1Failed | HandshakeWriteFailed

definition responder_handshake_with ::
  "(bytes \<Rightarrow> u32 \<Rightarrow> bytes \<Rightarrow> (bytes \<times> 't) option) \<Rightarrow> bool \<Rightarrow> bool \<Rightarrow> bytes \<Rightarrow> bytes \<Rightarrow> u32
     \<Rightarrow> (handshake_error, 't \<times> bytes) outcome \<times> bytes" where
  "responder_handshake_with step_1 write_ok flush_ok stream secret cert_validity_secs =
     (if length stream < ELLSWIFT_ENCODING_SIZE then (Err HandshakeEof, [])
      else
        let re_pub = take ELLSWIFT_ENCODING_SIZE stream
        in case step_1 secret cert_validity_secs re_pub of
             None \<Rightarrow> (Err Step1Failed, [])
           | Some (response, transport) \<Rightarrow>
               if \<not> write_ok \<or> \<not> flush_ok then (Err HandshakeWriteFailed, response)
               else (Ok (transport, drop ELLSWIFT_ENCODING_SIZE stream), response))"

definition responder_handshake ::
  "(bytes \<Rightarrow> u32 \<Rightarrow> bytes \<Rightarrow> (bytes \<times> 't) option) \<Rightarrow> bool \<Rightarrow> bool \<Rightarrow> bytes \<Rightarrow> bytes \<Rightarrow> authority option
     \<Rightarrow> ((handshake_error, 't \<times> bytes) outcome \<times> bytes) \<times> authority option" where
  "responder_handshake step_1 write_ok flush_ok stream fresh cell =
     (let (auth, cell') = authority_of fresh cell
      in (responder_handshake_with step_1 write_ok flush_ok stream (au_secret auth) (au_cert_validity_secs auth), cell'))"

text \<open>
  Once the authority is set, every handshake is made with it, and a fresh key is never used; a
  completed handshake has taken exactly the peer's key from the stream, so the frame reader
  starts at the first encrypted byte.
\<close>

lemma handshake_uses_authority:
  assumes "responder_handshake step_1 write_ok flush_ok stream fresh (Some auth) = ((Ok (transport, rest), written), cell)"
  shows "cell = Some auth \<and> length (take 64 stream) = 64 \<and> stream = take 64 stream @ rest
     \<and> step_1 (au_secret auth) (au_cert_validity_secs auth) (take 64 stream) = Some (written, transport)"
  using assms
  by (auto simp: responder_handshake_def authority_of_def get_or_init_def responder_handshake_with_def
      ELLSWIFT_ENCODING_SIZE_def Let_def split: if_splits option.splits prod.splits)

end
