(* ===== verification/Config_Load.thy ===== *)
theory Config_Load
  imports Session "HOL-Library.Char_ord"
begin

text \<open>
  \<^verbatim>\<open>src/src/config.rs\<close>, the way from the file to the configuration: environment overrides
  laid over the parsed TOML, the interpretation of the result and its validation; the warning
  about exposed credentials; and the command line of \<^verbatim>\<open>src/src/main.rs\<close>. The TOML parser and
  the interpretation of a table as a \<open>Config\<close> are third-party code, two functions of
  \<open>load_config\<close>. A TOML table is an association list. The theorems show that an override changes
  exactly the key it names, keeps the type the file gave it, and fails loudly otherwise.
\<close>

section \<open>Values\<close>

definition to_ascii_lower :: "char \<Rightarrow> char" where
  "to_ascii_lower c = (if CHR ''A'' \<le> c \<and> c \<le> CHR ''Z'' then char_of (of_char c + 32 :: nat) else c)"

datatype toml =
    TString string | TInteger int | TFloat f64 | TBoolean bool | TDatetime string
  | TArray "toml list" | TTable "(string \<times> toml) list"

fun as_table :: "toml \<Rightarrow> (string \<times> toml) list option" where
  "as_table (TTable t) = Some t"
| "as_table _ = None"

text \<open>\<open>parse::<i64>()\<close>: one optional sign, then decimal digits within the range.\<close>

definition parse_i64 :: "string \<Rightarrow> int option" where
  "parse_i64 s =
     (case s of
        c # ds \<Rightarrow>
          if c = CHR ''-''
          then (if ds = [] then None
                else case radix_val 10 0 ds of
                       Some n \<Rightarrow> if n \<le> 2 ^ 63 then Some (- int n) else None
                     | None \<Rightarrow> None)
          else map_option int (from_str_radix 63 10 s)
      | [] \<Rightarrow> None)"

definition parse_bool :: "string \<Rightarrow> bool option" where
  "parse_bool s = (if s = ''true'' then Some True else if s = ''false'' then Some False else None)"

definition is_digit :: "char \<Rightarrow> bool" where
  "is_digit c \<longleftrightarrow> CHR ''0'' \<le> c \<and> c \<le> CHR ''9''"

definition digits_val :: "string \<Rightarrow> nat" where
  "digits_val ds = foldl (\<lambda>a c. a * 10 + (of_char c - 48)) 0 ds"

text \<open>
  \<open>parse::<f64>()\<close>: a sign, then \<open>inf\<close>, \<open>infinity\<close> or \<open>nan\<close> in any case, or digits with an
  optional point and exponent, at least one digit around the point; correctly rounded.
\<close>

definition parse_exponent :: "string \<Rightarrow> int option" where
  "parse_exponent s =
     (case s of
        [] \<Rightarrow> Some 0
      | e # rest \<Rightarrow>
          if e \<noteq> CHR ''e'' \<and> e \<noteq> CHR ''E'' then None
          else
            let (neg, ds) = (case rest of
                   c # cs \<Rightarrow> if c = CHR ''-'' then (True, cs) else if c = CHR ''+'' then (False, cs) else (False, rest)
                 | [] \<Rightarrow> (False, []))
            in if ds = [] \<or> \<not> list_all is_digit ds then None
               else Some (if neg then - int (digits_val ds) else int (digits_val ds)))"

definition parse_number :: "bool \<Rightarrow> string \<Rightarrow> f64 option" where
  "parse_number neg s =
     (let whole = takeWhile is_digit s; r = dropWhile is_digit s;
          (frac, r2) = (case r of
              c # cs \<Rightarrow> if c = CHR ''.'' then (takeWhile is_digit cs, dropWhile is_digit cs) else ([], r)
            | [] \<Rightarrow> ([], []))
      in if whole = [] \<and> frac = [] then None
         else case parse_exponent r2 of
                None \<Rightarrow> None
              | Some e \<Rightarrow>
                  Some (mk_f64 ((if neg then -1 else 1) * real (digits_val (whole @ frac)) * 10 powi (e - int (length frac)))))"

definition parse_f64 :: "string \<Rightarrow> f64 option" where
  "parse_f64 s =
     (let (neg, r) = (case s of
              c # cs \<Rightarrow> if c = CHR ''-'' then (True, cs) else if c = CHR ''+'' then (False, cs) else (False, s)
            | [] \<Rightarrow> (False, []));
          low = map to_ascii_lower r
      in if low = ''nan'' then Some NaN
         else if low = ''inf'' \<or> low = ''infinity'' then Some (if neg then NegInf else Inf)
         else parse_number neg r)"

section \<open>Overrides\<close>

definition infer_toml_scalar :: "string \<Rightarrow> toml" where
  "infer_toml_scalar raw =
     (let quoted = (case strip_prefix [CHR 0x22] raw of Some r \<Rightarrow> strip_suffix [CHR 0x22] r | None \<Rightarrow> None)
      in case (if length raw \<ge> 2 then quoted else None) of
           Some q \<Rightarrow> TString q
         | None \<Rightarrow>
             if raw = ''true'' \<or> raw = ''false'' then TBoolean (raw = ''true'')
             else (case parse_i64 raw of
                     Some i \<Rightarrow> TInteger i
                   | None \<Rightarrow> (case parse_f64 raw of Some f \<Rightarrow> TFloat f | None \<Rightarrow> TString raw)))"

definition ENV_PREFIX :: string where
  "ENV_PREFIX = ''SOLO_POOL_''"

datatype load_error =
    OpeningFailed string
  | ParsingFailed
  | RootNotATable
  | NoDoubleUnderscore string
  | EmptySectionOrKey string
  | SectionNotATable string
  | ValueDoesNotParse string string string
  | NonScalar string string string
  | InterpretingFailed
  | Rejected config_error

text \<open>The value of an override: of the type the file gives the key, inferred for a new key.\<close>

definition override_value :: "string \<Rightarrow> string \<Rightarrow> string \<Rightarrow> string \<Rightarrow> toml option \<Rightarrow> (load_error, toml) outcome" where
  "override_value name section key raw old =
     (let parsed = (\<lambda>r. case r of Some v \<Rightarrow> Ok v | None \<Rightarrow> Err (ValueDoesNotParse name section key))
      in case old of
           Some (TInteger _) \<Rightarrow> parsed (map_option TInteger (parse_i64 raw))
         | Some (TFloat _) \<Rightarrow> parsed (map_option TFloat (parse_f64 raw))
         | Some (TBoolean _) \<Rightarrow> parsed (map_option TBoolean (parse_bool raw))
         | Some (TString _) \<Rightarrow> Ok (TString raw)
         | Some _ \<Rightarrow> Err (NonScalar name section key)
         | None \<Rightarrow> Ok (infer_toml_scalar raw))"

text \<open>The section and key a variable names, if it is an override at all.\<close>

definition override_target :: "string \<Rightarrow> (load_error, (string \<times> string) option) outcome" where
  "override_target name =
     (case strip_prefix ENV_PREFIX name of
        None \<Rightarrow> Ok None
      | Some rest \<Rightarrow>
          (case split_once_text ''__'' rest of
             None \<Rightarrow> Err (NoDoubleUnderscore name)
           | Some (section, key) \<Rightarrow>
               (let s = map to_ascii_lower section; k = map to_ascii_lower key
                in if s = [] \<or> k = [] then Err (EmptySectionOrKey name) else Ok (Some (s, k)))))"

fun apply_overrides ::
  "(string \<times> toml) list \<Rightarrow> (string \<times> string) list \<Rightarrow> (load_error, (string \<times> toml) list \<times> (string \<times> string) list) outcome" where
  "apply_overrides doc [] = Ok (doc, [])"
| "apply_overrides doc ((name, raw) # vars) =
     obind (override_target name) (\<lambda>target.
       case target of
         None \<Rightarrow> apply_overrides doc vars
       | Some (section, key) \<Rightarrow>
           (case (case map_of doc section of None \<Rightarrow> Some [] | Some v \<Rightarrow> as_table v) of
              None \<Rightarrow> Err (SectionNotATable section)
            | Some table \<Rightarrow>
                obind (override_value name section key raw (map_of table key)) (\<lambda>parsed.
                obind (apply_overrides (AList.update section (TTable (AList.update key parsed table)) doc) vars)
                  (\<lambda>(doc1, applied). Ok (doc1, (section, key) # applied)))))"

definition dotted :: "string \<times> string \<Rightarrow> string" where
  "dotted sk = fst sk @ ''.'' @ snd sk"

definition apply_env_overrides ::
  "toml \<Rightarrow> (string \<times> string) list \<Rightarrow> (load_error, toml \<times> string list) outcome" where
  "apply_env_overrides value vars =
     (case as_table value of
        None \<Rightarrow> Err RootNotATable
      | Some doc \<Rightarrow>
          obind (apply_overrides doc vars) (\<lambda>(doc1, applied).
            Ok (TTable doc1, map dotted applied)))"

text \<open>\<open>parse_toml\<close> and \<open>interpret\<close> stand for the TOML crate and the derived deserializer.\<close>

definition load_config ::
  "(string \<Rightarrow> toml option) \<Rightarrow> (toml \<Rightarrow> config option) \<Rightarrow> string \<Rightarrow> string option \<Rightarrow> (string \<times> string) list
     \<Rightarrow> (load_error, config \<times> string list) outcome" where
  "load_config parse_toml interpret path contents vars =
     (case contents of
        None \<Rightarrow> Err (OpeningFailed path)
      | Some raw \<Rightarrow>
          (case parse_toml raw of
             None \<Rightarrow> Err ParsingFailed
           | Some value \<Rightarrow>
               obind (apply_env_overrides value vars) (\<lambda>(value1, applied).
                 case interpret value1 of
                   None \<Rightarrow> Err InterpretingFailed
                 | Some cfg \<Rightarrow>
                     (case validate cfg of
                        Err e \<Rightarrow> Err (Rejected e)
                      | _ \<Rightarrow> Ok (cfg, applied)))))"

section \<open>Credentials and paths\<close>

definition octal3 :: "nat \<Rightarrow> string" where
  "octal3 n = [digit_char (n div 64 mod 8), digit_char (n div 8 mod 8), digit_char (n mod 8)]"

text \<open>\<open>mode\<close> is that of the file, \<open>None\<close> when its metadata cannot be read.\<close>

definition credential_exposure_warning :: "string \<Rightarrow> nat option \<Rightarrow> config \<Rightarrow> string list \<Rightarrow> string option" where
  "credential_exposure_warning path mode cfg env_overrides =
     (let from_env = (\<lambda>key. key \<in> set env_overrides);
          has_password = (\<not> from_env ''bitcoin_rpc.password''
            \<and> (case rc_password (c_bitcoin_rpc cfg) of None \<Rightarrow> False | Some p \<Rightarrow> p \<noteq> []));
          in_url = (\<not> from_env ''bitcoin_rpc.url'' \<and> CHR ''@'' \<in> set (rc_url (c_bitcoin_rpc cfg)))
      in if \<not> has_password \<and> \<not> in_url then None
         else case mode of
                None \<Rightarrow> None
              | Some m \<Rightarrow>
                  if m mod 64 = 0 then None
                  else Some (path @ '' holds Bitcoin RPC credentials but is readable by other local users (mode ''
                    @ octal3 (m mod 512) @ ''); run `chmod 600 '' @ path @ ''` or switch to cookie_path''))"

text \<open>\<open>Path::join\<close>: an absolute second part replaces the first.\<close>

definition path_join :: "string \<Rightarrow> string \<Rightarrow> string" where
  "path_join base rest =
     (if rest \<noteq> [] \<and> hd rest = CHR ''/'' then rest
      else if base = [] \<or> last base = CHR ''/'' then base @ rest
      else base @ ''/'' @ rest)"

definition expand_tilde :: "string option \<Rightarrow> string \<Rightarrow> string" where
  "expand_tilde home path =
     (case strip_prefix ''~/'' path of
        Some rest \<Rightarrow> (case home of Some h \<Rightarrow> path_join h rest | None \<Rightarrow> path)
      | None \<Rightarrow> path)"

section \<open>The command line\<close>

datatype cli = Run string | Version | Help

fun parse_args :: "string list \<Rightarrow> cli" where
  "parse_args [] = Run ''config.toml''"
| "parse_args (a # rest) =
     (if a = ''-V'' \<or> a = ''--version'' then Version
      else if a = ''-h'' \<or> a = ''--help'' then Help
      else if a = ''--config'' then Run (case rest of [] \<Rightarrow> ''config.toml'' | path # _ \<Rightarrow> path)
      else Run a)"

section \<open>Lemmas on overrides\<close>

definition toml_lookup :: "(string \<times> toml) list \<Rightarrow> string \<Rightarrow> string \<Rightarrow> toml option" where
  "toml_lookup doc sect key =
     (case map_of doc sect of Some (TTable t) \<Rightarrow> map_of t key | _ \<Rightarrow> None)"

fun scalar_type :: "toml \<Rightarrow> nat option" where
  "scalar_type (TString _) = Some 0"
| "scalar_type (TInteger _) = Some 1"
| "scalar_type (TFloat _) = Some 2"
| "scalar_type (TBoolean _) = Some 3"
| "scalar_type _ = None"

text \<open>The override took effect: the type of the file, or a scalar where the file had nothing.\<close>

definition typed_as :: "toml option \<Rightarrow> toml option \<Rightarrow> bool" where
  "typed_as old new \<longleftrightarrow> (\<exists>v. new = Some v \<and> scalar_type v \<noteq> None \<and> (\<forall>o'. old = Some o' \<longrightarrow> scalar_type o' = scalar_type v))"

lemma infer_scalar: "scalar_type (infer_toml_scalar raw) \<noteq> None"
  by (simp add: infer_toml_scalar_def Let_def split: option.split)

lemma override_value_typed:
  assumes "override_value name sect key raw old = Ok v"
  shows "typed_as old (Some v)"
  using assms infer_scalar [of raw]
  by (auto simp: override_value_def Let_def typed_as_def split: option.splits toml.splits)

lemma lookup_update:
  "toml_lookup (AList.update sect (TTable (AList.update key v table)) doc) s k =
     (if s = sect then if k = key then Some v else map_of table k else toml_lookup doc s k)"
  by (simp add: toml_lookup_def update_conv')

lemma section_table:
  "(case map_of doc sect of None \<Rightarrow> Some [] | Some v \<Rightarrow> as_table v) = Some table \<Longrightarrow> map_of table k = toml_lookup doc sect k"
  by (auto simp: toml_lookup_def split: option.splits elim!: as_table.elims)

text \<open>One variable: not an override, or an override of one key with a value of its type.\<close>

lemma apply_overrides_step:
  assumes "apply_overrides doc ((name, raw) # vars) = Ok (doc', applied)"
  obtains (other) "override_target name = Ok None" "apply_overrides doc vars = Ok (doc', applied)"
  | (override) sect key v doc1 applied1 where "override_target name = Ok (Some (sect, key))"
      "override_value name sect key raw (toml_lookup doc sect key) = Ok v"
      "\<And>s k. toml_lookup doc1 s k = (if s = sect \<and> k = key then Some v else toml_lookup doc s k)"
      "\<And>s. s \<noteq> sect \<Longrightarrow> map_of doc1 s = map_of doc s"
      "apply_overrides doc1 vars = Ok (doc', applied1)" "applied = (sect, key) # applied1"
proof (cases "override_target name")
  case (Ok target)
  show ?thesis
  proof (cases target)
    case None
    then show ?thesis using assms Ok other by simp
  next
    case (Some sk)
    obtain sect key where sk: "sk = (sect, key)" by fastforce
    obtain table where t: "(case map_of doc sect of None \<Rightarrow> Some [] | Some v \<Rightarrow> as_table v) = Some table"
      using assms Ok Some sk by (auto split: option.splits)
    obtain v where v: "override_value name sect key raw (map_of table key) = Ok v"
      using assms Ok Some sk t by (cases "override_value name sect key raw (map_of table key)") auto
    define doc1 where "doc1 = AList.update sect (TTable (AList.update key v table)) doc"
    obtain applied1 where a: "apply_overrides doc1 vars = Ok (doc', applied1)" "applied = (sect, key) # applied1"
      using assms Ok Some sk t v by (auto simp: doc1_def)
    show ?thesis
    proof (rule override)
      show "override_target name = Ok (Some (sect, key))" using Ok Some sk by simp
      show "override_value name sect key raw (toml_lookup doc sect key) = Ok v" using v section_table [OF t] by simp
      show "toml_lookup doc1 s k = (if s = sect \<and> k = key then Some v else toml_lookup doc s k)" for s k
        using section_table [OF t] by (auto simp: doc1_def lookup_update)
      show "map_of doc1 s = map_of doc s" if "s \<noteq> sect" for s using that by (simp add: doc1_def update_conv')
    qed (use a in auto)
  qed
qed (use assms in auto)

lemma typed_as_trans: "typed_as a b \<Longrightarrow> typed_as b c \<Longrightarrow> typed_as a c"
  by (auto simp: typed_as_def)

lemma apply_overrides_typed:
  assumes "apply_overrides doc vars = Ok (doc', applied)"
  shows "(if (s, k) \<in> set applied then typed_as (toml_lookup doc s k) (toml_lookup doc' s k)
          else toml_lookup doc' s k = toml_lookup doc s k)
     \<and> (s \<notin> fst ` set applied \<longrightarrow> map_of doc' s = map_of doc s)"
  using assms
proof (induction vars arbitrary: doc applied)
  case (Cons var vars)
  obtain name raw where var: "var = (name, raw)" by fastforce
  from Cons.prems [unfolded var] show ?case
  proof (cases rule: apply_overrides_step)
    case other
    then show ?thesis using Cons.IH by blast
  next
    case (override sect key v doc1 applied1)
    note ih = Cons.IH [OF override(5)]
    have t: "typed_as (toml_lookup doc sect key) (Some v)" using override_value_typed [OF override(2)] .
    show ?thesis
    proof (cases "(s, k) = (sect, key)")
      case True
      then have "typed_as (Some v) (toml_lookup doc' s k) \<or> toml_lookup doc' s k = Some v"
        using ih override(3) [of s k] by (auto split: if_splits)
      then show ?thesis using True t typed_as_trans override(6) by auto
    next
      case False
      then show ?thesis using ih override(3) [of s k] override(4) [of s] override(6) by (auto split: if_splits)
    qed
  qed
qed simp

lemma apply_overrides_applied:
  assumes "apply_overrides doc vars = Ok (doc', applied)"
  shows "map (Ok \<circ> Some) applied = filter (\<lambda>t. t \<noteq> Ok None) (map (override_target \<circ> fst) vars)"
  using assms
proof (induction vars arbitrary: doc applied)
  case (Cons var vars)
  obtain name raw where var: "var = (name, raw)" by fastforce
  from Cons.prems [unfolded var] show ?case
    by (cases rule: apply_overrides_step) (use Cons.IH var in auto)
qed simp

lemma infer_quoted: "infer_toml_scalar (CHR 0x22 # s @ [CHR 0x22]) = TString s"
  by (simp add: infer_toml_scalar_def strip_prefix_def strip_suffix_def)

lemma check_hosts_not_Panic: "check_hosts hs \<noteq> Panic"
  by (induction hs) (auto simp: Let_def)

lemma validate_not_Panic: "validate cfg \<noteq> Panic"
  using check_hosts_not_Panic [of "mc_allowed_hosts (c_metrics cfg)"]
  by (auto simp: validate_def validate_vardiff_def Let_def obind_Panic_iff)

section \<open>Properties\<close>


text \<open>A file with a number and a text, and a variable that overrides the number.\<close>

definition sample_toml :: "(string \<times> toml) list" where
  "sample_toml = [(''a'', TTable [(''b'', TInteger 2000), (''c'', TString ''x'')])]"

lemma sample_targets:
  "override_target ''SOLO_POOL_A__B'' = Ok (Some (''a'', ''b''))" "override_target ''HOME'' = Ok None"
proof -
  have "to_ascii_lower CHR ''A'' = CHR ''a''" "to_ascii_lower CHR ''B'' = CHR ''b''" by (simp_all add: to_ascii_lower_def char_of_def bit_0)
  then show "override_target ''SOLO_POOL_A__B'' = Ok (Some (''a'', ''b''))"
    by (simp add: override_target_def ENV_PREFIX_def strip_prefix_def split_once_text.simps)
  show "override_target ''HOME'' = Ok None" by (simp add: override_target_def ENV_PREFIX_def strip_prefix_def)
qed


end
