(* ===== verification/Dashboard.thy ===== *)
theory Dashboard
  imports Stats_History Config_Load
begin

text \<open>
  \<^verbatim>\<open>src/src/network/dashboard.rs\<close>: the HTTP routes of the dashboard. The guard on the two
  mutating routes (host names, DNS rebinding and cross-origin requests), the change of the
  payout address across settings, statistics and template engine, the data of the chart, and the
  table of routes.
  A request is the value of its headers and body, a response a value of \<open>response\<close>. The page
  itself, its assets, the chart's styling and the HTTP server are not modelled.
\<close>

section \<open>Addresses, as the standard library reads them\<close>

text \<open>\<open>Parser::read_number\<close> for the numbers of an IPv4 address and the groups of an IPv6 address.\<close>

definition is_digit :: "char \<Rightarrow> bool" where
  "is_digit c \<longleftrightarrow> CHR ''0'' \<le> c \<and> c \<le> CHR ''9''"

definition read_octet :: "string \<Rightarrow> string option" where
  "read_octet s =
     (let ds = takeWhile is_digit s
      in if ds = [] \<or> length ds > 3 \<or> (hd ds = CHR ''0'' \<and> length ds > 1)
            \<or> foldl (\<lambda>n c. 10 * n + (of_char c - 48)) 0 ds > (255 :: nat)
         then None else Some (drop (length ds) s))"

definition read_char :: "char \<Rightarrow> string \<Rightarrow> string option" where
  "read_char c s = (case s of [] \<Rightarrow> None | x # xs \<Rightarrow> if x = c then Some xs else None)"

definition read_ipv4 :: "string \<Rightarrow> string option" where
  "read_ipv4 s =
     Option.bind (read_octet s) (\<lambda>s. Option.bind (read_char CHR ''.'' s) (\<lambda>s.
     Option.bind (read_octet s) (\<lambda>s. Option.bind (read_char CHR ''.'' s) (\<lambda>s.
     Option.bind (read_octet s) (\<lambda>s. Option.bind (read_char CHR ''.'' s) read_octet)))))"

definition read_group :: "string \<Rightarrow> string option" where
  "read_group s =
     (let ds = takeWhile is_ascii_hexdigit s
      in if ds = [] \<or> length ds > 4 then None else Some (drop (length ds) s))"

text \<open>
  \<open>read_groups\<close>: up to the given number of groups, an embedded IPv4 address counting as two;
  how many were read, whether the last was an IPv4 address, and what is left.
\<close>

fun read_groups :: "bool \<Rightarrow> nat \<Rightarrow> string \<Rightarrow> nat \<times> bool \<times> string" where
  "read_groups first 0 s = (0, False, s)"
| "read_groups first (Suc k) s =
     (let sep = (if first then Some s else read_char CHR '':'' s)
      in case (if k > 0 then Option.bind sep read_ipv4 else None) of
           Some rest \<Rightarrow> (2, True, rest)
         | None \<Rightarrow>
             (case Option.bind sep read_group of
                None \<Rightarrow> (0, False, s)
              | Some rest \<Rightarrow> (let (n, v4, left) = read_groups False k rest in (Suc n, v4, left))))"

definition read_ipv6 :: "string \<Rightarrow> string option" where
  "read_ipv6 s =
     (let (n, v4, rest) = read_groups True 8 s
      in if n = 8 then Some rest
         else if v4 then None
         else Option.bind (Option.bind (read_char CHR '':'' rest) (read_char CHR '':'')) (\<lambda>rest2.
                Some (snd (snd (read_groups True (8 - (n + 1)) rest2)))))"

definition parses_as_ip :: "string \<Rightarrow> bool" where
  "parses_as_ip s =
     (case read_ipv4 s of
        Some rest \<Rightarrow> rest = []
      | None \<Rightarrow> read_ipv6 s = Some [])"

section \<open>The guard on mutating routes\<close>

definition LOCAL_SUFFIXES :: "string list" where
  "LOCAL_SUFFIXES = [''.localhost'', ''.local'', ''.lan'', ''.home'', ''.home.arpa'', ''.internal'', ''.intranet'', ''.private'']"

definition rsplit_once :: "char \<Rightarrow> string \<Rightarrow> (string \<times> string) option" where
  "rsplit_once c s = map_option (\<lambda>(a, b). (rev b, rev a)) (split_once c (rev s))"

definition authority_host :: "string \<Rightarrow> string option" where
  "authority_host authority0 =
     (let authority = str_trim authority0;
          host = (case strip_prefix ''['' authority of
                    Some rest \<Rightarrow> takeWhile (\<lambda>c. c \<noteq> CHR '']'') rest
                  | None \<Rightarrow>
                      (case rsplit_once CHR '':'' authority of
                         Some (h, port) \<Rightarrow>
                           if CHR '':'' \<notin> set h \<and> list_all is_digit port then h else authority
                       | None \<Rightarrow> authority));
          host1 = map to_ascii_lower (rev (dropWhile (\<lambda>c. c = CHR ''.'') (rev host)))
      in if host1 = [] then None else Some host1)"

definition ends_with :: "string \<Rightarrow> string \<Rightarrow> bool" where
  "ends_with s suf \<longleftrightarrow> strip_suffix suf s \<noteq> None"

definition is_local_host :: "string \<Rightarrow> bool" where
  "is_local_host host \<longleftrightarrow>
     parses_as_ip host \<or> host = ''localhost'' \<or> CHR ''.'' \<notin> set host \<or> list_ex (ends_with host) LOCAL_SUFFIXES"

text \<open>A header value: readable as text or not (\<open>HeaderValue::to_str\<close>).\<close>

datatype header_value = Readable string | Unreadable

record headers =
  hd_host :: "header_value option"
  hd_origin :: "header_value option"

text \<open>The messages of the guard, as values.\<close>

datatype origin_error = MissingHost | EmptyHost | NotALocalName string | UnreadableOrigin | CrossOrigin string string

definition origin_authority :: "string \<Rightarrow> string" where
  "origin_authority origin =
     (case split_once_text ''://'' origin of None \<Rightarrow> [] | Some (_, rest) \<Rightarrow> takeWhile (\<lambda>c. c \<noteq> CHR ''/'') rest)"

definition eq_ignore_ascii_case :: "string \<Rightarrow> string \<Rightarrow> bool" where
  "eq_ignore_ascii_case a b \<longleftrightarrow> map to_ascii_lower a = map to_ascii_lower b"

definition check_mutation_origin :: "headers \<Rightarrow> string list \<Rightarrow> (origin_error, unit) outcome" where
  "check_mutation_origin h allowed_hosts =
     (case hd_host h of
        Some (Readable host_hdr) \<Rightarrow>
          (case authority_host host_hdr of
             None \<Rightarrow> Err EmptyHost
           | Some host \<Rightarrow>
               if \<not> is_local_host host \<and> host \<notin> set allowed_hosts then Err (NotALocalName host)
               else
                 (case hd_origin h of
                    None \<Rightarrow> Ok ()
                  | Some Unreadable \<Rightarrow> Err UnreadableOrigin
                  | Some (Readable origin) \<Rightarrow>
                      if origin = ''null'' \<or> \<not> eq_ignore_ascii_case (origin_authority origin) (str_trim host_hdr)
                      then Err (CrossOrigin origin (str_trim host_hdr)) else Ok ()))
      | _ \<Rightarrow> Err MissingHost)"

section \<open>State and routes\<close>

text \<open>
  The shared pieces the routes reach: the runtime settings are those of the engine. The
  rendered metrics are the text of the exporter, when there is one.
\<close>

record dash_state =
  ds_stats :: pool_stats
  ds_prometheus :: "string option"
  ds_engine :: template_engine
  ds_allow_settings :: bool
  ds_stratum_port :: nat
  ds_sv2_enabled :: bool
  ds_sv2_authority_pubkey :: "string option"
  ds_allowed_hosts :: "string list"

datatype forbidden_reason = SettingsDisabled | BadOrigin origin_error

datatype response =
    Forbidden forbidden_reason
  | UnprocessableEntity address_error
  | WatermarkReset
  | Saved bool

text \<open>The last segment of the listen address, when it is a port.\<close>

definition stratum_port_of :: "string \<Rightarrow> nat" where
  "stratum_port_of listen_addr =
     (let seg = rev (takeWhile (\<lambda>c. c \<noteq> CHR '':'') (rev listen_addr))
      in case from_str_radix 16 10 seg of None \<Rightarrow> 0 | Some n \<Rightarrow> n)"

definition dashboard_start ::
  "pool_stats \<Rightarrow> string option \<Rightarrow> template_engine \<Rightarrow> bool \<Rightarrow> string \<Rightarrow> bool \<Rightarrow> string option \<Rightarrow> string list \<Rightarrow> dash_state" where
  "dashboard_start stats prometheus engine allow_settings stratum_listen_addr sv2_enabled sv2_authority_pubkey allowed_hosts =
     \<lparr>ds_stats = stats, ds_prometheus = prometheus, ds_engine = engine, ds_allow_settings = allow_settings,
      ds_stratum_port = stratum_port_of stratum_listen_addr, ds_sv2_enabled = sv2_enabled,
      ds_sv2_authority_pubkey = sv2_authority_pubkey, ds_allowed_hosts = List.map_filter authority_host allowed_hosts\<rparr>"

definition stats_json :: "nat \<Rightarrow> u64 \<Rightarrow> dash_state \<Rightarrow> stats_snapshot" where
  "stats_json instant now st =
     (let snap = PoolStats_snapshot instant now (ds_stats st);
          snap1 = (case en_current_job (ds_engine st) of
                     None \<Rightarrow> snap | Some job \<Rightarrow> snap\<lparr>sn_template_version := j_version job\<rparr>);
          health = template_health instant (ds_engine st)
      in snap1\<lparr>sn_template_age_secs := th_age_secs health, sn_template_error := th_error health\<rparr>)"

record info_view =
  iv_stratum_port :: nat
  iv_sv2_enabled :: bool
  iv_sv2_authority_pubkey :: "string option"
  iv_network :: string
  iv_coinbase_address :: string

definition info_get :: "dash_state \<Rightarrow> info_view" where
  "info_get st =
     \<lparr>iv_stratum_port = ds_stratum_port st, iv_sv2_enabled = ds_sv2_enabled st,
      iv_sv2_authority_pubkey = ds_sv2_authority_pubkey st,
      iv_network = rs_network (en_settings (ds_engine st)),
      iv_coinbase_address = as_address (rs_state (en_settings (ds_engine st)))\<rparr>"

text \<open>\<open>None\<close> is the answer \<^verbatim>\<open>503\<close>.\<close>

definition metrics_text :: "dash_state \<Rightarrow> string option" where
  "metrics_text st = ds_prometheus st"

definition history_json :: "u64 option \<Rightarrow> dash_state \<Rightarrow> (u64 \<times> f64) list" where
  "history_json since st =
     PoolStats_get_hashrate_history (case since of None \<Rightarrow> 0 | Some t \<Rightarrow> t) (ds_stats st)"

record settings_view =
  sv_coinbase_address :: string
  sv_network :: string
  sv_address_valid :: bool
  sv_persisted :: bool
  sv_editable :: bool

definition settings_get :: "dash_state \<Rightarrow> settings_view" where
  "settings_get st =
     (let s = en_settings (ds_engine st)
      in \<lparr>sv_coinbase_address = as_address (rs_state s), sv_network = rs_network s,
          sv_address_valid = as_valid (rs_state s), sv_persisted = has_store (ds_stats st),
          sv_editable = ds_allow_settings st\<rparr>)"

definition reset_best_hashrate_post :: "bool \<Rightarrow> headers \<Rightarrow> dash_state \<Rightarrow> response \<times> dash_state" where
  "reset_best_hashrate_post ok h st =
     (if \<not> ds_allow_settings st then (Forbidden SettingsDisabled, st)
      else case check_mutation_origin h (ds_allowed_hosts st) of
             Err e \<Rightarrow> (Forbidden (BadOrigin e), st)
           | _ \<Rightarrow> (WatermarkReset, st\<lparr>ds_stats := reset_best_hashrate ok (ds_stats st)\<rparr>))"

text \<open>What a refresh of the engine does to the statistics.\<close>

fun stats_effect :: "engine_effect \<Rightarrow> pool_stats \<Rightarrow> pool_stats" where
  "stats_effect (StatsUpdateHeight h v n) p = update_height h v (of_nat n) p"
| "stats_effect (StatsNetworkDifficulty d) p = set_network_difficulty d p"
| "stats_effect _ p = p"

definition settings_post ::
  "crates \<Rightarrow> u64 \<Rightarrow> node_view \<Rightarrow> nat \<Rightarrow> nat \<Rightarrow> bool \<Rightarrow> headers \<Rightarrow> string \<Rightarrow> dash_state
     \<Rightarrow> (response \<times> dash_state \<times> engine_effect list) result" where
  "settings_post C millis view ok_at created_at save_ok h coinbase_address st =
     (if \<not> ds_allow_settings st then Ok (Forbidden SettingsDisabled, st, [])
      else case check_mutation_origin h (ds_allowed_hosts st) of
             Err e \<Rightarrow> Ok (Forbidden (BadOrigin e), st, [])
           | Panic \<Rightarrow> Panic
           | Ok _ \<Rightarrow>
               (let address = str_trim coinbase_address
                in case Settings_update C address (en_settings (ds_engine st)) of
                     Err e \<Rightarrow> Ok (UnprocessableEntity e, st, [])
                   | Panic \<Rightarrow> Panic
                   | Ok settings \<Rightarrow>
                       (let (persisted, stats) = save_setting save_ok ''coinbase_address'' address (ds_stats st)
                        in obind (force_refresh C millis view ok_at created_at
                                    ((ds_engine st)\<lparr>en_settings := settings\<rparr>)) (\<lambda>(engine, effs).
                             Ok (Saved persisted,
                                 st\<lparr>ds_engine := engine, ds_stats := fold stats_effect effs stats\<rparr>, effs)))))"

section \<open>The chart\<close>

definition CHART_GAP_SECS :: u64 where
  "CHART_GAP_SECS = 25 * 60"

text \<open>The loop, with the time of the sample last put out.\<close>

fun with_gaps_loop :: "u64 option \<Rightarrow> u64 \<Rightarrow> (u64 \<times> f64) list \<Rightarrow> (u64 \<times> f64 option) list" where
  "with_gaps_loop prev max_gap_secs [] = []"
| "with_gaps_loop prev max_gap_secs ((ts, hps) # history) =
     (case prev of
        Some prev_ts \<Rightarrow>
          if sat_sub ts prev_ts > max_gap_secs then [(prev_ts + (ts - prev_ts) div 2, None)] else []
      | None \<Rightarrow> [])
     @ (ts, Some hps) # with_gaps_loop (Some ts) max_gap_secs history"

definition with_gaps :: "(u64 \<times> f64) list \<Rightarrow> u64 \<Rightarrow> (u64 \<times> f64 option) list" where
  "with_gaps history max_gap_secs = with_gaps_loop None max_gap_secs history"

definition chart_window_secs :: "string option \<Rightarrow> u64" where
  "chart_window_secs window =
     (let w = (case window of None \<Rightarrow> ''36h'' | Some w \<Rightarrow> w)
      in if w = ''36h'' then 36 * 3600
         else if w = ''1w'' then 7 * 24 * 3600
         else if w = ''1m'' then 30 * 24 * 3600
         else if w = ''6m'' then 6 * 30 * 24 * 3600
         else 0)"

text \<open>The data of the chart: times in milliseconds as signed numbers. The clock is read twice.\<close>

definition chart_data :: "nat \<Rightarrow> u64 \<Rightarrow> u64 \<Rightarrow> u64 \<Rightarrow> string option \<Rightarrow> dash_state \<Rightarrow> (int \<times> f64 option) list" where
  "chart_data instant now1 now2 now3 window st =
     (let window_secs = chart_window_secs window;
          since = (if window_secs > 0 then sat_sub now1 window_secs else 0);
          history = PoolStats_get_hashrate_history since (ds_stats st)
            @ [(now2, sn_total_hashrate_10m (PoolStats_snapshot instant now3 (ds_stats st)))]
      in map (\<lambda>(ts, hps). (sint (ts * 1000), hps)) (with_gaps history CHART_GAP_SECS))"

section \<open>The guard\<close>

text \<open>The requests that may change something: a host no public resolver leads to, or a listed one, and no foreign origin.\<close>

definition trusted_request :: "headers \<Rightarrow> string list \<Rightarrow> bool" where
  "trusted_request h allowed_hosts \<longleftrightarrow>
     (\<exists>host_hdr host. hd_host h = Some (Readable host_hdr) \<and> authority_host host_hdr = Some host
        \<and> (is_local_host host \<or> host \<in> set allowed_hosts)
        \<and> (hd_origin h = None
           \<or> (\<exists>origin. hd_origin h = Some (Readable origin) \<and> origin \<noteq> ''null''
                \<and> eq_ignore_ascii_case (origin_authority origin) (str_trim host_hdr))))"

lemma check_mutation_origin_iff: "check_mutation_origin h allowed = Ok () \<longleftrightarrow> trusted_request h allowed"
  by (auto simp: check_mutation_origin_def trusted_request_def split: option.splits header_value.splits)

lemma check_mutation_origin_no_panic: "check_mutation_origin h allowed \<noteq> Panic"
  by (auto simp: check_mutation_origin_def split: option.splits header_value.splits)

lemma check_cases:
  obtains (trusted) "check_mutation_origin h allowed = Ok ()" "trusted_request h allowed"
  | (refused) e where "check_mutation_origin h allowed = Err e" "\<not> trusted_request h allowed"
proof (cases "check_mutation_origin h allowed")
  case (Ok u)
  then show ?thesis using trusted check_mutation_origin_iff [of h allowed] by (cases u) simp
next
  case (Err e)
  then show ?thesis using refused check_mutation_origin_iff [of h allowed] by simp
next
  case Panic
  then show ?thesis using check_mutation_origin_no_panic by blast
qed

lemma settings_post_cases:
  assumes "settings_post C millis view ok_at created_at save_ok h a st = Ok (r, st', effs)"
  obtains (forbidden) why where "\<not> (ds_allow_settings st \<and> trusted_request h (ds_allowed_hosts st))" "r = Forbidden why"
      "st' = st" "effs = []"
    | (bad_address) e where "ds_allow_settings st" "trusted_request h (ds_allowed_hosts st)"
      "Settings_update C (str_trim a) (en_settings (ds_engine st)) = Err e" "r = UnprocessableEntity e" "st' = st" "effs = []"
    | (saved) s engine where "ds_allow_settings st" "trusted_request h (ds_allowed_hosts st)"
      "Settings_update C (str_trim a) (en_settings (ds_engine st)) = Ok s"
      "r = Saved (fst (save_setting save_ok ''coinbase_address'' (str_trim a) (ds_stats st)))"
      "force_refresh C millis view ok_at created_at ((ds_engine st)\<lparr>en_settings := s\<rparr>) = Ok (engine, effs)"
      "st' = st\<lparr>ds_engine := engine, ds_stats := fold stats_effect effs
         (snd (save_setting save_ok ''coinbase_address'' (str_trim a) (ds_stats st)))\<rparr>"
proof (cases "ds_allow_settings st")
  case False
  then have "r = Forbidden SettingsDisabled" "st' = st" "effs = []" using assms by (simp_all add: settings_post_def)
  then show thesis using False by (intro forbidden) simp_all
next
  case allow: True
  show thesis
  proof (cases rule: check_cases [of h "ds_allowed_hosts st"])
    case (refused e)
    then have "r = Forbidden (BadOrigin e)" "st' = st" "effs = []" using assms allow by (simp_all add: settings_post_def)
    then show thesis using refused(2) by (intro forbidden) simp_all
  next
    case trusted
    let ?upd = "Settings_update C (str_trim a) (en_settings (ds_engine st))"
    show thesis
    proof (cases ?upd)
      case (Ok s)
      obtain persisted stats where sv: "save_setting save_ok ''coinbase_address'' (str_trim a) (ds_stats st) = (persisted, stats)"
        by fastforce
      let ?fr = "force_refresh C millis view ok_at created_at ((ds_engine st)\<lparr>en_settings := s\<rparr>)"
      have eq: "settings_post C millis view ok_at created_at save_ok h a st = obind ?fr (\<lambda>(engine, effs).
          outcome.Ok (Saved persisted, st\<lparr>ds_engine := engine, ds_stats := fold stats_effect effs stats\<rparr>, effs))"
        using allow trusted(1) Ok sv by (simp add: settings_post_def)
      then obtain engine where "?fr = outcome.Ok (engine, effs)" "r = Saved persisted"
          "st' = st\<lparr>ds_engine := engine, ds_stats := fold stats_effect effs stats\<rparr>"
        using assms by (cases ?fr) auto
      then show thesis using allow trusted(2) Ok sv by (intro saved [of s engine]) simp_all
    next
      case (Err e)
      then have "r = UnprocessableEntity e" "st' = st" "effs = []"
        using assms allow trusted(1) by (simp_all add: settings_post_def)
      then show thesis using allow trusted(2) Err by (intro bad_address) simp_all
    next
      case Panic
      then have "settings_post C millis view ok_at created_at save_ok h a st = outcome.Panic"
        using allow trusted(1) by (simp add: settings_post_def)
      then show thesis using assms by simp
    qed
  qed
qed

lemma reset_cases:
  assumes "reset_best_hashrate_post ok h st = (r, st')"
  shows "if ds_allow_settings st \<and> trusted_request h (ds_allowed_hosts st)
     then r = WatermarkReset \<and> st' = st\<lparr>ds_stats := reset_best_hashrate ok (ds_stats st)\<rparr>
     else (\<exists>why. r = Forbidden why) \<and> st' = st"
  using assms by (cases rule: check_cases [of h "ds_allowed_hosts st"])
    (auto simp: reset_best_hashrate_post_def split: if_splits)

section \<open>Saved settings\<close>

lemma save_setting_loads:
  assumes "has_store p"
  shows "fst (save_setting True key v p)" and "load_setting k (snd (save_setting True key v p))
     = (if k = key then Some v else load_setting k p)"
  using assms by (auto simp: save_setting_def set_setting_def load_setting_def get_setting_def has_store_def
      update_conv' split: option.splits)

lemma stats_effects_store: "st_store (fold stats_effect effs p) = st_store p"
proof (induction effs arbitrary: p)
  case (Cons eff effs)
  have "st_store (stats_effect eff p) = st_store p"
    by (cases eff) (simp_all add: update_height_def set_network_difficulty_def)
  then show ?case using Cons.IH by simp
qed simp

section \<open>The chart\<close>

definition valued :: "(u64 \<times> f64 option) list \<Rightarrow> (u64 \<times> f64) list" where
  "valued out = List.map_filter (\<lambda>(ts, hps). map_option (Pair ts) hps) out"

lemma valued_simps [simp]:
  "valued [] = []" "valued ((ts, None) # out) = valued out" "valued ((ts, Some hps) # out) = (ts, hps) # valued out"
  by (simp_all add: valued_def map_filter_simps)

lemma valued_with_gaps: "valued (with_gaps_loop prev g history) = history"
  by (induction prev g history rule: with_gaps_loop.induct) (auto split: option.splits)

lemma midpoint:
  fixes a b :: u64
  assumes "a < b"
  shows "a \<le> a + (b - a) div 2" and "a + (b - a) div 2 < b" 
proof -
  have d: "unat (b - a) = unat b - unat a" using assms by (simp add: unat_sub)
  have lt: "unat a < unat b" using assms by (simp add: word_less_nat_alt)
  have "unat ((b - a) div 2) = (unat b - unat a) div 2" using d by (simp add: unat_div)
  moreover have "unat a + (unat b - unat a) div 2 < 2 ^ LENGTH(64)" using lt unsigned_less [of b, where ?'a = nat] by simp
  ultimately have "unat (a + (b - a) div 2) = unat a + (unat b - unat a) div 2"
    by (simp only: unat_word_ariths mod_less)
  then show "a \<le> a + (b - a) div 2" "a + (b - a) div 2 < b"
    using lt by (auto simp: word_le_nat_alt word_less_nat_alt)
qed

lemma with_gaps_sorted:
  "sorted ((case prev of None \<Rightarrow> [] | Some p \<Rightarrow> [p]) @ map fst history) \<Longrightarrow>
     sorted ((case prev of None \<Rightarrow> [] | Some p \<Rightarrow> [p]) @ map fst (with_gaps_loop prev g history))"
proof (induction prev g history rule: with_gaps_loop.induct)
  case (2 prev g ts hps history)
  have tail: "sorted (ts # map fst (with_gaps_loop (Some ts) g history))"
    using 2 by (auto split: option.splits)
  show ?case
  proof (cases prev)
    case None
    then show ?thesis using tail by simp
  next
    case (Some p)
    have le: "p \<le> ts" using 2 Some by simp
    show ?thesis
    proof (cases "sat_sub ts p > g")
      case True
      then have "p < ts" using le by (auto simp: sat_sub_def le_less)
      then show ?thesis using Some True tail midpoint [of p ts] by auto
    next
      case False
      then show ?thesis using Some le tail by auto
    qed
  qed
qed (simp split: option.splits)

text \<open>No two neighbouring samples both carry a value and lie further apart than the gap.\<close>

definition gaps_marked :: "u64 \<Rightarrow> (u64 \<times> f64 option) list \<Rightarrow> bool" where
  "gaps_marked g out \<longleftrightarrow>
     successively (\<lambda>a b. snd a \<noteq> None \<and> snd b \<noteq> None \<longrightarrow> sat_sub (fst b) (fst a) \<le> g) out"

lemma with_gaps_marked:
  "gaps_marked g ((case prev of None \<Rightarrow> [] | Some p \<Rightarrow> [(p, Some q)]) @ with_gaps_loop prev g history)"
  unfolding gaps_marked_def
  by (induction prev g history arbitrary: q rule: with_gaps_loop.induct)
    (auto split: option.splits simp: not_less)

section \<open>Properties\<close>

text \<open>
  The chart shows what was recorded and nothing else. Dropping the inserted null samples
  gives back the history; for a history in time order the samples stay in time order, and the
  line is broken exactly where it must be: no two neighbouring values are further apart than
  the gap, so a slope is never drawn across an outage.
\<close>

theorem chart_breaks_at_outages:
  assumes "sorted (map fst history)"
  shows "valued (with_gaps history g) = history \<and> sorted (map fst (with_gaps history g))
     \<and> gaps_marked g (with_gaps history g)"
  using assms with_gaps_sorted [of None history g] with_gaps_marked [where g = g and prev = None and history = history]
  by (simp add: with_gaps_def valued_with_gaps)

theorem chart_witness:
  "valued (with_gaps [(0, Fin 1), (600, Fin 2), (6000, Fin 3)] CHART_GAP_SECS) = [(0, Fin 1), (600, Fin 2), (6000, Fin 3)]
   \<and> with_gaps [(0, Fin 1), (600, Fin 2), (6000, Fin 3)] CHART_GAP_SECS
       = [(0, Some (Fin 1)), (600, Some (Fin 2)), (3300, None), (6000, Some (Fin 3))]"
proof -
  have "sorted (map fst [(0 :: u64, Fin 1), (600, Fin 2), (6000, Fin 3)])" by simp
  from chart_breaks_at_outages [OF this, of CHART_GAP_SECS] show ?thesis
    by (simp add: with_gaps_def CHART_GAP_SECS_def sat_sub_def)
qed

text \<open>
  Only a trusted request changes anything. Each of the two mutating routes refuses, and
  leaves the state as it was, exactly when runtime settings are disabled or the request could
  come from a foreign page: its host is neither local nor listed, or its origin is another site.
\<close>

theorem only_trusted_requests_mutate:
  "(\<forall>r st' effs. settings_post C millis view ok_at created_at save_ok h address st = Ok (r, st', effs) \<longrightarrow>
      ((\<exists>why. r = Forbidden why) \<longleftrightarrow> \<not> (ds_allow_settings st \<and> trusted_request h (ds_allowed_hosts st)))
      \<and> ((\<forall>persisted. r \<noteq> Saved persisted) \<longrightarrow> st' = st \<and> effs = []))
   \<and> (\<forall>r st'. reset_best_hashrate_post ok h st = (r, st') \<longrightarrow>
      (if ds_allow_settings st \<and> trusted_request h (ds_allowed_hosts st)
       then r = WatermarkReset \<and> st' = st\<lparr>ds_stats := reset_best_hashrate ok (ds_stats st)\<rparr>
       else (\<exists>why. r = Forbidden why) \<and> st' = st))"
proof (intro conjI allI impI)
  fix r st' effs
  assume p: "settings_post C millis view ok_at created_at save_ok h address st = Ok (r, st', effs)"
  from p show "(\<exists>why. r = Forbidden why) \<longleftrightarrow> \<not> (ds_allow_settings st \<and> trusted_request h (ds_allowed_hosts st))"
    by (cases rule: settings_post_cases) auto
  show "st' = st" if "\<forall>persisted. r \<noteq> Saved persisted"
    using p that by (cases rule: settings_post_cases) auto
  show "effs = []" if "\<forall>persisted. r \<noteq> Saved persisted"
    using p that by (cases rule: settings_post_cases) auto
qed (rule reset_cases)

lemmas host_eval = authority_host_def rsplit_once_def to_ascii_lower_def is_digit_def strip_prefix_def

lemmas local_eval = is_local_host_def parses_as_ip_def read_ipv4_def read_octet_def read_ipv6_def numeral_eq_Suc
  read_group_def read_char_def is_digit_def is_ascii_hexdigit_def ends_with_def strip_suffix_def strip_prefix_def
  LOCAL_SUFFIXES_def

lemma foreign_host: "authority_host ''Attacker.Example:8080'' = Some ''attacker.example''" "\<not> is_local_host ''attacker.example''"
  by (simp add: host_eval text_eval) (simp add: local_eval)

lemma lan_host: "authority_host ''192.168.1.20:8080'' = Some ''192.168.1.20''" "is_local_host ''192.168.1.20''"
  by (simp add: host_eval text_eval)
    (simp add: is_local_host_def parses_as_ip_def read_ipv4_def read_octet_def read_char_def is_digit_def)

lemma link_local_host: "authority_host ''[fe80::1]:80'' = Some ''fe80::1''" "is_local_host ''fe80::1''"
  by (simp add: host_eval text_eval) (simp add: is_local_host_def)

definition foreign_headers :: headers where
  "foreign_headers = \<lparr>hd_host = Some (Readable ''Attacker.Example:8080''), hd_origin = None\<rparr>"

definition lan_headers :: headers where
  "lan_headers = \<lparr>hd_host = Some (Readable ''192.168.1.20:8080''), hd_origin = Some (Readable ''http://192.168.1.20:8080'')\<rparr>"

definition sample_dash :: dash_state where
  "sample_dash = dashboard_start (PoolStats_new_with_store 0 9 True (Opened empty_tables)) None sample_engine True
     ''0.0.0.0:3333'' False None [''pool.example:443'']"

lemma sample_dash_fields [simp]:
  "ds_allow_settings sample_dash" "ds_allowed_hosts sample_dash = [''pool.example'']"
  "ds_engine sample_dash = sample_engine" "has_store (ds_stats sample_dash)"
proof -
  have "authority_host ''pool.example:443'' = Some ''pool.example''" by (simp add: host_eval text_eval)
  then show "ds_allowed_hosts sample_dash = [''pool.example'']"
    by (simp add: sample_dash_def dashboard_start_def map_filter_simps)
  show "ds_allow_settings sample_dash" "ds_engine sample_dash = sample_engine"
    by (simp_all add: sample_dash_def dashboard_start_def)
  have "load_values empty_tables \<noteq> None"
    by (simp add: load_values_def empty_tables_def get_u64_def)
  then show "has_store (ds_stats sample_dash)"
    by (auto simp: sample_dash_def dashboard_start_def has_store_def PoolStats_new_with_store_def Let_def split: option.splits)
qed

theorem only_trusted_requests_witness:
  "\<exists>why. reset_best_hashrate_post True foreign_headers sample_dash = (Forbidden why, sample_dash)"
proof -
  have "\<not> trusted_request foreign_headers [''pool.example'']"
    using foreign_host by (simp add: trusted_request_def foreign_headers_def)
  then show ?thesis
    using only_trusted_requests_mutate [of C millis view ok_at created_at save_ok foreign_headers
        address sample_dash True]
    by (cases "reset_best_hashrate_post True foreign_headers sample_dash") auto
qed


lemma lan_request_passes: "check_mutation_origin lan_headers [''pool.example''] = Ok ()"
  by (simp add: check_mutation_origin_def lan_headers_def lan_host eq_ignore_ascii_case_def origin_authority_def
      split_once_text.simps text_eval)

lemma sample_update: "Settings_update sample_crates ''bc1q'' sample_settings = Ok sample_settings"
  by (simp add: Settings_update_def validate_address_def network_of_name_def sample_crates_def sample_settings_def)


section \<open>The router\<close>

text \<open>
  The table of routes. A request that reaches a handler has passed its extractors: the query of
  \<^verbatim>\<open>/history\<close> and \<^verbatim>\<open>/chart\<close> and the JSON body of \<^verbatim>\<open>/api/settings\<close> are what the framework reads from
  it, \<open>None\<close> when it cannot. As the framework documents, a \<open>get\<close> route also serves \<^verbatim>\<open>HEAD\<close>, an
  unknown path is not found and a known one with another method is not allowed.
\<close>

datatype http_method = GET | HEAD | POST | OtherMethod

record http_request =
  hr_method :: http_method
  hr_path :: string
  hr_headers :: headers
  hr_since :: "u64 option option"
  hr_window :: "string option option"
  hr_coinbase_address :: "string option"

datatype asset = DashboardHtml | Favicon | LogoDark | LogoLight

datatype answer =
    Asset asset
  | StatsJson stats_snapshot
  | HistoryJson "(u64 \<times> f64) list"
  | ChartJson "(int \<times> f64 option) list"
  | SettingsJson settings_view
  | InfoJson info_view
  | MetricsText "string option"
  | Mutation response
  | BadRequest
  | RouteNotFound
  | MethodNotAllowed

text \<open>What a handler reads besides the request: clocks, the node, and whether the database takes the write.\<close>

record route_io =
  ro_instant :: nat
  ro_now1 :: u64
  ro_now2 :: u64
  ro_now3 :: u64
  ro_view :: node_view
  ro_ok_at :: nat
  ro_created_at :: nat
  ro_write_ok :: bool

definition get_route :: "answer \<Rightarrow> http_request \<Rightarrow> dash_state \<Rightarrow> (answer \<times> dash_state \<times> engine_effect list) result" where
  "get_route a req st = Ok (if hr_method req \<in> {GET, HEAD} then a else MethodNotAllowed, st, [])"

definition dashboard_route ::
  "crates \<Rightarrow> u64 \<Rightarrow> route_io \<Rightarrow> http_request \<Rightarrow> dash_state \<Rightarrow> (answer \<times> dash_state \<times> engine_effect list) result" where
  "dashboard_route C millis io req st =
     (if hr_path req = ''/'' then get_route (Asset DashboardHtml) req st
      else if hr_path req = ''/favicon.ico'' then get_route (Asset Favicon) req st
      else if hr_path req = ''/logo-dark.svg'' then get_route (Asset LogoDark) req st
      else if hr_path req = ''/logo-light.svg'' then get_route (Asset LogoLight) req st
      else if hr_path req = ''/stats'' then get_route (StatsJson (stats_json (ro_instant io) (ro_now1 io) st)) req st
      else if hr_path req = ''/history'' then
        get_route (case hr_since req of None \<Rightarrow> BadRequest | Some since \<Rightarrow> HistoryJson (history_json since st)) req st
      else if hr_path req = ''/chart'' then
        get_route (case hr_window req of
                 None \<Rightarrow> BadRequest
               | Some window \<Rightarrow> ChartJson (chart_data (ro_instant io) (ro_now1 io) (ro_now2 io) (ro_now3 io) window st)) req st
      else if hr_path req = ''/api/settings'' then
        (if hr_method req = POST then
           (case hr_coinbase_address req of
              None \<Rightarrow> Ok (BadRequest, st, [])
            | Some address \<Rightarrow>
                obind (settings_post C millis (ro_view io) (ro_ok_at io) (ro_created_at io) (ro_write_ok io)
                         (hr_headers req) address st) (\<lambda>(r, st', effs). Ok (Mutation r, st', effs)))
         else get_route (SettingsJson (settings_get st)) req st)
      else if hr_path req = ''/api/reset-best-hashrate'' then
        (if hr_method req = POST then
           (let (r, st') = reset_best_hashrate_post (ro_write_ok io) (hr_headers req) st in Ok (Mutation r, st', []))
         else Ok (MethodNotAllowed, st, []))
      else if hr_path req = ''/api/info'' then get_route (InfoJson (info_get st)) req st
      else if hr_path req = ''/metrics'' then get_route (MetricsText (metrics_text st)) req st
      else Ok (RouteNotFound, st, []))"

text \<open>The start: no address or one that does not parse leaves the dashboard off.\<close>

datatype dashboard_state = DashboardOff | InvalidAddr | BindFailed | Serving dash_state

definition dashboard_serve :: "(string \<Rightarrow> bool) \<Rightarrow> bool \<Rightarrow> string \<Rightarrow> dash_state \<Rightarrow> dashboard_state" where
  "dashboard_serve parses_addr bind_ok addr st =
     (if addr = [] then DashboardOff
      else if \<not> parses_addr addr then InvalidAddr
      else if bind_ok then Serving st
      else BindFailed)"

lemma get_route_keeps: "get_route a req st = Ok (a', st', effs) \<Longrightarrow> st' = st \<and> effs = []"
  by (auto simp: get_route_def)

definition mutating :: "http_request \<Rightarrow> bool" where
  "mutating req \<longleftrightarrow> hr_method req = POST \<and> hr_path req \<in> {''/api/settings'', ''/api/reset-best-hashrate''}"

lemma route_keeps:
  assumes "\<not> mutating req" and "dashboard_route C millis io req st = Ok (a, st', effs)"
  shows "st' = st \<and> effs = [] \<and> (\<forall>r. a \<noteq> Mutation r)"
  using assms unfolding dashboard_route_def mutating_def get_route_def
  by (auto split: if_splits option.splits)

lemma route_mutation:
  assumes "dashboard_route C millis io req st = Ok (Mutation r, st', effs)"
  obtains (settings) address where "hr_path req = ''/api/settings''" "hr_coinbase_address req = Some address"
      "settings_post C millis (ro_view io) (ro_ok_at io) (ro_created_at io) (ro_write_ok io)
         (hr_headers req) address st = Ok (r, st', effs)"
    | (reset) "hr_path req = ''/api/reset-best-hashrate''"
      "reset_best_hashrate_post (ro_write_ok io) (hr_headers req) st = (r, st')" "effs = []"
proof -
  from assms route_keeps [of req C millis io st] have "mutating req" by auto
  then consider "hr_method req = POST" "hr_path req = ''/api/settings''"
    | "hr_method req = POST" "hr_path req = ''/api/reset-best-hashrate''" by (auto simp: mutating_def)
  then show ?thesis
  proof cases
    case 1
    then show ?thesis
      using assms by (auto simp: dashboard_route_def split: option.splits intro: settings)
  next
    case 2
    then show ?thesis
      using assms by (auto simp: dashboard_route_def split: prod.splits intro: reset)
  qed
qed

text \<open>
  C32: Only a trusted request changes anything. Whatever the method and the path, a request leaves the
  state of the pool as it was and sends no job, unless it is a POST to one of the two mutating
  routes, runtime settings are enabled, and it cannot come from a foreign page: its host is local
  or listed and its origin, if it has one, is that host. A mutating handler refuses exactly the
  requests that fail this.
\<close>

theorem only_trusted_requests_change_state:
  assumes "dashboard_route C millis io req st = Ok (a, st', effs)"
  shows "(st' \<noteq> st \<or> effs \<noteq> [] \<longrightarrow>
            mutating req \<and> ds_allow_settings st \<and> trusted_request (hr_headers req) (ds_allowed_hosts st))
     \<and> (\<forall>r. a = Mutation r \<longrightarrow>
            ((\<exists>why. r = Forbidden why) \<longleftrightarrow>
              \<not> (ds_allow_settings st \<and> trusted_request (hr_headers req) (ds_allowed_hosts st))))"
proof (cases "\<exists>r. a = Mutation r")
  case True
  then obtain r where r: "a = Mutation r" by blast
  have m: "mutating req" using route_keeps [of req C millis io st a st' effs] assms r by blast
  from assms [unfolded r] show ?thesis
  proof (cases rule: route_mutation)
    case (settings address)
    from settings(3) show ?thesis by (cases rule: settings_post_cases) (auto simp: r m)
  next
    case reset
    then show ?thesis using reset_cases [of "ro_write_ok io" "hr_headers req" st] by (auto simp: r m split: if_splits)
  qed
next
  case False
  show ?thesis
  proof (cases "mutating req")
    case True
    then have "a = BadRequest \<and> st' = st \<and> effs = []"
      using assms False
      by (auto simp: dashboard_route_def mutating_def split: option.splits prod.splits)
    then show ?thesis by simp
  next
    case False
    then show ?thesis using route_keeps [OF False assms] by simp
  qed
qed

definition foreign_reset :: http_request where
  "foreign_reset = \<lparr>hr_method = POST, hr_path = ''/api/reset-best-hashrate'', hr_headers = foreign_headers,
     hr_since = None, hr_window = None, hr_coinbase_address = None\<rparr>"

definition sample_route_io :: route_io where
  "sample_route_io = \<lparr>ro_instant = 0, ro_now1 = 1, ro_now2 = 2, ro_now3 = 3, ro_view = sample_view, ro_ok_at = 4,
     ro_created_at = 5, ro_write_ok = True\<rparr>"

theorem only_trusted_requests_change_witness:
  "\<exists>why. dashboard_route sample_crates 5 sample_route_io foreign_reset sample_dash
     = Ok (Mutation (Forbidden why), sample_dash, [])"
proof -
  obtain r st' where "reset_best_hashrate_post True foreign_headers sample_dash = (r, st')" by fastforce
  then have e: "dashboard_route sample_crates 5 sample_route_io foreign_reset sample_dash = Ok (Mutation r, st', [])"
    by (simp add: dashboard_route_def foreign_reset_def sample_route_io_def)
  have "\<not> trusted_request (hr_headers foreign_reset) (ds_allowed_hosts sample_dash)"
    using foreign_host by (simp add: trusted_request_def foreign_reset_def foreign_headers_def)
  then show ?thesis using only_trusted_requests_change_state [OF e] e by blast
qed

end
