(* ===== verification/Startup.thy ===== *)
theory Startup
  imports Metrics Noise Dashboard
begin

text \<open>
  \<^verbatim>\<open>src/src/main.rs\<close>: the start of the process, its background tasks and its end, over the
  models of the parts. \<open>boot\<close> follows the order of \<open>main\<close>: the configuration, the statistics,
  the node and its chain, the payout settings with a saved address laid over them, the engine,
  the authority key, the dashboard and the server; the first failure ends it. Logging and the
  signal handlers are not modelled; what the node, the file system and the database answer are
  inputs. The theorems show what a started pool rests on, and that a stop keeps the shares
  accepted before it.
\<close>

section \<open>State and inputs\<close>

datatype boot_error =
    LoadingConfig load_error
  | ConnectingRpc pool_error
  | QueryingChain pool_error
  | SettingsRefused settings_error
  | AuthorityKey key_error
  | BootPanic

text \<open>What the process reads while it starts.\<close>

record boot_io =
  bo_config_file :: "string \<Rightarrow> string option"
  bo_env :: "(string \<times> string) list"
  bo_recorder :: bool
  bo_instant :: nat
  bo_now :: u64
  bo_db_ok :: bool
  bo_store :: "string option \<Rightarrow> store_opened"
  bo_url_ok :: "string \<Rightarrow> bool"
  bo_cookie :: "string option"
  bo_node1 :: node
  bo_node2 :: node
  bo_counter :: u64
  bo_files :: files
  bo_home :: "string option"
  bo_path :: "string \<Rightarrow> path"
  bo_key_read_ok :: bool
  bo_key_mkdir_ok :: bool
  bo_key_faults :: key_faults
  bo_secret :: bytes
  bo_prometheus :: string

record 'ip running =
  ru_config :: config
  ru_overrides :: "string list"
  ru_exporting :: bool
  ru_stats :: pool_stats
  ru_settings :: runtime_settings
  ru_paused :: "address_error option"
  ru_engine :: template_engine
  ru_authority :: "authority option"
  ru_files :: files
  ru_dash :: dash_state
  ru_server :: "'ip server"

section \<open>Startup\<close>

text \<open>The payout settings: the chain of the node, the configured address, a saved address over it.\<close>

definition boot_settings ::
  "crates \<Rightarrow> boot_io \<Rightarrow> config \<Rightarrow> pool_stats \<Rightarrow> (boot_error, rpc_client \<times> runtime_settings) outcome" where
  "boot_settings C io cfg stats =
     (case RpcClient_new (bo_url_ok io) (c_bitcoin_rpc cfg) (bo_cookie io) of
        Err e \<Rightarrow> Err (ConnectingRpc e)
      | Panic \<Rightarrow> Panic
      | Ok rpc \<Rightarrow>
          (case rpc_chain (bo_url_ok io) (bo_node1 io) (bo_node2 io) (bo_cookie io) rpc of
             (Err e, _) \<Rightarrow> Err (QueryingChain e)
           | (Panic, _) \<Rightarrow> Panic
           | (Ok chain, rpc1) \<Rightarrow>
               (case Settings_new C (c_pool cfg) chain of
                  Err e \<Rightarrow> Err (SettingsRefused e)
                | Panic \<Rightarrow> Panic
                | Ok settings \<Rightarrow>
                    Ok (rpc1, apply_persisted C (load_setting ''coinbase_address'' stats) settings))))"

definition boot_authority ::
  "key_crate \<Rightarrow> boot_io \<Rightarrow> config \<Rightarrow> (boot_error, string option \<times> files \<times> authority option) outcome" where
  "boot_authority K io cfg =
     (if s2_enabled (c_sv2 cfg)
      then (case noise_init K (bo_key_read_ok io) (bo_key_mkdir_ok io) (bo_key_faults io) (bo_secret io) (c_sv2 cfg)
                   (bo_path io (expand_tilde (bo_home io) (s2_authority_key_file (c_sv2 cfg)))) (bo_files io) None of
              (Ok pubkey, fs, cell) \<Rightarrow> Ok (Some pubkey, fs, cell)
            | (Err e, _, _) \<Rightarrow> Err (AuthorityKey e)
            | (Panic, _, _) \<Rightarrow> Panic)
      else Ok (None, bo_files io, None))"

definition boot ::
  "crates \<Rightarrow> key_crate \<Rightarrow> (string \<Rightarrow> toml option) \<Rightarrow> (toml \<Rightarrow> config option) \<Rightarrow> boot_io \<Rightarrow> string
     \<Rightarrow> (boot_error, 'ip running) outcome" where
  "boot C K parse_toml interpret io cfg_path =
     (case load_config parse_toml interpret cfg_path (bo_config_file io cfg_path) (bo_env io) of
        Err e \<Rightarrow> Err (LoadingConfig e)
      | Panic \<Rightarrow> Panic
      | Ok (cfg, overrides) \<Rightarrow>
          (let exporting = metrics_init (bo_recorder io) (mc_prometheus_addr (c_metrics cfg));
               stats = PoolStats_new_with_store (bo_instant io) (bo_now io) (bo_db_ok io)
                         (bo_store io (mc_stats_db_path (c_metrics cfg)))
           in obind (boot_settings C io cfg stats) (\<lambda>(rpc, settings).
              let engine = TemplateEngine_new rpc (c_pool cfg) settings (bo_counter io)
              in obind (boot_authority K io cfg) (\<lambda>(pubkey, fs, cell).
                   Ok \<lparr>ru_config = cfg, ru_overrides = overrides, ru_exporting = exporting, ru_stats = stats,
                       ru_settings = settings, ru_paused = paused_reason C settings, ru_engine = engine,
                       ru_authority = cell, ru_files = fs,
                       ru_dash = dashboard_start stats (if exporting then Some (bo_prometheus io) else None) engine
                         (mc_allow_runtime_settings (c_metrics cfg)) (pc_listen_addr (c_pool cfg)) (s2_enabled (c_sv2 cfg))
                         pubkey (mc_allowed_hosts (c_metrics cfg)),
                       ru_server = server_new cfg\<rparr>))))"

text \<open>The command line: two options print and return, everything else starts the pool.\<close>

datatype 'ip main_outcome = Printed string | Started "(boot_error, 'ip running) outcome"

definition main_start ::
  "crates \<Rightarrow> key_crate \<Rightarrow> (string \<Rightarrow> toml option) \<Rightarrow> (toml \<Rightarrow> config option) \<Rightarrow> boot_io \<Rightarrow> string \<Rightarrow> string \<Rightarrow> string list
     \<Rightarrow> 'ip main_outcome" where
  "main_start C K parse_toml interpret io version usage args =
     (case parse_args args of
        Version \<Rightarrow> Printed (''solo-pool-rs '' @ version)
      | Help \<Rightarrow> Printed usage
      | Run path \<Rightarrow> Started (boot C K parse_toml interpret io path))"

section \<open>Background tasks and shutdown\<close>

text \<open>The ten-minute recorder, the ten-second flush of the share log, and the poll of the network figures.\<close>

datatype background_task =
    RecordHashrate bool bool bool u64
  | FlushShares bool u64
  | PollNetwork "f64 result" "f64 result"

fun run_task :: "background_task \<Rightarrow> pool_stats \<Rightarrow> pool_stats" where
  "run_task (RecordHashrate ok1 ok2 ok3 now) p = record_hashrate_snapshot ok1 ok2 ok3 now p"
| "run_task (FlushShares ok now) p = flush_share_log ok now p"
| "run_task (PollNetwork hashrate difficulty) p =
     (let p1 = (case hashrate of Ok hps \<Rightarrow> set_network_hashrate hps p | _ \<Rightarrow> p)
      in case difficulty of Ok pct \<Rightarrow> set_est_difficulty_change_pct pct p1 | _ \<Rightarrow> p1)"

text \<open>
  The wait for submissions still in flight: every 50 ms the counter is read again; \<open>counts k\<close> is
  its value and \<open>clock k\<close> the time at the \<open>k\<close>-th reading.
\<close>

fun wait_for_inflight_submits :: "nat \<Rightarrow> (nat \<Rightarrow> nat) \<Rightarrow> (nat \<Rightarrow> nat) \<Rightarrow> nat \<Rightarrow> nat \<Rightarrow> bool option" where
  "wait_for_inflight_submits 0 counts clock deadline k = None"
| "wait_for_inflight_submits (Suc n) counts clock deadline k =
     (if counts k = 0 then Some True
      else if deadline \<le> clock k then Some False
      else wait_for_inflight_submits n counts clock deadline (Suc k))"

text \<open>After the listener has closed.\<close>

definition shutdown_stats :: "bool \<Rightarrow> bool \<Rightarrow> bool \<Rightarrow> bool \<Rightarrow> u64 \<Rightarrow> u64 \<Rightarrow> pool_stats \<Rightarrow> pool_stats" where
  "shutdown_stats ok1 ok2 ok3 ok4 now1 now2 p =
     flush_share_log ok4 now2 (record_hashrate_snapshot ok1 ok2 ok3 now1 p)"

lemma unat_sat_sub: "unat (sat_sub a b) = unat a - unat b"
  by (auto simp: sat_sub_def unat_sub word_le_nat_alt)

section \<open>Lemmas on startup\<close>

lemma apply_persisted_network [simp]: "rs_network (apply_persisted C a s) = rs_network s"
  by (simp add: apply_persisted_def split: option.split)

lemma boot_cases:
  assumes "boot C K parse_toml interpret io path = Ok r"
  obtains rpc settings pubkey fs cell overrides where
    "load_config parse_toml interpret path (bo_config_file io path) (bo_env io) = Ok (ru_config r, overrides)"
    "ru_stats r = PoolStats_new_with_store (bo_instant io) (bo_now io) (bo_db_ok io)
       (bo_store io (mc_stats_db_path (c_metrics (ru_config r))))"
    "boot_settings C io (ru_config r) (ru_stats r) = Ok (rpc, settings)"
    "boot_authority K io (ru_config r) = Ok (pubkey, fs, cell)"
    "ru_settings r = settings" "ru_paused r = paused_reason C settings"
    "ru_engine r = TemplateEngine_new rpc (c_pool (ru_config r)) settings (bo_counter io)"
    "ru_authority r = cell" "ds_engine (ru_dash r) = ru_engine r" "ds_stats (ru_dash r) = ru_stats r"
    "ds_sv2_authority_pubkey (ru_dash r) = pubkey" "ru_server r = server_new (ru_config r)"
proof -
  obtain cfg overrides where l: "load_config parse_toml interpret path (bo_config_file io path) (bo_env io) = Ok (cfg, overrides)"
    using assms by (auto simp: boot_def split: outcome.splits)
  define stats where "stats = PoolStats_new_with_store (bo_instant io) (bo_now io) (bo_db_ok io)
       (bo_store io (mc_stats_db_path (c_metrics cfg)))"
  obtain rpc settings where b: "boot_settings C io cfg stats = Ok (rpc, settings)"
    using assms l by (cases "boot_settings C io cfg stats") (auto simp: boot_def Let_def stats_def)
  obtain pubkey fs cell where a: "boot_authority K io cfg = Ok (pubkey, fs, cell)"
    using assms l b by (cases "boot_authority K io cfg") (auto simp: boot_def Let_def stats_def)
  have r: "r = \<lparr>ru_config = cfg, ru_overrides = overrides,
      ru_exporting = metrics_init (bo_recorder io) (mc_prometheus_addr (c_metrics cfg)), ru_stats = stats,
      ru_settings = settings, ru_paused = paused_reason C settings,
      ru_engine = TemplateEngine_new rpc (c_pool cfg) settings (bo_counter io), ru_authority = cell, ru_files = fs,
      ru_dash = dashboard_start stats (if metrics_init (bo_recorder io) (mc_prometheus_addr (c_metrics cfg))
          then Some (bo_prometheus io) else None) (TemplateEngine_new rpc (c_pool cfg) settings (bo_counter io))
        (mc_allow_runtime_settings (c_metrics cfg)) (pc_listen_addr (c_pool cfg)) (s2_enabled (c_sv2 cfg))
        pubkey (mc_allowed_hosts (c_metrics cfg)), ru_server = server_new cfg\<rparr>"
    using assms l b a by (simp add: boot_def Let_def stats_def)
  show thesis
    by (rule that [of overrides rpc settings pubkey fs cell]) (use l b a in \<open>simp_all add: r stats_def dashboard_start_def\<close>)
qed

lemma load_config_validated:
  assumes "load_config parse_toml interpret path contents vars = Ok (cfg, names)"
  shows "validate cfg = Ok ()"
proof -
  obtain applied y where "(case validate y of Err e \<Rightarrow> Err (Rejected e) | _ \<Rightarrow> Ok (y, applied)) = Ok (cfg, names)"
    using assms by (auto simp: load_config_def split: option.splits)
  then show ?thesis using validate_not_Panic [of y] by (cases "validate y") auto
qed

lemma boot_settings_cases:
  assumes "boot_settings C io cfg stats = Ok (rpc, settings)"
  obtains chain rpc0 s0 where "rpc_chain (bo_url_ok io) (bo_node1 io) (bo_node2 io) (bo_cookie io) rpc0 = (Ok chain, rpc)"
    "Settings_new C (c_pool cfg) chain = Ok s0"
    "settings = apply_persisted C (load_setting ''coinbase_address'' stats) s0"
  using assms by (auto simp: boot_settings_def split: outcome.splits prod.splits)

lemma Settings_new_network:
  "Settings_new C cfg chain = Ok s \<Longrightarrow> network_of_chain chain = Some (rs_network s)
     \<and> (pc_network cfg = None \<or> pc_network cfg = Some (rs_network s))
     \<and> as_address (rs_state s) = pc_coinbase_address cfg"
  by (auto simp: Settings_new_def split: option.splits if_splits)

lemma persisted_settings:
  assumes "settings_ok C s"
  shows "settings_ok C (apply_persisted C a s)"
  using assms by (auto simp: apply_persisted_def settings_ok_def split: option.splits)

lemma paused_reason_iff: "settings_ok C s \<Longrightarrow> paused_reason C s = None \<longleftrightarrow> valid_coinbase_address s \<noteq> None"
  by (auto simp: paused_reason_def settings_ok_def valid_coinbase_address_def validate_address_def split: outcome.splits option.splits if_splits)

section \<open>Lemmas on the share log\<close>

lemma snapshot_store:
  assumes "st_store p = Some s" and "tables_ok s"
  obtains s1 where "st_store (record_hashrate_snapshot ok1 ok2 ok3 now p) = Some s1" "tables_ok s1"
    "db_share_log s1 = db_share_log s"
proof -
  define s1 where "s1 = set_round ok3 (st_round_work p) (st_round_start_ts p) (store_hashrate_snapshot ok1 ok2 now (total_10m now p) s)"
  have "tables_ok (store_hashrate_snapshot ok1 ok2 now h s)" "db_share_log (store_hashrate_snapshot ok1 ok2 now h s) = db_share_log s" for h
    using assms(2) by (simp_all add: store_hashrate_snapshot_def Let_def StatsStore_failed_def StatsStore_succeeded_def)
  then have "tables_ok s1" "db_share_log s1 = db_share_log s"
    using set_round_tables by (auto simp: s1_def set_round_def StatsStore_failed_def StatsStore_succeeded_def)
  moreover have "st_store (record_hashrate_snapshot ok1 ok2 ok3 now p) = Some s1"
    using assms(1) by (simp add: record_hashrate_snapshot_def persist_round_state_def s1_def)
  ultimately show thesis using that by blast
qed

lemma snapshot_pending: "st_pending_shares (record_hashrate_snapshot ok1 ok2 ok3 now p) = st_pending_shares p"
  by (simp add: record_hashrate_snapshot_def persist_round_state_def)

text \<open>A flush that succeeds: nothing pending, and every share of the last day is a row.\<close>

lemma flush_store:
  assumes "st_store p = Some s" and "tables_ok s" and "x \<in> set (st_pending_shares p)"
    and "unat (ls_ts x) < 2 ^ 63" and "unat now \<le> unat (ls_ts x) + 86400"
  obtains s1 where "st_store (flush_share_log True now p) = Some s1" "tables_ok s1"
    "(ls_worker x, int (unat (ls_ts x)), db_u64 (ls_credited x)) \<in> set (db_share_log s1)"
proof -
  define s1 where "s1 = snd (append_shares True (st_pending_shares p) now s)"
  have ne: "st_pending_shares p \<noteq> []" using assms(3) by auto
  have ts: "db_u64 (ls_ts x) = int (unat (ls_ts x))" using assms(4) by (simp add: db_u64_def min_def)
  have "unat (sat_sub now HASHRATE_WINDOW_24H) \<le> unat (ls_ts x)"
    using assms(5) unat_sat_sub [of now HASHRATE_WINDOW_24H] by (simp add: HASHRATE_WINDOW_24H_def)
  then have "db_u64 (sat_sub now HASHRATE_WINDOW_24H) \<le> int (unat (ls_ts x))"
    unfolding db_u64_def by linarith
  then have "(ls_worker x, int (unat (ls_ts x)), db_u64 (ls_credited x)) \<in> set (db_share_log s1)"
    using assms(3) ts by (force simp: s1_def append_shares_def Let_def StatsStore_succeeded_def)
  moreover have "tables_ok s1" using assms(2) by (simp add: s1_def append_shares_def Let_def StatsStore_succeeded_def)
  moreover have "st_store (flush_share_log True now p) = Some s1"
    using assms(1) ne by (simp add: flush_share_log_def Let_def s1_def)
  ultimately show thesis using that by blast
qed

lemma opened_share_log:
  assumes "tables_ok s"
  obtains s1 where "st_store (PoolStats_new_with_store i now ok (Opened (StatsStore_open ar ok' s))) = Some s1"
    "db_share_log s1 = db_share_log s"
proof -
  have "tables_ok (StatsStore_open ar ok' s)" using StatsStore_open_tables [OF assms] by blast
  then obtain l where l: "load_values (StatsStore_open ar ok' s) = Some l" using load_values_ok by metis
  have "db_share_log (StatsStore_open ar ok' s) = db_share_log s"
    by (simp add: StatsStore_open_def prune_worker_best_shares_def StatsStore_failed_def)
  moreover have "db_share_log (set_round ok w t s') = db_share_log s'" for w t s'
    by (simp add: set_round_def StatsStore_failed_def StatsStore_succeeded_def)
  ultimately show thesis
    using that l by (cases "lo_round_start_ts l = 0") (auto simp: PoolStats_new_with_store_def Let_def)
qed

lemma get_shares_row:
  assumes "(w, int (unat ts), int (unat c)) \<in> set (db_share_log s)" and "unat since \<le> unat (ts :: u64)"
  shows "(ts, c) \<in> set (get_shares w since s)"
proof -
  have "db_u64 since \<le> int (unat ts)" using assms(2) by (simp add: db_u64_def)
  then have "(w, int (unat ts), int (unat c)) \<in> set (sort_key (\<lambda>(w, ts, c). ts)
      (filter (\<lambda>(w', ts, c). w' = w \<and> ts \<ge> db_u64 since) (db_share_log s)))"
    using assms(1) by simp
  moreover have "get_u64 (int (unat x)) = Some x" for x :: u64 by (simp add: get_u64_def)
  ultimately show ?thesis unfolding get_shares_def map_filter_def
    by (force simp: image_iff Bex_def)
qed

lemma rows_restored:
  assumes "(ts, c) \<in> set rows" and "secs (unat (sat_sub now ts)) \<le> SHARE_RETENTION" and "secs (unat (sat_sub now ts)) \<le> instant"
  shows "\<exists>h. from_unix_rows instant rows now = Some h \<and> (instant - secs (unat (sat_sub now ts)), c) \<in> set (sh_share_times h)"
proof -
  define f where "f = (\<lambda>(ts :: u64, diff :: u64). let age = secs (unat (sat_sub now ts)) in if age > SHARE_RETENTION then None
      else map_option (\<lambda>instant. (instant, diff)) (checked_sub_instant instant age))"
  have "f (ts, c) = Some (instant - secs (unat (sat_sub now ts)), c)"
    using assms(2,3) by (simp add: f_def checked_sub_instant_def)
  then have m: "(instant - secs (unat (sat_sub now ts)), c) \<in> set (List.map_filter f rows)"
    using assms(1) by (force simp: map_filter_def)
  then obtain x xs where x: "List.map_filter f rows = x # xs" by (cases "List.map_filter f rows") auto
  have "from_unix_rows instant rows now = (case List.map_filter f rows of [] \<Rightarrow> None
      | (started_at, _) # _ \<Rightarrow> Some \<lparr>sh_share_times = List.map_filter f rows, sh_started_at = started_at\<rparr>)"
    unfolding from_unix_rows_def f_def Let_def ..
  then have "from_unix_rows instant rows now = Some \<lparr>sh_share_times = List.map_filter f rows, sh_started_at = fst x\<rparr>"
    by (simp add: x split_beta)
  with m show ?thesis by (intro exI [of _ "\<lparr>sh_share_times = List.map_filter f rows, sh_started_at = fst x\<rparr>"]) simp
qed

section \<open>Properties\<close>


text \<open>
  C29: A graceful stop keeps the shares. A share still waiting in memory when the pool is stopped,
  and no older than a day, counts again after the restart: when its worker comes back within the
  day, the restored history has the share at its age, with the credit it was given.
\<close>

theorem graceful_stop_keeps_shares:
  assumes "st_store p = Some s" and "tables_ok s" and "x \<in> set (st_pending_shares p)"
    and "unat (ls_ts x) < 2 ^ 63" and "unat (ls_credited x) < 2 ^ 63"
    and "unat now2 \<le> unat (ls_ts x) + 86400" and "unat now3 \<le> unat (ls_ts x) + 86400"
    and "secs (unat now3 - unat (ls_ts x)) \<le> instant"
    and "q = PoolStats_new_with_store i now0 ok (Opened (StatsStore_open ar ok'
           (the (st_store (shutdown_stats ok1 ok2 ok3 True now1 now2 p)))))"
  shows "st_pending_shares (shutdown_stats ok1 ok2 ok3 True now1 now2 p) = []
     \<and> (\<exists>h. fst (PoolStats_take_share_history instant now3 (ls_worker x) q) = Some h
          \<and> (instant - secs (unat now3 - unat (ls_ts x)), ls_credited x) \<in> set (sh_share_times h))"
proof -
  let ?r = "record_hashrate_snapshot ok1 ok2 ok3 now1 p"
  obtain s1 where s1: "st_store ?r = Some s1" "tables_ok s1" using snapshot_store [OF assms(1,2)] by blast
  have x: "x \<in> set (st_pending_shares ?r)" using assms(3) by (simp add: snapshot_pending)
  obtain s2 where s2: "st_store (flush_share_log True now2 ?r) = Some s2" "tables_ok s2"
    "(ls_worker x, int (unat (ls_ts x)), db_u64 (ls_credited x)) \<in> set (db_share_log s2)"
    using flush_store [OF s1 x assms(4,6)] by blast
  obtain s3 where s3: "st_store q = Some s3" "db_share_log s3 = db_share_log s2"
    using s2(1) unfolding assms(9) shutdown_stats_def option.sel by (metis opened_share_log [OF s2(2)] option.sel)
  have empty: "st_worker_share_history q = []"
    unfolding assms(9) by (simp add: PoolStats_new_with_store_def Let_def split_beta)
  have c: "db_u64 (ls_credited x) = int (unat (ls_credited x))" using assms(5) by (simp add: db_u64_def min_def)
  have "(ls_ts x, ls_credited x) \<in> set (get_shares (ls_worker x) (sat_sub now3 HASHRATE_WINDOW_24H) s3)"
    using s2(3) s3(2) c assms(7) by (intro get_shares_row) (simp_all add: unat_sat_sub HASHRATE_WINDOW_24H_def)
  moreover have "secs (unat (sat_sub now3 (ls_ts x))) \<le> SHARE_RETENTION"
    using assms(7) by (simp add: unat_sat_sub SHARE_RETENTION_def secs_def)
  ultimately have "\<exists>h. fst (PoolStats_take_share_history instant now3 (ls_worker x) q) = Some h
      \<and> (instant - secs (unat now3 - unat (ls_ts x)), ls_credited x) \<in> set (sh_share_times h)"
    using rows_restored [of "ls_ts x" "ls_credited x" _ now3 instant] assms(8) s3(1) empty
    by (simp add: PoolStats_take_share_history_def unat_sat_sub)
  moreover have "st_pending_shares (flush_share_log True now2 ?r) = []"
    using s1(1) by (simp add: flush_share_log_def Let_def)
  ultimately show ?thesis by (simp add: shutdown_stats_def)
qed

text \<open>
  The wait for submissions at shutdown ends. When the clock advances by at least the 50 ms
  slept between two readings, 101 readings are enough for the five seconds allowed: the wait
  reports success exactly when a reading before the deadline finds no submission in flight.
\<close>

theorem shutdown_wait_ends:
  assumes "\<And>k. clock k + 50000000 \<le> clock (Suc k)" and "deadline = clock 0 + secs 5"
  shows "\<exists>fin. wait_for_inflight_submits 101 counts clock deadline 0 = Some fin
     \<and> (fin \<longleftrightarrow> (\<exists>k. counts k = 0 \<and> (\<forall>j. j < k \<longrightarrow> clock j < deadline)))"
proof -
  have clock: "clock 0 + 50000000 * k \<le> clock k" for k
  proof (induction k)
    case (Suc k)
    then show ?case using assms(1) [of k] by simp
  qed simp
  have "\<exists>fin. wait_for_inflight_submits n counts clock deadline k = Some fin
      \<and> (fin \<longleftrightarrow> (\<exists>m \<ge> k. counts m = 0 \<and> (\<forall>j. k \<le> j \<and> j < m \<longrightarrow> clock j < deadline)))"
    if "101 \<le> n + k" and "\<forall>j. j < k \<longrightarrow> clock j < deadline" for n k
    using that
  proof (induction n arbitrary: k)
    case 0
    then have "clock 100 < deadline" by simp
    then show ?case using clock [of 100] assms(2) by (simp add: secs_def)
  next
    case (Suc n)
    show ?case
    proof (cases "counts k = 0 \<or> deadline \<le> clock k")
      case True
      have "\<not> (\<exists>m \<ge> k. counts m = 0 \<and> (\<forall>j. k \<le> j \<and> j < m \<longrightarrow> clock j < deadline))"
        if "counts k \<noteq> 0" "deadline \<le> clock k"
        using that by (metis le_neq_implies_less le_refl not_less)
      then show ?thesis using True by auto
    next
      case False
      have "101 \<le> n + Suc k" "\<forall>j. j < Suc k \<longrightarrow> clock j < deadline" using Suc.prems False by (auto simp: less_Suc_eq)
      then obtain fin where fin: "wait_for_inflight_submits n counts clock deadline (Suc k) = Some fin"
        "fin \<longleftrightarrow> (\<exists>m \<ge> Suc k. counts m = 0 \<and> (\<forall>j. Suc k \<le> j \<and> j < m \<longrightarrow> clock j < deadline))"
        using Suc.IH by blast
      have "(\<exists>m \<ge> Suc k. counts m = 0 \<and> (\<forall>j. Suc k \<le> j \<and> j < m \<longrightarrow> clock j < deadline))
          \<longleftrightarrow> (\<exists>m \<ge> k. counts m = 0 \<and> (\<forall>j. k \<le> j \<and> j < m \<longrightarrow> clock j < deadline))"
        using False by (metis Suc_leD Suc_leI le_neq_implies_less not_less)
      then show ?thesis using fin False by simp
    qed
  qed
  from this [of 101 0] show ?thesis by simp
qed

theorem shutdown_wait_witness:
  "\<exists>fin. wait_for_inflight_submits 101 (\<lambda>k. 2 - k) (\<lambda>k. k * 50000000) (secs 5) 0 = Some fin \<and> fin"
proof -
  have "\<exists>fin. wait_for_inflight_submits 101 (\<lambda>k. 2 - k) (\<lambda>k. k * 50000000) (secs 5) 0 = Some fin
     \<and> (fin \<longleftrightarrow> (\<exists>k. 2 - k = 0 \<and> (\<forall>j. j < k \<longrightarrow> j * 50000000 < secs 5)))"
    by (rule shutdown_wait_ends) simp_all
  moreover have "\<exists>k :: nat. 2 - k = 0 \<and> (\<forall>j. j < k \<longrightarrow> j * 50000000 < secs 5)"
    by (intro exI [of _ 2]) (simp add: secs_def)
  ultimately show ?thesis by auto
qed

definition sample_node :: node where
  "sample_node c meth params = Inr (JObject [(''chain'', JString ''main'')])"

definition sample_boot_io :: boot_io where
  "sample_boot_io = \<lparr>bo_config_file = \<lambda>_. Some ''x'', bo_env = [], bo_recorder = True, bo_instant = 0, bo_now = 9, bo_db_ok = True,
     bo_store = \<lambda>_. NoStore, bo_url_ok = \<lambda>_. True, bo_cookie = None, bo_node1 = sample_node, bo_node2 = sample_node,
     bo_counter = 1, bo_files = [], bo_home = None, bo_path = \<lambda>p. [p], bo_key_read_ok = True, bo_key_mkdir_ok = True,
     bo_key_faults = no_faults, bo_secret = [], bo_prometheus = []\<rparr>"


theorem graceful_stop_witness:
  "\<exists>h. fst (PoolStats_take_share_history (secs 100000) 5000 ''w''
       (PoolStats_new_with_store 0 4000 True (Opened (StatsStore_open (sort_key (\<lambda>e. - snd e)) True
          (the (st_store (shutdown_stats True True True True 2000 2000
             (log_share 1000 ''w'' 7 (PoolStats_new_with_store 0 900 True (Opened (StatsStore_open (sort_key (\<lambda>e. - snd e)) True empty_tables))))))))))) = Some h
     \<and> (secs 96000, 7) \<in> set (sh_share_times h)"
proof -
  define p where "p = log_share 1000 ''w'' 7 (PoolStats_new_with_store 0 900 True (Opened (StatsStore_open (sort_key (\<lambda>e. - snd e)) True empty_tables)))"
  obtain s where s: "st_store (PoolStats_new_with_store 0 900 True (Opened (StatsStore_open (sort_key (\<lambda>e. - snd e)) True empty_tables))) = Some s" "tables_ok s"
    using reopened(1) [OF empty_tables_ok, of 0 900 True "sort_key (\<lambda>e. - snd e)" True]
    by (auto simp: persisted_def split: option.splits)
  have p: "st_store p = Some s" "st_pending_shares p = [\<lparr>ls_worker = ''w'', ls_ts = 1000, ls_credited = 7\<rparr>]"
    using s(1) by (simp_all add: p_def log_share_def MAX_PENDING_SHARES_def PoolStats_new_with_store_def Let_def split_beta)
  show ?thesis
    using graceful_stop_keeps_shares [OF p(1) s(2), of "\<lparr>ls_worker = ''w'', ls_ts = 1000, ls_credited = 7\<rparr>" 2000 5000 "secs 100000" _ 0 4000 True
        "sort_key (\<lambda>e. - snd e)" True True True True 2000, OF _ _ _ _ _ _ refl] p(2)
    by (simp add: p_def [symmetric] secs_def)
qed

end
