(* ===== verification/Spec2Isabelle.thy ===== *)
theory Spec2Isabelle
  imports Sv1_Device Accounting Tips Startup
begin

text \<open>
  A verification library for \<^verbatim>\<open>solo-pool-rs\<close>, a Bitcoin solo-mining pool.

  \<^bold>\<open>The program.\<close> The pool fetches block templates from a Bitcoin node (\<^verbatim>\<open>bitcoin/rpc.rs\<close>), turns each
  into a job (\<^verbatim>\<open>bitcoin/template.rs\<close>), keeps the recent jobs and broadcasts new ones
  (\<^verbatim>\<open>mining/engine.rs\<close>), and learns from the node's notifications and from a poll that the tip has
  moved (\<^verbatim>\<open>bitcoin/zmq.rs\<close>). Miners connect over Stratum V1 (\<^verbatim>\<open>network/session.rs\<close>,
  \<^verbatim>\<open>protocol/sv1.rs\<close>) or encrypted Stratum V2 (\<^verbatim>\<open>protocol/sv2/\<close>) through one accept loop
  (\<^verbatim>\<open>network/server.rs\<close>), which bans and rate-limits peers (\<^verbatim>\<open>security/mod.rs\<close>). A session validates
  shares (\<^verbatim>\<open>mining/validator.rs\<close>), adapts its difficulty (\<^verbatim>\<open>mining/vardiff.rs\<close>), reports to the
  shared statistics and their database (\<^verbatim>\<open>stats.rs\<close>) and to the metrics (\<^verbatim>\<open>metrics/mod.rs\<close>), and hands
  a found block to the engine, which archives it and gets it to the node. A dashboard
  (\<^verbatim>\<open>network/dashboard.rs\<close>) shows the statistics and can change the payout address
  (\<^verbatim>\<open>settings.rs\<close>). \<^verbatim>\<open>main.rs\<close> loads the configuration (\<^verbatim>\<open>config.rs\<close>), starts all parts and stops
  them. All paths are under \<^verbatim>\<open>src/src/\<close>.

  \<^bold>\<open>Conventions.\<close> Machine integers keep their widths as words; \<open>usize\<close> lengths are naturals. A call
  that can fail returns \<open>Ok\<close>, \<open>Err\<close> or \<open>Panic\<close> (\<open>Prelude\<close>). A method is a function from the object's
  record to the new record; what it reads from outside (clocks, the node's answers, whether a
  write succeeds) is an argument, and what it sends to other parts is a list of effects.
  Instants are nanoseconds. A task that runs beside others is a step function or a step
  relation, and theorems about it quantify over all interleavings of its steps. A concurrent map is
  an association list in its iteration order; where the source leaves an order open it is a
  parameter (\<open>arrange\<close>).

  \<^bold>\<open>The theories.\<close>

  \<^item> \<open>Prelude\<close>: machine types, results, byte strings, slices, number formats, and the shared locales
    \<open>preserved\<close>, \<open>bounded_store\<close>, \<open>kept_by\<close> and \<open>simulation\<close>. \<open>F64\<close>: IEEE binary64 with rounding to nearest.
    \<open>Crates\<close>: the third-party functions as a parameter with their documented laws. \<open>Errors\<close>:
    \<^verbatim>\<open>error.rs\<close> and JSON values.

  \<^item> \<open>Targets\<close>, \<open>Merkle\<close>, \<open>Template\<close>: \<^verbatim>\<open>bitcoin/template.rs\<close>. Every target computation is related to
    the number its bytes denote; the branch gives the root of the full merkle tree; the spliced
    coinbase is one transaction on the wire; a template makes a job exactly when its fields decode.

  \<^item> \<open>Validator\<close>: \<^verbatim>\<open>mining/validator.rs\<close>. Validation equals a numeric specification on every branch,
    what is taken for a block is a complete block, and the tracker refines a window of the last 4096 hashes
    (locale \<open>recent_keys\<close>).

  \<^item> \<open>Config\<close>, \<open>Config_Load\<close>: \<^verbatim>\<open>config.rs\<close>, its checks and the way from file, environment and command
    line to a validated configuration. \<open>Settings\<close>: \<^verbatim>\<open>settings.rs\<close>.

  \<^item> \<open>Security\<close>: \<^verbatim>\<open>security/mod.rs\<close>; bans hold until they expire, windows limit connections.
    \<open>Vardiff\<close>: \<^verbatim>\<open>mining/vardiff.rs\<close>; the difficulty stays in range and follows the evidence.

  \<^item> \<open>Rpc\<close>: \<^verbatim>\<open>bitcoin/rpc.rs\<close>. \<open>Engine\<close>: \<^verbatim>\<open>mining/engine.rs\<close> with refreshes as single steps; live jobs
    extend the current tip, jobs pay a validated address, a found block is archived and submitted
    until the node has it. \<open>Zmq\<close>: \<^verbatim>\<open>bitcoin/zmq.rs\<close>. \<open>Tips\<close>: the tasks of \<open>zmq::start\<close> and the loop
    \<open>TemplateEngine::run\<close> with overlapping refreshes, taken apart move by move; no tip signal is
    lost and every change of tip is announced by a clean job.

  \<^item> \<open>Sv1\<close>, \<open>Session\<close>: the Stratum V1 messages and session. \<open>Sv1_Device\<close>: a device that follows the
    protocol hashes exactly what the pool judges. \<open>Sv2\<close>, \<open>Sv2_Session\<close>: the Stratum V2 messages and
    handlers with their invariant, and the same result for a Stratum V2 device. \<open>Noise\<close>:
    \<^verbatim>\<open>protocol/sv2/noise.rs\<close>; the key file survives crashes and the frame reader is bounded.
    \<open>Server\<close>: the accept loop; connection slots are counted exactly. \<open>Loops\<close>: both session loops
    with their deadlines and cancelled reads.

  \<^item> \<open>Rejects\<close>, \<open>Stats\<close>, \<open>Stats_History\<close>: \<^verbatim>\<open>stats.rs\<close>; the ring of minutes refines the log of events,
    rounds close at blocks, and the database recovers the statistics. \<open>Accounting\<close>: sessions of both protocols
    against the statistics (locale \<open>accounted_session\<close>, interpreted for each protocol); the pool knows its
    miners. \<open>Metrics\<close>: every emission of \<^verbatim>\<open>metrics/mod.rs\<close> and the refresh task.

  \<^item> \<open>Dashboard\<close>: the routes of \<^verbatim>\<open>network/dashboard.rs\<close>; only trusted requests change anything, and an
    accepted change takes effect everywhere. \<open>Startup\<close>: \<^verbatim>\<open>main.rs\<close>; what a started pool rests on, and
    that a graceful stop keeps the shares.

  \<^bold>\<open>Bounds and fuel.\<close> The background resubmission takes a fuel of 721 iterations: an attempt every ten
  seconds for two hours. A read of an encrypted frame takes one more than the cap on a frame, since
  every round asks for at least one byte. The wait at shutdown takes 101 readings, one every
  fifty milliseconds for five seconds. With this fuel the loops are proved to return. A refresh
  makes at most eight moves. All other recursions are structural or have a measure.

  \<^bold>\<open>Parameters.\<close> Named hypotheses state documented behaviour only: \<open>sha256_ok\<close>, \<open>hex_ok\<close> and
  \<open>serialize_ok\<close> of the \<^verbatim>\<open>sha2\<close>, \<^verbatim>\<open>hex\<close> and \<^verbatim>\<open>bitcoin\<close> crates, \<open>key_crate_ok\<close> (a key is printed in base58
  and read back), \<open>decoder_ok\<close> (an incomplete frame misses at least a byte), \<open>watch_ok\<close> (a sent value is
  unseen until it is marked), and \<open>arrange_ok\<close> (a sort permutes its input into order). The Stratum V2 codec, the JSON and TOML parsers, the JSON-RPC client
  and the handshake step carry no hypothesis. Each hypothesis is shown satisfiable by an instance.

  \<^bold>\<open>Not modelled.\<close> The text of the dashboard page with its styles and scripts, the images and the chart
  styling are constants served as they are. The HTTP server, the cipher and the key
  exchange, SQLite's engine and the metrics registry belong to third-party crates. Logging, signal handlers,
  socket options and file modes have no effect on the state modelled here.
  \<^verbatim>\<open>protocol/sv2/golden.rs\<close> is test data.
\<close>

end
